(* ===== verification/Prelude.thy ===== *)
theory Prelude
  imports Main "HOL-Library.Word" "HOL-Library.Char_ord" "HOL-Library.List_Lexorder"
    "HOL-Library.AList" "HOL-Library.Monad_Syntax"
begin

text \<open>
  Shared vocabulary of the development: the machine types of the Rust sources, strings and
  bytes, lower-case hexadecimal text, big-endian lengths, saturating signed arithmetic, and
  the generic list and association-list lemmas that the component theories use.

  A Rust \<open>String\<close> is a UTF-8 byte sequence and its \<open>len\<close> counts bytes. An Isabelle
  \<open>char\<close> is one byte, so \<open>string\<close> models \<open>String\<close> and \<open>length\<close> models
  \<open>len\<close>. \<open>Vec<u8>\<close> and \<open>[u8; n]\<close> are lists of 8-bit words. A
  \<open>usize\<close> count is a \<open>nat\<close>; sequence numbers and generations (\<open>u64\<close>) and
  versions (\<open>u32\<close>) keep their width; \<open>i64\<close> milliseconds are integers, with
  \<open>saturating_sub\<close> clamped to the 64-bit range. A \<open>HashMap\<close> whose size or contents
  are enumerated is an association list with distinct keys.
\<close>

named_theorems hex_simps "facts on lower-case hexadecimal text"
named_theorems alist_simps "lookup, domain and size of association lists"

type_synonym byte = "8 word"
type_synonym bytes = "byte list"
type_synonym u32 = "32 word"
type_synonym u64 = "64 word"
type_synonym uuid = "128 word"

section \<open>Strings and bytes\<close>

definition byte_of :: "char \<Rightarrow> byte" where
  "byte_of c = word_of_nat (of_char c)"

definition char_of_byte :: "byte \<Rightarrow> char" where
  "char_of_byte b = char_of (unat b)"

definition as_bytes :: "string \<Rightarrow> bytes" where
  "as_bytes s = map byte_of s"

definition of_bytes :: "bytes \<Rightarrow> string" where
  "of_bytes bs = map char_of_byte bs"

definition is_ascii_digit :: "char \<Rightarrow> bool" where
  "is_ascii_digit c \<longleftrightarrow> CHR ''0'' \<le> c \<and> c \<le> CHR ''9''"

definition is_ascii_uppercase :: "char \<Rightarrow> bool" where
  "is_ascii_uppercase c \<longleftrightarrow> CHR ''A'' \<le> c \<and> c \<le> CHR ''Z''"

definition is_lower_hex_char :: "char \<Rightarrow> bool" where
  "is_lower_hex_char c \<longleftrightarrow> is_ascii_digit c \<or> (CHR ''a'' \<le> c \<and> c \<le> CHR ''f'')"

text \<open>The test \<open>s.len() == n && s.bytes().all(..)\<close> the sources repeat for room ids
  (32), fingerprints (64) and device ids (16).\<close>

definition is_lower_hex :: "nat \<Rightarrow> string \<Rightarrow> bool" where
  "is_lower_hex n s \<longleftrightarrow> length s = n \<and> list_all is_lower_hex_char s"

text \<open>\<open>String::from_utf8\<close>.\<close>

definition cont_byte :: "byte \<Rightarrow> bool" where
  "cont_byte b \<longleftrightarrow> 0x80 \<le> b \<and> b \<le> 0xBF"

fun utf8_valid :: "bytes \<Rightarrow> bool" where
  "utf8_valid [] = True"
| "utf8_valid (b # bs) =
     (if b < 0x80 then utf8_valid bs
      else if 0xC2 \<le> b \<and> b \<le> 0xDF then
        (case bs of c # r \<Rightarrow> cont_byte c \<and> utf8_valid r | _ \<Rightarrow> False)
      else if 0xE0 \<le> b \<and> b \<le> 0xEF then
        (case bs of c # d # r \<Rightarrow>
            cont_byte c \<and> (b = 0xE0 \<longrightarrow> 0xA0 \<le> c) \<and> (b = 0xED \<longrightarrow> c \<le> 0x9F) \<and> cont_byte d \<and> utf8_valid r
          | _ \<Rightarrow> False)
      else if 0xF0 \<le> b \<and> b \<le> 0xF4 then
        (case bs of c # d # e # r \<Rightarrow>
            cont_byte c \<and> (b = 0xF0 \<longrightarrow> 0x90 \<le> c) \<and> (b = 0xF4 \<longrightarrow> c \<le> 0x8F)
            \<and> cont_byte d \<and> cont_byte e \<and> utf8_valid r
          | _ \<Rightarrow> False)
      else False)"

text \<open>\<open>u32::to_be_bytes\<close> of a length below \<open>2 ^ 32\<close>.\<close>

definition be32 :: "nat \<Rightarrow> bytes" where
  "be32 n = map (\<lambda>k. word_of_nat (n div 256 ^ k)) [3, 2, 1, 0]"

section \<open>Signed 64-bit saturation\<close>

definition i64_min :: int where "i64_min = - (2 ^ 63)"
definition i64_max :: int where "i64_max = 2 ^ 63 - 1"

definition saturating_sub :: "int \<Rightarrow> int \<Rightarrow> int" where
  "saturating_sub a b = max i64_min (min i64_max (a - b))"

section \<open>Bounded lists\<close>

text \<open>Dropping from the front until at most \<open>n\<close> elements remain: the
  \<open>drain(..len - n)\<close> of a bounded ring.\<close>

definition keep_last :: "nat \<Rightarrow> 'a list \<Rightarrow> 'a list" where
  "keep_last n xs = drop (length xs - n) xs"

section \<open>Results and formatting\<close>

text \<open>\<open>Result<T, E>\<close> is \<open>'e + 'a\<close> with \<open>Inl\<close> the error; \<open>and_then\<close> is the
  \<open>?\<close> operator, \<open>map_err\<close> converts the error on the way out.\<close>

definition and_then :: "'e + 'a \<Rightarrow> ('a \<Rightarrow> 'e + 'b) \<Rightarrow> 'e + 'b" where
  "and_then r f = (case r of Inl e \<Rightarrow> Inl e | Inr a \<Rightarrow> f a)"

definition map_err :: "('e \<Rightarrow> 'd) \<Rightarrow> 'e + 'a \<Rightarrow> 'd + 'a" where
  "map_err g r = (case r of Inl e \<Rightarrow> Inl (g e) | Inr a \<Rightarrow> Inr a)"

definition is_ok :: "'e + 'a \<Rightarrow> bool" where
  "is_ok r = (case r of Inl _ \<Rightarrow> False | Inr _ \<Rightarrow> True)"

text \<open>Decimal \<open>Display\<close> of an unsigned integer.\<close>

fun show_nat :: "nat \<Rightarrow> string" where
  "show_nat n =
     (if n < 10 then [char_of (48 + n)] else show_nat (n div 10) @ [char_of (48 + n mod 10)])"

declare show_nat.simps [simp del]

section \<open>Facts\<close>

lemma and_then_simps [simp]: "and_then (Inl e) f = Inl e" "and_then (Inr a) f = f a"
  by (simp_all add: and_then_def)

lemma and_then_eq_Inr:
  "and_then r f = Inr b \<longleftrightarrow> (\<exists>a. r = Inr a \<and> f a = Inr b)"
  by (cases r) simp_all

lemma map_err_simps [simp]: "map_err g (Inl e) = Inl (g e)" "map_err g (Inr a) = Inr a"
  by (simp_all add: map_err_def)

lemma map_err_eq_Inr [simp]: "map_err g r = Inr a \<longleftrightarrow> r = Inr a"
  by (cases r) simp_all

lemma is_ok_simps [simp]: "\<not> is_ok (Inl e)" "is_ok (Inr a)"
  by (simp_all add: is_ok_def)

lemma is_ok_iff: "is_ok r \<longleftrightarrow> (\<exists>a. r = Inr a)"
  by (cases r) simp_all

lemma unat_byte_of [simp]: "unat (byte_of c) = of_char c"
proof -
  have "(of_char c :: nat) < 256" by simp
  then show ?thesis by (simp add: byte_of_def unat_of_nat)
qed

lemma char_of_byte_of [simp]: "char_of_byte (byte_of c) = c"
  by (simp add: char_of_byte_def)

lemma byte_of_char_of_byte [simp]: "byte_of (char_of_byte b) = b"
proof -
  have "unat b < 256" using unsigned_less [of b, where ?'a = nat] by simp
  then show ?thesis by (simp add: byte_of_def char_of_byte_def)
qed

lemma of_bytes_as_bytes [simp]: "of_bytes (as_bytes s) = s"
  by (induction s) (simp_all add: of_bytes_def as_bytes_def)

lemma as_bytes_of_bytes [simp]: "as_bytes (of_bytes bs) = bs"
  by (induction bs) (simp_all add: of_bytes_def as_bytes_def)

lemma length_as_bytes [simp]: "length (as_bytes s) = length s"
  by (simp add: as_bytes_def)

lemma length_of_bytes [simp]: "length (of_bytes bs) = length bs"
  by (simp add: of_bytes_def)

lemma as_bytes_inject [simp]: "as_bytes s = as_bytes t \<longleftrightarrow> s = t"
  by (metis of_bytes_as_bytes)

lemma as_bytes_append [simp]: "as_bytes (s @ t) = as_bytes s @ as_bytes t"
  by (simp add: as_bytes_def)

lemma set_as_bytes: "set (as_bytes s) = byte_of ` set s"
  by (simp add: as_bytes_def)

lemma is_lower_hex_length [hex_simps]: "is_lower_hex n s \<Longrightarrow> length s = n"
  by (simp add: is_lower_hex_def)

lemma is_lower_hex_append:
  "is_lower_hex m s \<Longrightarrow> is_lower_hex n t \<Longrightarrow> is_lower_hex (m + n) (s @ t)"
  by (simp add: is_lower_hex_def)

lemma lower_hex_char_nonzero: "is_lower_hex_char c \<Longrightarrow> byte_of c \<noteq> 0"
proof
  assume hex: "is_lower_hex_char c" and "byte_of c = 0"
  then have "c = char_of_byte 0" by (metis char_of_byte_of)
  with hex show False
    by (auto simp: is_lower_hex_char_def is_ascii_digit_def char_of_byte_def
        less_eq_char_def)
qed

lemma length_be32 [simp]: "length (be32 n) = 4"
  by (simp add: be32_def)

lemma byte_of_nat_eq: "(word_of_nat a :: byte) = word_of_nat b \<longleftrightarrow> a mod 256 = b mod 256"
  by (simp add: word_of_nat_eq_iff take_bit_eq_mod)

lemma div_mod_256_inject: "a div 256 = b div 256 \<Longrightarrow> a mod 256 = b mod 256 \<Longrightarrow> a = (b::nat)"
  by (metis div_mult_mod_eq)

lemma be32_inject:
  assumes "m < 2 ^ 32" and "n < 2 ^ 32" and "be32 m = be32 n"
  shows "m = n"
proof -
  have split: "x div 16777216 = x div 65536 div 256" "x div 65536 = x div 256 div 256" for x :: nat
    by (simp_all flip: div_mult2_eq)
  from assms(3) have d: "m div 16777216 mod 256 = n div 16777216 mod 256"
      "m div 65536 mod 256 = n div 65536 mod 256" "m div 256 mod 256 = n div 256 mod 256"
      "m mod 256 = n mod 256"
    by (simp_all add: be32_def byte_of_nat_eq)
  have "m div 16777216 < 256" "n div 16777216 < 256" using assms(1,2) by auto
  with d(1) have "m div 65536 div 256 = n div 65536 div 256"
    unfolding split(1) [symmetric] by simp
  then have "m div 65536 = n div 65536" using d(2) by (rule div_mod_256_inject)
  then have "m div 256 div 256 = n div 256 div 256" unfolding split(2) [symmetric] .
  then have "m div 256 = n div 256" using d(3) by (rule div_mod_256_inject)
  then show ?thesis using d(4) by (rule div_mod_256_inject)
qed

lemma length_keep_last [simp]: "length (keep_last n xs) = min n (length xs)"
  by (simp add: keep_last_def)

lemma set_keep_last: "set (keep_last n xs) \<subseteq> set xs"
  by (simp add: keep_last_def set_drop_subset)

lemma distinct_keep_last: "distinct xs \<Longrightarrow> distinct (keep_last n xs)"
  by (simp add: keep_last_def)

lemma keep_last_all [simp]: "length xs \<le> n \<Longrightarrow> keep_last n xs = xs"
  by (simp add: keep_last_def)

lemma keep_last_snoc [simp]:
  "0 < n \<Longrightarrow> keep_last n (xs @ [x]) = keep_last (n - 1) xs @ [x]"
  by (simp add: keep_last_def)

lemma map_of_update [alist_simps]: "map_of (AList.update k v al) = (map_of al)(k \<mapsto> v)"
  by (rule update_conv')

lemma map_of_delete [alist_simps]: "map_of (AList.delete k al) = (map_of al)(k := None)"
  by (rule delete_conv')

lemma length_update [alist_simps]:
  "length (AList.update k v al) = (if k \<in> fst ` set al then length al else Suc (length al))"
  by (induction al) auto

lemma map_of_eq_None_notin [alist_simps]: "map_of al k = None \<longleftrightarrow> k \<notin> fst ` set al"
  by (rule map_of_eq_None_iff)

lemma distinct_fst_filter: "distinct (map fst al) \<Longrightarrow> distinct (map fst (filter P al))"
  by (induction al) auto

lemma map_of_filter:
  assumes "distinct (map fst al)"
  shows "map_of (filter P al) k = (case map_of al k of None \<Rightarrow> None
                                   | Some v \<Rightarrow> if P (k, v) then Some v else None)"
  using assms
proof (induction al)
  case Nil
  then show ?case by simp
next
  case (Cons a al)
  obtain j w where a: "a = (j, w)" by (cases a)
  from Cons.prems a have "map_of al j = None" by (simp add: map_of_eq_None_iff)
  with Cons a show ?case by auto
qed

lemma saturating_sub_le_iff:
  "i64_min \<le> c \<Longrightarrow> c < i64_max \<Longrightarrow> saturating_sub a b \<le> c \<longleftrightarrow> a - b \<le> c"
  by (auto simp: saturating_sub_def i64_min_def i64_max_def)

end
