(* ===== verification/Durable.thy ===== *)
theory Durable
  imports Prelude
begin

text \<open>
  Atomic replacement of a file: write a temporary file, sync it, rename it over the target,
  sync the directory. Six routines of the sources follow this scheme (\<open>Identity::persist\<close>
  of crypto.rs, \<open>atomic_write\<close> of session.rs, pairing.rs and history.rs, \<open>persist\<close>
  of registry.rs and \<open>write_snapshot\<close> of mailbox.rs); they differ in whether the temporary
  file must be new, whether the directory is synced, and whether a guard removes the temporary
  file on failure. The file system is a map from paths to contents, and a \<open>write_step\<close>
  names the step at which the operating system reports an error; a failing \<open>write_all\<close>
  leaves a prefix of the data.

  The component theories keep a typed document instead of bytes and use \<open>write_outcome\<close>,
  the three things that can happen to the target; \<open>atomic_write_outcome\<close> shows that these
  three are exactly what the byte-level routine produces.
\<close>

type_synonym fs = "string \<rightharpoonup> bytes"

record write_style =
  ws_create_new :: bool
  ws_dir_sync :: bool
  ws_cleanup :: bool

datatype write_step = At_open | At_write nat | At_sync | At_rename | At_dir_sync

definition drop_guard :: "write_style \<Rightarrow> string \<Rightarrow> fs \<Rightarrow> fs" where
  "drop_guard st tmp f = (if ws_cleanup st then f(tmp := None) else f)"

definition atomic_write ::
  "write_style \<Rightarrow> write_step option \<Rightarrow> string \<Rightarrow> string \<Rightarrow> bytes \<Rightarrow> fs \<Rightarrow> bool \<times> fs" where
  "atomic_write st fault tmp target data f =
     (if fault = Some At_open \<or> (ws_create_new st \<and> f tmp \<noteq> None) then (False, f)
      else case fault of
        Some (At_write n) \<Rightarrow> (False, drop_guard st tmp (f(tmp \<mapsto> take n data)))
      | Some At_sync \<Rightarrow> (False, drop_guard st tmp (f(tmp \<mapsto> data)))
      | Some At_rename \<Rightarrow> (False, drop_guard st tmp (f(tmp \<mapsto> data)))
      | Some At_dir_sync \<Rightarrow> (\<not> ws_dir_sync st, f(tmp := None, target \<mapsto> data))
      | _ \<Rightarrow> (True, f(tmp := None, target \<mapsto> data)))"

text \<open>The styles of the routines.\<close>

definition guarded_style :: write_style where
  \<comment> \<open>crypto.rs, session.rs, pairing.rs: \<open>create_new\<close>, a drop guard, and a directory sync\<close>
  "guarded_style = \<lparr>ws_create_new = True, ws_dir_sync = True, ws_cleanup = True\<rparr>"

definition relay_style :: write_style where
  \<comment> \<open>registry.rs, mailbox.rs: truncate a fixed temporary name and sync the directory\<close>
  "relay_style = \<lparr>ws_create_new = False, ws_dir_sync = True, ws_cleanup = False\<rparr>"

definition history_style :: write_style where
  \<comment> \<open>history.rs: no directory sync and no guard\<close>
  "history_style = \<lparr>ws_create_new = False, ws_dir_sync = False, ws_cleanup = False\<rparr>"

section \<open>Outcomes\<close>

datatype write_outcome = Written | Failed_before | Failed_after

definition write_ok :: "write_outcome \<Rightarrow> bool" where
  "write_ok w \<longleftrightarrow> w = Written"

definition after_write :: "write_outcome \<Rightarrow> 'd \<Rightarrow> 'd \<Rightarrow> 'd" where
  "after_write w old new = (if w = Failed_before then old else new)"

definition write_outcome_of :: "write_style \<Rightarrow> write_step option \<Rightarrow> bool \<Rightarrow> write_outcome" where
  "write_outcome_of st fault tmp_exists =
     (if ws_create_new st \<and> tmp_exists then Failed_before
      else case fault of
        None \<Rightarrow> Written
      | Some At_dir_sync \<Rightarrow> (if ws_dir_sync st then Failed_after else Written)
      | Some _ \<Rightarrow> Failed_before)"

section \<open>Facts\<close>

lemma after_write_simps [simp]:
  "after_write Written old new = new" "after_write Failed_before old new = old"
  "after_write Failed_after old new = new"
  by (simp_all add: after_write_def)

lemma after_write_cases: "after_write w old new = old \<or> after_write w old new = new"
  by (simp add: after_write_def)

lemma write_ok_simps [simp]:
  "write_ok Written" "\<not> write_ok Failed_before" "\<not> write_ok Failed_after"
  by (simp_all add: write_ok_def)

lemma write_ok_after_write [simp]: "write_ok w \<Longrightarrow> after_write w old new = new"
  by (simp add: write_ok_def)

lemma not_write_ok: "\<not> write_ok w \<longleftrightarrow> w = Failed_before \<or> w = Failed_after"
  by (cases w) simp_all

lemmas atomic_write_unfold = atomic_write_def write_outcome_of_def drop_guard_def

text \<open>The target of the byte-level routine changes exactly as \<open>write_outcome\<close> says.\<close>

lemma atomic_write_outcome:
  assumes "tmp \<noteq> target" and "atomic_write st fault tmp target data f = (ok, f')"
    and "w = write_outcome_of st fault (f tmp \<noteq> None)"
  shows "ok = write_ok w" and "f' target = after_write w (f target) (Some data)"
  using assms
  by (auto simp: atomic_write_unfold split: option.splits write_step.splits if_splits)

lemma atomic_write_frame:
  assumes "atomic_write st fault tmp target data f = (ok, f')" and "p \<noteq> tmp" and "p \<noteq> target"
  shows "f' p = f p"
  using assms by (auto simp: atomic_write_unfold split: option.splits write_step.splits if_splits)

lemma atomic_write_no_temp:
  assumes "atomic_write st fault tmp target data f = (ok, f')" and "ws_cleanup st"
    and "tmp \<noteq> target" and "f tmp = None"
  shows "f' tmp = None"
  using assms by (auto simp: atomic_write_unfold split: option.splits write_step.splits if_splits)

end
