(* ===== verification/Externals.thy ===== *)
theory Externals
  imports Prelude
begin

text \<open>
  The third-party crates the sources call are parameters of the model: a record of functions
  that every definition using one of them takes as its argument \<open>X\<close>. The laws below name
  what the crates document; a theorem that relies on one states it as a hypothesis. Nothing is
  assumed about collision resistance or secrecy.

  The last section gives a concrete instance on which the laws hold, used by the witnesses: its
  base64 is the standard padded alphabet, its digests and ciphers are simple stand-ins of the
  documented shape.
\<close>

record crates =
  b64_encode :: "bytes \<Rightarrow> string"                        \<comment> \<open>base64 STANDARD engine\<close>
  b64_decode :: "string \<Rightarrow> string + bytes"
  sha256 :: "bytes \<Rightarrow> bytes"
  uuid_to_string :: "uuid \<Rightarrow> string"
  uuid_parse :: "string \<Rightarrow> uuid option"
  aead_encrypt :: "bytes \<Rightarrow> bytes \<Rightarrow> bytes \<Rightarrow> bytes \<Rightarrow> bytes option"  \<comment> \<open>key, nonce, aad, message\<close>
  aead_decrypt :: "bytes \<Rightarrow> bytes \<Rightarrow> bytes \<Rightarrow> bytes \<Rightarrow> bytes option"
  hkdf_expand :: "bytes \<Rightarrow> bytes \<Rightarrow> bytes option"       \<comment> \<open>input key material, info; 32 bytes out\<close>
  x25519_public :: "bytes \<Rightarrow> bytes"
  x25519_dh :: "bytes \<Rightarrow> bytes \<Rightarrow> bytes"
  x25519_contributory :: "bytes \<Rightarrow> bool"
  ed25519_public :: "bytes \<Rightarrow> bytes"
  ed25519_sign :: "bytes \<Rightarrow> bytes \<Rightarrow> bytes"
  ed25519_key_ok :: "bytes \<Rightarrow> bool"
  ed25519_verify_strict :: "bytes \<Rightarrow> bytes \<Rightarrow> bytes \<Rightarrow> bool"

text \<open>serde\_json for one type: \<open>to_json\<close> is the serializer the call site uses (compact or
  pretty), \<open>from_json\<close> the parser, with the error text on the left.\<close>

record 'a json =
  to_json :: "'a \<Rightarrow> string + bytes"
  from_json :: "bytes \<Rightarrow> string + 'a"

section \<open>Documented laws\<close>

definition b64_law :: "crates \<Rightarrow> bool" where
  "b64_law X \<longleftrightarrow> (\<forall>bs. b64_decode X (b64_encode X bs) = Inr bs)"

definition sha256_law :: "crates \<Rightarrow> bool" where
  "sha256_law X \<longleftrightarrow> (\<forall>bs. length (sha256 X bs) = 32)"

definition uuid_law :: "crates \<Rightarrow> bool" where
  "uuid_law X \<longleftrightarrow> (\<forall>u. uuid_parse X (uuid_to_string X u) = Some u)"

definition aead_law :: "crates \<Rightarrow> bool" where
  "aead_law X \<longleftrightarrow> (\<forall>k n a m c. aead_encrypt X k n a m = Some c \<longrightarrow> aead_decrypt X k n a c = Some m)"

definition dh_law :: "crates \<Rightarrow> bool" where
  "dh_law X \<longleftrightarrow> (\<forall>a b. x25519_dh X a (x25519_public X b) = x25519_dh X b (x25519_public X a))"

definition signature_law :: "crates \<Rightarrow> bool" where
  "signature_law X \<longleftrightarrow>
     (\<forall>sk m. ed25519_key_ok X (ed25519_public X sk)
           \<and> ed25519_verify_strict X (ed25519_public X sk) m (ed25519_sign X sk m)
           \<and> length (ed25519_sign X sk m) = 64)"

definition key_size_law :: "crates \<Rightarrow> bool" where
  "key_size_law X \<longleftrightarrow>
     (\<forall>sk. length (ed25519_public X sk) = 32 \<and> length (x25519_public X sk) = 32)"

text \<open>Parsing what was printed; the trailing newline the codec appends is white space to a
  JSON parser.\<close>

definition json_law :: "'a json \<Rightarrow> bool" where
  "json_law J \<longleftrightarrow> (\<forall>v bs. to_json J v = Inr bs \<longrightarrow>
      from_json J bs = Inr v \<and> from_json J (bs @ [10]) = Inr v)"

lemma b64_lawD [simp]: "b64_law X \<Longrightarrow> b64_decode X (b64_encode X bs) = Inr bs"
  by (simp add: b64_law_def)

lemma b64_encode_inject:
  assumes "b64_law X" shows "b64_encode X a = b64_encode X b \<longleftrightarrow> a = b"
  using b64_lawD [OF assms] by (metis sum.inject(2))

lemma sha256_lawD [simp]: "sha256_law X \<Longrightarrow> length (sha256 X bs) = 32"
  by (simp add: sha256_law_def)

lemma uuid_lawD [simp]: "uuid_law X \<Longrightarrow> uuid_parse X (uuid_to_string X u) = Some u"
  by (simp add: uuid_law_def)

lemma uuid_to_string_inject:
  assumes "uuid_law X" shows "uuid_to_string X u = uuid_to_string X v \<longleftrightarrow> u = v"
  using uuid_lawD [OF assms] by (metis option.inject)

section \<open>Standard base64\<close>

definition b64_char :: "nat \<Rightarrow> char" where
  "b64_char n = ''ABCDEFGHIJKLMNOPQRSTUVWXYZabcdefghijklmnopqrstuvwxyz0123456789+/'' ! n"

definition b64_value :: "char \<Rightarrow> nat option" where
  "b64_value c =
     (if CHR ''A'' \<le> c \<and> c \<le> CHR ''Z'' then Some (of_char c - 65)
      else if CHR ''a'' \<le> c \<and> c \<le> CHR ''z'' then Some (of_char c - 71)
      else if CHR ''0'' \<le> c \<and> c \<le> CHR ''9'' then Some (of_char c + 4)
      else if c = CHR ''+'' then Some 62 else if c = CHR ''/'' then Some 63 else None)"

fun std_encode :: "bytes \<Rightarrow> string" where
  "std_encode [] = []"
| "std_encode [a] = [b64_char (unat a div 4), b64_char (unat a mod 4 * 16), CHR ''='', CHR ''='']"
| "std_encode [a, b] = [b64_char (unat a div 4), b64_char (unat a mod 4 * 16 + unat b div 16),
     b64_char (unat b mod 16 * 4), CHR ''='']"
| "std_encode (a # b # c # r) = [b64_char (unat a div 4),
     b64_char (unat a mod 4 * 16 + unat b div 16),
     b64_char (unat b mod 16 * 4 + unat c div 64), b64_char (unat c mod 64)] @ std_encode r"

fun std_decode :: "string \<Rightarrow> bytes option" where
  "std_decode [] = Some []"
| "std_decode (p # q # r # s # rest) =
     (case (b64_value p, b64_value q) of
        (Some i, Some j) \<Rightarrow>
          (if r = CHR ''='' \<and> s = CHR ''='' then
             (if rest = [] \<and> j mod 16 = 0 then Some [word_of_nat (i * 4 + j div 16)] else None)
           else case b64_value r of
             None \<Rightarrow> None
           | Some k \<Rightarrow>
               (if s = CHR ''='' then
                  (if rest = [] \<and> k mod 4 = 0
                   then Some [word_of_nat (i * 4 + j div 16), word_of_nat (j mod 16 * 16 + k div 4)]
                   else None)
                else case b64_value s of
                  None \<Rightarrow> None
                | Some l \<Rightarrow> map_option (\<lambda>t. word_of_nat (i * 4 + j div 16)
                      # word_of_nat (j mod 16 * 16 + k div 4) # word_of_nat (k mod 4 * 64 + l) # t)
                      (std_decode rest)))
      | _ \<Rightarrow> None)"
| "std_decode _ = None"

lemma b64_value_char [simp]: "n < 64 \<Longrightarrow> b64_value (b64_char n) = Some n"
proof -
  have "list_all (\<lambda>n. b64_value (b64_char n) = Some n) [0..<64]" by code_simp
  then show "n < 64 \<Longrightarrow> b64_value (b64_char n) = Some n" by (simp add: list_all_iff)
qed

lemma b64_char_not_pad [simp]: "n < 64 \<Longrightarrow> b64_char n \<noteq> CHR ''=''"
proof
  assume "n < 64" and "b64_char n = CHR ''=''"
  then have "b64_value (CHR ''='') = Some n" by (metis b64_value_char)
  then show False by (simp add: b64_value_def split: if_splits)
qed

lemma unat_byte_bound [simp]: "unat (b::byte) < 256"
  using unsigned_less [of b, where ?'a = nat] by simp

lemma unat_byte_div [simp]: "unat (b::byte) div 4 < 64" "unat b div 16 < 16" "unat b div 64 < 4"
  using unat_byte_bound [of b] by linarith+

lemma b64_index_bounds [simp]:
  "unat (a::byte) mod 4 * 16 < 64" "unat a mod 4 * 16 + unat (b::byte) div 16 < 64"
  "unat b mod 16 * 4 < 64" "unat b mod 16 * 4 + unat (c::byte) div 64 < 64" "unat c mod 64 < 64"
proof -
  have "unat a mod 4 \<le> 3" "unat b mod 16 \<le> 15" by simp_all
  then show "unat a mod 4 * 16 < 64" "unat a mod 4 * 16 + unat b div 16 < 64"
      "unat b mod 16 * 4 < 64" "unat b mod 16 * 4 + unat c div 64 < 64" "unat c mod 64 < 64"
    using unat_byte_div(2) [of b] unat_byte_div(3) [of c] by linarith+
qed

lemma std_decode_encode: "std_decode (std_encode bs) = Some bs"
  by (induction bs rule: std_encode.induct) simp_all

section \<open>Hyphenated UUID text\<close>

fun hex_digits :: "nat \<Rightarrow> nat \<Rightarrow> string" where
  "hex_digits 0 n = []"
| "hex_digits (Suc k) n = hex_digits k (n div 16) @ [''0123456789abcdef'' ! (n mod 16)]"

definition hex_value :: "char \<Rightarrow> nat" where
  "hex_value c = (if CHR ''a'' \<le> c then of_char c - 87 else of_char c - 48)"

definition hex_number :: "string \<Rightarrow> nat" where
  "hex_number s = foldl (\<lambda>n c. n * 16 + hex_value c) 0 s"

definition uuid_text :: "uuid \<Rightarrow> string" where
  "uuid_text u = (let h = hex_digits 32 (unat u) in
     take 8 h @ ''-'' @ take 4 (drop 8 h) @ ''-'' @ take 4 (drop 12 h) @ ''-''
     @ take 4 (drop 16 h) @ ''-'' @ drop 20 h)"

definition uuid_of_text :: "string \<Rightarrow> uuid option" where
  "uuid_of_text s = (if length s = 36
     then Some (word_of_nat (hex_number (filter (\<lambda>c. c \<noteq> CHR ''-'') s))) else None)"

lemma hex_value_digit: "n < 16 \<Longrightarrow>
    hex_value (''0123456789abcdef'' ! n) = n \<and> ''0123456789abcdef'' ! n \<noteq> CHR ''-''"
proof -
  have "list_all (\<lambda>n. hex_value (''0123456789abcdef'' ! n) = n
      \<and> ''0123456789abcdef'' ! n \<noteq> CHR ''-'') [0..<16]"
    by code_simp
  then show "n < 16 \<Longrightarrow> ?thesis" by (simp add: list_all_iff)
qed

lemma length_hex_digits [simp]: "length (hex_digits k n) = k"
  by (induction k n rule: hex_digits.induct) simp_all

lemma hex_digits_no_hyphen: "c \<in> set (hex_digits k n) \<Longrightarrow> c \<noteq> CHR ''-''"
  by (induction k n rule: hex_digits.induct) (auto dest: sym simp: hex_value_digit)

lemma hex_number_digits: "hex_number (hex_digits k n) = n mod 16 ^ k"
proof (induction k n rule: hex_digits.induct)
  case (2 k n)
  then have "hex_number (hex_digits (Suc k) n) = n div 16 mod 16 ^ k * 16 + n mod 16"
    by (simp add: hex_number_def hex_value_digit)
  also have "\<dots> = n mod (16 * 16 ^ k)" by (simp add: mod_mult2_eq)
  finally show ?case by simp
qed (simp add: hex_number_def)

lemma uuid_of_text_text: "uuid_of_text (uuid_text u) = Some u"
proof -
  define h where "h = hex_digits 32 (unat u)"
  have keep: "filter (\<lambda>c. c \<noteq> CHR ''-'') (take i (drop j h)) = take i (drop j h)" for i j
    by (auto simp: filter_id_conv h_def dest!: in_set_takeD in_set_dropD hex_digits_no_hyphen)
  have cut: "take i (drop j h) @ drop (i + j) h = drop j h" for i j
    by (metis append_take_drop_id drop_drop)
  have "filter (\<lambda>c. c \<noteq> CHR ''-'') (uuid_text u)
      = take 8 h @ take 4 (drop 8 h) @ take 4 (drop 12 h) @ take 4 (drop 16 h) @ drop 20 h"
    using keep [of 8 0] keep [of 4 8] keep [of 4 12] keep [of 4 16] keep [of 12 20]
    by (simp add: uuid_text_def Let_def h_def)
  also have "\<dots> = h"
    using cut [of 4 16] cut [of 4 12] cut [of 4 8] cut [of 8 0] by simp
  finally have "hex_number (filter (\<lambda>c. c \<noteq> CHR ''-'') (uuid_text u)) = unat u mod 16 ^ 32"
    by (simp only: h_def hex_number_digits)
  also have "\<dots> = unat u" using unsigned_less [of u, where ?'a = nat] by simp
  finally show ?thesis by (simp add: uuid_of_text_def uuid_text_def Let_def)
qed

section \<open>A concrete instance\<close>

definition pad_to :: "nat \<Rightarrow> bytes \<Rightarrow> bytes" where
  "pad_to n bs = take n (bs @ replicate n 0)"

definition demo_tag :: "bytes \<Rightarrow> bytes \<Rightarrow> bytes \<Rightarrow> bytes" where
  "demo_tag k n a = pad_to 16 (k @ n @ a)"

definition demo_crates :: crates where
  "demo_crates = \<lparr>
     b64_encode = std_encode,
     b64_decode = (\<lambda>s. case std_decode s of None \<Rightarrow> Inl ''Invalid padding'' | Some bs \<Rightarrow> Inr bs),
     sha256 = pad_to 32,
     uuid_to_string = uuid_text,
     uuid_parse = uuid_of_text,
     aead_encrypt = (\<lambda>k n a m. Some (demo_tag k n a @ m)),
     aead_decrypt = (\<lambda>k n a c. if take 16 c = demo_tag k n a then Some (drop 16 c) else None),
     hkdf_expand = (\<lambda>ikm info. Some (pad_to 32 (drop 80 info @ ikm))),
     x25519_public = pad_to 32,
     x25519_dh = (\<lambda>sk pk. map2 (+) (pad_to 32 sk) pk),
     x25519_contributory = (\<lambda>s. s \<noteq> replicate 32 0),
     ed25519_public = pad_to 32,
     ed25519_sign = (\<lambda>sk m. pad_to 64 (pad_to 32 sk @ drop 22 m)),
     ed25519_key_ok = (\<lambda>pk. length pk = 32),
     ed25519_verify_strict = (\<lambda>pk m s. s = pad_to 64 (pk @ drop 22 m))\<rparr>"

lemma length_pad_to [simp]: "length (pad_to n bs) = n"
  by (simp add: pad_to_def)

lemma map2_add_commute: "map2 (+) xs ys = map2 (+) ys (xs :: bytes)"
  by (induction xs ys rule: list_induct2') (simp_all add: add.commute)

lemma demo_laws [simp]:
  "b64_law demo_crates" "sha256_law demo_crates" "uuid_law demo_crates" "aead_law demo_crates"
  "dh_law demo_crates" "signature_law demo_crates" "key_size_law demo_crates"
  by (simp_all add: b64_law_def sha256_law_def uuid_law_def aead_law_def dh_law_def
      signature_law_def key_size_law_def demo_crates_def std_decode_encode uuid_of_text_text
      demo_tag_def map2_add_commute)

text \<open>A JSON codec for a finite list of values, each written as its position in unary.\<close>

definition table_json :: "'a list \<Rightarrow> 'a json" where
  "table_json vs = \<lparr>
     to_json = (\<lambda>v. if v \<in> set vs
        then Inr (replicate (length (takeWhile (\<lambda>u. u \<noteq> v) vs)) 1 @ [2]) else Inl ''unsupported''),
     from_json = (\<lambda>bs. let i = length (takeWhile (\<lambda>b. b = 1) bs) in
        if i < length vs then Inr (vs ! i) else Inl ''expected value'')\<rparr>"

lemma table_json_law [simp]: "json_law (table_json vs)"
proof -
  have pos: "length (takeWhile (\<lambda>b. b = (1::byte)) (replicate i 1 @ 2 # r)) = i" for i r
    by (induction i) simp_all
  have at: "v \<in> set vs \<Longrightarrow> length (takeWhile (\<lambda>u. u \<noteq> v) vs) < length vs
      \<and> vs ! length (takeWhile (\<lambda>u. u \<noteq> v) vs) = v" for v
    by (induction vs) auto
  show ?thesis using at by (auto simp: json_law_def table_json_def pos Let_def split: if_splits)
qed

end
