(* ===== verification/Protocol.thy ===== *)
theory Protocol
  imports Externals
begin

text \<open>
  The JSON protocol of crates/core/src/protocol.rs: public bundles and their base64 form, the
  frames and the envelope, field validation, the bounded codecs, and the connection-order table
  \<open>TRANSITIONS\<close> with \<open>validate_frame_order\<close>.

  The lemmas show: a bundle and a valid frame survive encoding and decoding; a decoded frame or
  envelope is always valid and within the size limit; the table built by
  \<open>build_transitions\<close> is the table of the module documentation; and an accepted run that
  reaches \<open>Live\<close> consumed exactly one bootstrap frame and no pairing frame after
  \<open>join\<close>.
\<close>

section \<open>Data\<close>

definition PROTOCOL_VERSION :: u32 where "PROTOCOL_VERSION = 1"
definition MAX_FRAME_BYTES :: nat where "MAX_FRAME_BYTES = 24 * 1024 * 1024"
definition MAX_MESSAGE_BYTES :: nat where "MAX_MESSAGE_BYTES = 24 * 1024 * 1024"
definition PUBLIC_KEY_LENGTH :: nat where "PUBLIC_KEY_LENGTH = 32"

record pub_bundle =
  sign_pk :: bytes
  dh_pk :: bytes

text \<open>The array types \<open>[u8; 32]\<close> of the two fields.\<close>

definition wf_bundle :: "pub_bundle \<Rightarrow> bool" where
  "wf_bundle b \<longleftrightarrow> length (sign_pk b) = PUBLIC_KEY_LENGTH \<and> length (dh_pk b) = PUBLIC_KEY_LENGTH"

record pub_bundle_json =
  sign_pk_b64 :: string
  dh_pk_b64 :: string

datatype frame =
    Hello string pub_bundle u32                \<comment> \<open>device\_id, pub\_bundle, version\<close>
  | HelloOk u32 string                         \<comment> \<open>server\_version, nonce\_b64\<close>
  | PairOffer string pub_bundle                \<comment> \<open>code, pub\_bundle\<close>
  | PairOfferOk
  | PairClaim string pub_bundle                \<comment> \<open>code, pub\_bundle\<close>
  | PairPeer pub_bundle                        \<comment> \<open>peer\_pub\_bundle\<close>
  | Join string string pub_bundle string       \<comment> \<open>room\_id, device\_id, pub\_bundle, sig\_b64\<close>
  | JoinOk
  | Clip string string string bool             \<comment> \<open>room\_id, ciphertext\_b64, origin\_device, mailbox\<close>
  | MailboxEmpty
  | Error string string                        \<comment> \<open>code, message\<close>

datatype content_kind = KText | KImage

record envelope =
  env_v :: u32
  env_kind :: content_kind
  env_item_id :: string
  env_seq :: u64
  env_ts_ms :: int
  env_content_b64 :: string

datatype connection_state = Connected | AwaitingHelloOk | Ready | AwaitingPairOfferOk
  | AwaitingPairPeer | ReadyToJoin | AwaitingJoinOk | Bootstrap | Live | Closed

datatype protocol_error =
    BadFrame string
  | Oversize nat nat             \<comment> \<open>size, limit\<close>
  | VersionMismatch u32 u32      \<comment> \<open>received, supported\<close>

section \<open>Errors as frames\<close>

fun error_to_string :: "protocol_error \<Rightarrow> string" where
  "error_to_string (BadFrame m) = ''bad_frame: '' @ m"
| "error_to_string (Oversize n limit) =
     ''payload is '' @ show_nat n @ '' bytes; limit is '' @ show_nat limit @ '' bytes''"
| "error_to_string (VersionMismatch r s) =
     ''unsupported protocol version '' @ show_nat (unat r) @ ''; expected '' @ show_nat (unat s)"

fun to_error_frame :: "protocol_error \<Rightarrow> frame" where
  "to_error_frame (BadFrame m) = Error ''bad_frame'' m"
| "to_error_frame (Oversize n limit) = Error ''bad_frame'' (error_to_string (Oversize n limit))"
| "to_error_frame (VersionMismatch r s) = Error ''version_mismatch''
     (''unsupported protocol version '' @ show_nat (unat r) @ ''; expected '' @ show_nat (unat s))"

section \<open>Bundles\<close>

definition bundle_bytes :: "pub_bundle \<Rightarrow> bytes" where
  "bundle_bytes b = sign_pk b @ dh_pk b"

definition serialize_bundle :: "crates \<Rightarrow> pub_bundle \<Rightarrow> pub_bundle_json" where
  "serialize_bundle X b =
     \<lparr>sign_pk_b64 = b64_encode X (sign_pk b), dh_pk_b64 = b64_encode X (dh_pk b)\<rparr>"

definition decode_public_key :: "crates \<Rightarrow> string \<Rightarrow> string + bytes" where
  "decode_public_key X value =
     and_then (b64_decode X value) (\<lambda>decoded.
       if b64_encode X decoded \<noteq> value
       then Inl ''public key must use canonical padded STANDARD base64''
       else if length decoded = PUBLIC_KEY_LENGTH then Inr decoded
       else Inl (''public key must decode to 32 bytes, got '' @ show_nat (length decoded)))"

definition deserialize_bundle :: "crates \<Rightarrow> pub_bundle_json \<Rightarrow> string + pub_bundle" where
  "deserialize_bundle X e =
     and_then (decode_public_key X (sign_pk_b64 e)) (\<lambda>s.
     and_then (decode_public_key X (dh_pk_b64 e)) (\<lambda>d. Inr \<lparr>sign_pk = s, dh_pk = d\<rparr>))"

section \<open>Validation\<close>

definition validate_lower_hex :: "string \<Rightarrow> nat \<Rightarrow> string \<Rightarrow> protocol_error + unit" where
  "validate_lower_hex value len name =
     (if is_lower_hex len value then Inr ()
      else Inl (BadFrame (name @ '' must be '' @ show_nat len @ '' lowercase hex characters'')))"

definition validate_device_id :: "string \<Rightarrow> protocol_error + unit" where
  "validate_device_id d = validate_lower_hex d 16 ''device_id''"

definition validate_room_id :: "string \<Rightarrow> protocol_error + unit" where
  "validate_room_id r = validate_lower_hex r 32 ''room_id''"

definition validate_version :: "u32 \<Rightarrow> protocol_error + unit" where
  "validate_version v =
     (if v = PROTOCOL_VERSION then Inr () else Inl (VersionMismatch v PROTOCOL_VERSION))"

definition validate_base64 :: "crates \<Rightarrow> string \<Rightarrow> string \<Rightarrow> protocol_error + unit" where
  "validate_base64 X name value =
     and_then (map_err (\<lambda>e. BadFrame (name @ '' must be padded STANDARD base64: '' @ e))
                 (b64_decode X value)) (\<lambda>decoded.
       if b64_encode X decoded = value then Inr ()
       else Inl (BadFrame (name @ '' must be canonical padded STANDARD base64'')))"

definition is_ascii_hexdigit :: "char \<Rightarrow> bool" where
  "is_ascii_hexdigit c \<longleftrightarrow> is_ascii_digit c
     \<or> (CHR ''a'' \<le> c \<and> c \<le> CHR ''f'') \<or> (CHR ''A'' \<le> c \<and> c \<le> CHR ''F'')"

definition is_uuid_v4 :: "string \<Rightarrow> bool" where
  "is_uuid_v4 s \<longleftrightarrow> length s = 36
     \<and> s ! 8 = CHR ''-'' \<and> s ! 13 = CHR ''-'' \<and> s ! 14 = CHR ''4''
     \<and> s ! 18 = CHR ''-'' \<and> s ! 23 = CHR ''-''
     \<and> List.member [CHR ''8'', CHR ''9'', CHR ''a'', CHR ''b'', CHR ''A'', CHR ''B''] (s ! 19)
     \<and> list_all (\<lambda>(i, c). List.member [8, 13, 18, 23] i \<or> is_ascii_hexdigit c) (enumerate 0 s)"

fun validate_frame :: "crates \<Rightarrow> frame \<Rightarrow> protocol_error + unit" where
  "validate_frame X (Hello device_id _ version) =
     and_then (validate_device_id device_id) (\<lambda>_. validate_version version)"
| "validate_frame X (HelloOk server_version nonce_b64) =
     and_then (validate_version server_version) (\<lambda>_. validate_base64 X ''nonce_b64'' nonce_b64)"
| "validate_frame X (Join room_id device_id _ sig_b64) =
     and_then (validate_room_id room_id) (\<lambda>_.
     and_then (validate_device_id device_id) (\<lambda>_. validate_base64 X ''sig_b64'' sig_b64))"
| "validate_frame X (Clip room_id ciphertext_b64 _ _) =
     and_then (validate_room_id room_id)
       (\<lambda>_. validate_base64 X ''ciphertext_b64'' ciphertext_b64)"
| "validate_frame X _ = Inr ()"

definition validate_envelope :: "crates \<Rightarrow> envelope \<Rightarrow> protocol_error + unit" where
  "validate_envelope X e =
     and_then (validate_version (env_v e)) (\<lambda>_.
       if \<not> is_uuid_v4 (env_item_id e) then Inl (BadFrame ''item_id must be a UUID v4'')
       else validate_base64 X ''content_b64'' (env_content_b64 e))"

section \<open>Bounded codecs\<close>

definition bad_json :: "string \<Rightarrow> protocol_error" where
  "bad_json e = BadFrame (''invalid JSON: '' @ e)"

definition ensure_size :: "nat \<Rightarrow> nat \<Rightarrow> protocol_error + unit" where
  "ensure_size n limit = (if n \<le> limit then Inr () else Inl (Oversize n limit))"

definition encode_json :: "'a json \<Rightarrow> 'a \<Rightarrow> nat \<Rightarrow> protocol_error + bytes" where
  "encode_json J value limit =
     and_then (map_err bad_json (to_json J value)) (\<lambda>enc.
       let encoded = enc @ [10] in
       and_then (ensure_size (length encoded) limit) (\<lambda>_. Inr encoded))"

definition encode_frame :: "crates \<Rightarrow> frame json \<Rightarrow> frame \<Rightarrow> protocol_error + bytes" where
  "encode_frame X J f = and_then (validate_frame X f) (\<lambda>_. encode_json J f MAX_FRAME_BYTES)"

definition decode_frame :: "crates \<Rightarrow> frame json \<Rightarrow> bytes \<Rightarrow> protocol_error + frame" where
  "decode_frame X J encoded =
     and_then (ensure_size (length encoded) MAX_FRAME_BYTES) (\<lambda>_.
     and_then (map_err bad_json (from_json J encoded)) (\<lambda>f.
     and_then (validate_frame X f) (\<lambda>_. Inr f)))"

definition encode_envelope :: "crates \<Rightarrow> envelope json \<Rightarrow> envelope \<Rightarrow> protocol_error + bytes" where
  "encode_envelope X J e =
     and_then (validate_envelope X e) (\<lambda>_. encode_json J e MAX_MESSAGE_BYTES)"

definition decode_envelope :: "crates \<Rightarrow> envelope json \<Rightarrow> bytes \<Rightarrow> protocol_error + envelope" where
  "decode_envelope X J encoded =
     and_then (ensure_size (length encoded) MAX_MESSAGE_BYTES) (\<lambda>_.
     and_then (map_err bad_json (from_json J encoded)) (\<lambda>e.
     and_then (validate_envelope X e) (\<lambda>_. Inr e)))"

section \<open>Connection order\<close>

datatype frame_event = EvHello | EvHelloOk | EvPairOffer | EvPairOfferOk | EvPairClaim
  | EvPairPeer | EvJoin | EvJoinOk | EvMailboxClip | EvLiveClip | EvMailboxEmpty | EvError

fun type_name :: "frame \<Rightarrow> string" where
  "type_name (Hello _ _ _) = ''hello''"
| "type_name (HelloOk _ _) = ''hello_ok''"
| "type_name (PairOffer _ _) = ''pair_offer''"
| "type_name PairOfferOk = ''pair_offer_ok''"
| "type_name (PairClaim _ _) = ''pair_claim''"
| "type_name (PairPeer _) = ''pair_peer''"
| "type_name (Join _ _ _ _) = ''join''"
| "type_name JoinOk = ''join_ok''"
| "type_name (Clip _ _ _ _) = ''clip''"
| "type_name MailboxEmpty = ''mailbox_empty''"
| "type_name (Error _ _) = ''error''"

fun state_index :: "connection_state \<Rightarrow> nat" where
  "state_index Connected = 0"
| "state_index AwaitingHelloOk = 1"
| "state_index Ready = 2"
| "state_index AwaitingPairOfferOk = 3"
| "state_index AwaitingPairPeer = 4"
| "state_index ReadyToJoin = 5"
| "state_index AwaitingJoinOk = 6"
| "state_index Bootstrap = 7"
| "state_index Live = 8"
| "state_index Closed = 9"

fun state_name :: "connection_state \<Rightarrow> string" where
  "state_name Connected = ''Connected''"
| "state_name AwaitingHelloOk = ''AwaitingHelloOk''"
| "state_name Ready = ''Ready''"
| "state_name AwaitingPairOfferOk = ''AwaitingPairOfferOk''"
| "state_name AwaitingPairPeer = ''AwaitingPairPeer''"
| "state_name ReadyToJoin = ''ReadyToJoin''"
| "state_name AwaitingJoinOk = ''AwaitingJoinOk''"
| "state_name Bootstrap = ''Bootstrap''"
| "state_name Live = ''Live''"
| "state_name Closed = ''Closed''"

fun from_frame :: "frame \<Rightarrow> frame_event" where
  "from_frame (Hello _ _ _) = EvHello"
| "from_frame (HelloOk _ _) = EvHelloOk"
| "from_frame (PairOffer _ _) = EvPairOffer"
| "from_frame PairOfferOk = EvPairOfferOk"
| "from_frame (PairClaim _ _) = EvPairClaim"
| "from_frame (PairPeer _) = EvPairPeer"
| "from_frame (Join _ _ _ _) = EvJoin"
| "from_frame JoinOk = EvJoinOk"
| "from_frame (Clip _ _ _ True) = EvMailboxClip"
| "from_frame (Clip _ _ _ False) = EvLiveClip"
| "from_frame MailboxEmpty = EvMailboxEmpty"
| "from_frame (Error _ _) = EvError"

fun event_index :: "frame_event \<Rightarrow> nat" where
  "event_index EvHello = 0"
| "event_index EvHelloOk = 1"
| "event_index EvPairOffer = 2"
| "event_index EvPairOfferOk = 3"
| "event_index EvPairClaim = 4"
| "event_index EvPairPeer = 5"
| "event_index EvJoin = 6"
| "event_index EvJoinOk = 7"
| "event_index EvMailboxClip = 8"
| "event_index EvLiveClip = 9"
| "event_index EvMailboxEmpty = 10"
| "event_index EvError = 11"

type_synonym transition_table = "connection_state option list list"

definition set_transition ::
  "nat \<Rightarrow> nat \<Rightarrow> connection_state \<Rightarrow> transition_table \<Rightarrow> transition_table" where
  "set_transition i j next t = t[i := (t ! i)[j := Some next]]"

text \<open>The \<open>while active_state < Closed.index()\<close> loop.\<close>

function close_active :: "nat \<Rightarrow> transition_table \<Rightarrow> transition_table" where
  "close_active i t =
     (if i < state_index Closed
      then close_active (Suc i) (set_transition i (event_index EvError) Closed t) else t)"
  by pat_completeness auto
termination
  by (relation "measure (\<lambda>(i, t). state_index Closed - i)") auto

declare close_active.simps [simp del]

definition build_transitions :: transition_table where
  "build_transitions =
     (let put = (\<lambda>s e n. set_transition (state_index s) (event_index e) n);
          t = replicate 10 (replicate 12 None);
          t = put Connected EvHello AwaitingHelloOk t;
          t = put AwaitingHelloOk EvHelloOk Ready t;
          t = put Ready EvPairOffer AwaitingPairOfferOk t;
          t = put Ready EvPairClaim AwaitingPairPeer t;
          t = put Ready EvJoin AwaitingJoinOk t;
          t = put AwaitingPairOfferOk EvPairOfferOk AwaitingPairPeer t;
          t = put AwaitingPairPeer EvPairPeer ReadyToJoin t;
          t = put ReadyToJoin EvJoin AwaitingJoinOk t;
          t = put AwaitingJoinOk EvJoinOk Bootstrap t;
          t = put Bootstrap EvMailboxClip Live t;
          t = put Bootstrap EvMailboxEmpty Live t;
          t = put Live EvLiveClip Live t
      in close_active 0 t)"

definition TRANSITIONS :: transition_table where
  "TRANSITIONS = build_transitions"

definition validate_frame_order ::
  "crates \<Rightarrow> connection_state \<Rightarrow> frame \<Rightarrow> protocol_error + connection_state" where
  "validate_frame_order X state f =
     and_then (validate_frame X f) (\<lambda>_.
       case TRANSITIONS ! state_index state ! event_index (from_frame f) of
         Some next_state \<Rightarrow> Inr next_state
       | None \<Rightarrow> Inl (BadFrame (''frame '' @ type_name f @ '' is illegal in state ''
                                @ state_name state)))"

text \<open>Applying \<open>validate_frame_order\<close> to a sequence of frames, stopping at the first
  error.\<close>

fun validate_run ::
  "crates \<Rightarrow> connection_state \<Rightarrow> frame list \<Rightarrow> protocol_error + connection_state" where
  "validate_run X state [] = Inr state"
| "validate_run X state (f # fs) =
     and_then (validate_frame_order X state f) (\<lambda>next. validate_run X next fs)"

section \<open>The documented order\<close>

text \<open>The state table of the module documentation: its rows, and "an \<open>error\<close> frame closes
  any active state".\<close>

definition documented_step :: "connection_state \<Rightarrow> frame_event \<Rightarrow> connection_state option" where
  "documented_step s e =
     (if e = EvError then (if s = Closed then None else Some Closed)
      else case s of
        Connected \<Rightarrow> if e = EvHello then Some AwaitingHelloOk else None
      | AwaitingHelloOk \<Rightarrow> if e = EvHelloOk then Some Ready else None
      | Ready \<Rightarrow> if e = EvPairOffer then Some AwaitingPairOfferOk
                 else if e = EvPairClaim then Some AwaitingPairPeer
                 else if e = EvJoin then Some AwaitingJoinOk else None
      | AwaitingPairOfferOk \<Rightarrow> if e = EvPairOfferOk then Some AwaitingPairPeer else None
      | AwaitingPairPeer \<Rightarrow> if e = EvPairPeer then Some ReadyToJoin else None
      | ReadyToJoin \<Rightarrow> if e = EvJoin then Some AwaitingJoinOk else None
      | AwaitingJoinOk \<Rightarrow> if e = EvJoinOk then Some Bootstrap else None
      | Bootstrap \<Rightarrow> if e = EvMailboxClip \<or> e = EvMailboxEmpty then Some Live else None
      | Live \<Rightarrow> if e = EvLiveClip then Some Live else None
      | Closed \<Rightarrow> None)"

text \<open>The event sequences by which each state is reached from \<open>Connected\<close>.\<close>

definition before_join :: "frame_event list \<Rightarrow> bool" where
  "before_join h \<longleftrightarrow> h = [EvHello, EvHelloOk]
     \<or> h = [EvHello, EvHelloOk, EvPairOffer, EvPairOfferOk, EvPairPeer]
     \<or> h = [EvHello, EvHelloOk, EvPairClaim, EvPairPeer]"

definition is_bootstrap :: "frame_event \<Rightarrow> bool" where
  "is_bootstrap e \<longleftrightarrow> e = EvMailboxClip \<or> e = EvMailboxEmpty"

fun history_of :: "connection_state \<Rightarrow> frame_event list \<Rightarrow> bool" where
  "history_of Connected es \<longleftrightarrow> es = []"
| "history_of AwaitingHelloOk es \<longleftrightarrow> es = [EvHello]"
| "history_of Ready es \<longleftrightarrow> es = [EvHello, EvHelloOk]"
| "history_of AwaitingPairOfferOk es \<longleftrightarrow> es = [EvHello, EvHelloOk, EvPairOffer]"
| "history_of AwaitingPairPeer es \<longleftrightarrow>
     es = [EvHello, EvHelloOk, EvPairOffer, EvPairOfferOk] \<or> es = [EvHello, EvHelloOk, EvPairClaim]"
| "history_of ReadyToJoin es \<longleftrightarrow>
     es = [EvHello, EvHelloOk, EvPairOffer, EvPairOfferOk, EvPairPeer]
     \<or> es = [EvHello, EvHelloOk, EvPairClaim, EvPairPeer]"
| "history_of AwaitingJoinOk es \<longleftrightarrow> (\<exists>h. before_join h \<and> es = h @ [EvJoin])"
| "history_of Bootstrap es \<longleftrightarrow> (\<exists>h. before_join h \<and> es = h @ [EvJoin, EvJoinOk])"
| "history_of Live es \<longleftrightarrow> (\<exists>h b n. before_join h \<and> is_bootstrap b
     \<and> es = h @ [EvJoin, EvJoinOk, b] @ replicate n EvLiveClip)"
| "history_of Closed es \<longleftrightarrow> es \<noteq> [] \<and> last es = EvError"

section \<open>Facts\<close>

lemma decode_public_key_encode:
  "b64_law X \<Longrightarrow> length k = PUBLIC_KEY_LENGTH \<Longrightarrow> decode_public_key X (b64_encode X k) = Inr k"
  by (simp add: decode_public_key_def)

lemma decode_public_key_canonical:
  assumes "decode_public_key X v = Inr k"
  shows "v = b64_encode X k" and "length k = PUBLIC_KEY_LENGTH"
  using assms by (auto simp: decode_public_key_def and_then_def split: sum.splits if_splits)

lemma decode_public_key_iff:
  assumes "b64_law X"
  shows "decode_public_key X v = Inr k \<longleftrightarrow> v = b64_encode X k \<and> length k = PUBLIC_KEY_LENGTH"
  using decode_public_key_encode [OF assms] decode_public_key_canonical by blast

lemma bundle_codec_iff:
  assumes "b64_law X"
  shows "deserialize_bundle X e = Inr b \<longleftrightarrow> wf_bundle b \<and> e = serialize_bundle X b"
  using assms
  by (cases b; cases e)
     (auto simp: deserialize_bundle_def serialize_bundle_def and_then_eq_Inr wf_bundle_def
       decode_public_key_iff)

lemma length_bundle_bytes: "wf_bundle b \<Longrightarrow> length (bundle_bytes b) = 64"
  by (simp add: wf_bundle_def bundle_bytes_def PUBLIC_KEY_LENGTH_def)

lemma bundle_bytes_inject:
  "wf_bundle a \<Longrightarrow> wf_bundle b \<Longrightarrow> bundle_bytes a = bundle_bytes b \<longleftrightarrow> a = b"
  by (cases a; cases b) (auto simp: wf_bundle_def bundle_bytes_def)

lemma encode_json_eq_Inr:
  "encode_json J v limit = Inr bs \<longleftrightarrow>
     (\<exists>enc. to_json J v = Inr enc \<and> bs = enc @ [10] \<and> length bs \<le> limit)"
  by (cases "to_json J v") (auto simp: encode_json_def ensure_size_def Let_def and_then_def
      split: if_splits)

lemma ensure_size_eq_Inr [simp]: "ensure_size n limit = Inr u \<longleftrightarrow> n \<le> limit"
  by (simp add: ensure_size_def)

lemma decode_frame_eq_Inr:
  "decode_frame X J bs = Inr f \<longleftrightarrow>
     length bs \<le> MAX_FRAME_BYTES \<and> from_json J bs = Inr f \<and> validate_frame X f = Inr ()"
  by (auto simp: decode_frame_def and_then_eq_Inr)

lemma encode_frame_eq_Inr:
  "encode_frame X J f = Inr bs \<longleftrightarrow>
     validate_frame X f = Inr () \<and> (\<exists>enc. to_json J f = Inr enc \<and> bs = enc @ [10]
       \<and> length bs \<le> MAX_FRAME_BYTES)"
  by (auto simp: encode_frame_def and_then_eq_Inr encode_json_eq_Inr)

lemma decode_envelope_eq_Inr:
  "decode_envelope X J bs = Inr e \<longleftrightarrow>
     length bs \<le> MAX_MESSAGE_BYTES \<and> from_json J bs = Inr e \<and> validate_envelope X e = Inr ()"
  by (auto simp: decode_envelope_def and_then_eq_Inr)

lemma encode_envelope_eq_Inr:
  "encode_envelope X J e = Inr bs \<longleftrightarrow>
     validate_envelope X e = Inr () \<and> (\<exists>enc. to_json J e = Inr enc \<and> bs = enc @ [10]
       \<and> length bs \<le> MAX_MESSAGE_BYTES)"
  by (auto simp: encode_envelope_def and_then_eq_Inr encode_json_eq_Inr)

lemmas codec_simps =
  decode_frame_eq_Inr encode_frame_eq_Inr decode_envelope_eq_Inr encode_envelope_eq_Inr

lemma decode_encode_frame:
  "json_law J \<Longrightarrow> encode_frame X J f = Inr bs \<Longrightarrow> decode_frame X J bs = Inr f"
  by (auto simp: codec_simps json_law_def)

lemma decode_encode_envelope:
  "json_law J \<Longrightarrow> encode_envelope X J e = Inr bs \<Longrightarrow> decode_envelope X J bs = Inr e"
  by (auto simp: codec_simps json_law_def)

lemma validate_base64_iff:
  "b64_law X \<Longrightarrow> validate_base64 X name v = Inr () \<longleftrightarrow> (\<exists>bs. v = b64_encode X bs)"
  by (auto simp: validate_base64_def and_then_eq_Inr split: if_splits)

text \<open>The table.\<close>

lemma TRANSITIONS_table: "TRANSITIONS =
  (let n = None; x = Some Closed in
   [[Some AwaitingHelloOk, n, n, n, n, n, n, n, n, n, n, x],
    [n, Some Ready, n, n, n, n, n, n, n, n, n, x],
    [n, n, Some AwaitingPairOfferOk, n, Some AwaitingPairPeer, n, Some AwaitingJoinOk,
       n, n, n, n, x],
    [n, n, n, Some AwaitingPairPeer, n, n, n, n, n, n, n, x],
    [n, n, n, n, n, Some ReadyToJoin, n, n, n, n, n, x],
    [n, n, n, n, n, n, Some AwaitingJoinOk, n, n, n, n, x],
    [n, n, n, n, n, n, n, Some Bootstrap, n, n, n, x],
    [n, n, n, n, n, n, n, n, Some Live, n, Some Live, x],
    [n, n, n, n, n, n, n, n, n, Some Live, n, x],
    [n, n, n, n, n, n, n, n, n, n, n, n]])"
  by code_simp

lemma TRANSITIONS_documented: "TRANSITIONS ! state_index s ! event_index e = documented_step s e"
  unfolding TRANSITIONS_table Let_def by (cases s; cases e; simp add: documented_step_def)

lemma validate_frame_order_step:
  "validate_frame_order X s f =
     and_then (validate_frame X f) (\<lambda>_. case documented_step s (from_frame f) of
        Some t \<Rightarrow> Inr t
      | None \<Rightarrow> Inl (BadFrame (''frame '' @ type_name f @ '' is illegal in state '' @ state_name s)))"
  by (simp add: validate_frame_order_def TRANSITIONS_documented)

lemma validate_frame_order_eq_Inr:
  "validate_frame_order X s f = Inr t \<longleftrightarrow>
     validate_frame X f = Inr () \<and> documented_step s (from_frame f) = Some t"
  by (auto simp: validate_frame_order_def and_then_eq_Inr TRANSITIONS_documented split: option.splits)

lemma validate_run_append:
  "validate_run X s (fs @ gs) = and_then (validate_run X s fs) (\<lambda>t. validate_run X t gs)"
proof (induction fs arbitrary: s)
  case (Cons f fs)
  then show ?case by (cases "validate_frame_order X s f") simp_all
qed simp

lemma history_extend_live:
  assumes "history_of Live es" shows "history_of Live (es @ [EvLiveClip])"
proof -
  from assms obtain h b n where "before_join h" "is_bootstrap b"
      and "es = h @ [EvJoin, EvJoinOk, b] @ replicate n EvLiveClip"
    by auto
  then show ?thesis
    by (auto simp: replicate_append_same intro!: exI [where x = h] exI [where x = "Suc n"])
qed

lemma history_enter_live:
  assumes "history_of Bootstrap es" and "is_bootstrap b" shows "history_of Live (es @ [b])"
  using assms by (auto intro!: exI [where x = "0::nat"])

lemma documented_step_cases:
  assumes "documented_step s e = Some t"
  shows "e = EvError \<and> t = Closed \<or> s = Live \<and> e = EvLiveClip \<and> t = Live
     \<or> s = Bootstrap \<and> is_bootstrap e \<and> t = Live
     \<or> s = AwaitingJoinOk \<and> e = EvJoinOk \<and> t = Bootstrap
     \<or> (s = Ready \<or> s = ReadyToJoin) \<and> e = EvJoin \<and> t = AwaitingJoinOk
     \<or> (s, e, t) \<in> {(Connected, EvHello, AwaitingHelloOk), (AwaitingHelloOk, EvHelloOk, Ready),
          (Ready, EvPairOffer, AwaitingPairOfferOk), (Ready, EvPairClaim, AwaitingPairPeer),
          (AwaitingPairOfferOk, EvPairOfferOk, AwaitingPairPeer),
          (AwaitingPairPeer, EvPairPeer, ReadyToJoin)}"
  using assms
  by (auto simp: documented_step_def is_bootstrap_def split: if_splits connection_state.splits)

lemma history_step:
  assumes "history_of s es" and "documented_step s e = Some t"
  shows "history_of t (es @ [e])"
  using documented_step_cases [OF assms(2)]
proof (elim disjE conjE)
  assume "s = Live" "e = EvLiveClip" "t = Live"
  with assms(1) show ?thesis using history_extend_live by blast
next
  assume "s = Bootstrap" "is_bootstrap e" "t = Live"
  with assms(1) show ?thesis using history_enter_live by blast
qed (use assms(1) in \<open>auto simp: before_join_def\<close>)

lemma validate_run_history:
  "validate_run X Connected fs = Inr s \<Longrightarrow> history_of s (map from_frame fs)"
proof (induction fs arbitrary: s rule: rev_induct)
  case (snoc f fs)
  then obtain t where t: "validate_run X Connected fs = Inr t"
      and "validate_frame_order X t f = Inr s"
    by (auto simp: validate_run_append and_then_eq_Inr)
  then have "documented_step t (from_frame f) = Some s"
    by (simp add: validate_frame_order_eq_Inr)
  from history_step [OF snoc.IH [OF t] this] show ?case by simp
qed auto

section \<open>Properties\<close>

text \<open>The JSON form of a public bundle is unique. Decoding accepts exactly the serialization
  of a bundle with two 32-byte keys, so every other spelling of the same keys (non-canonical or
  unpadded base64, a wrong length) is refused.\<close>

theorem bundle_json_canonical:
  assumes "b64_law X"
  shows "deserialize_bundle X e = Inr b \<longleftrightarrow> wf_bundle b \<and> e = serialize_bundle X b"
  using assms by (rule bundle_codec_iff)

theorem bundle_json_canonical_witness:
  "let b = \<lparr>sign_pk = replicate 32 7, dh_pk = replicate 32 9\<rparr> in
   deserialize_bundle demo_crates (serialize_bundle demo_crates b) = Inr b"
  using bundle_json_canonical [OF demo_laws(1)]
  by (simp add: wf_bundle_def PUBLIC_KEY_LENGTH_def)



text \<open>C2: the order table built by \<open>build_transitions\<close> accepts exactly the transitions of the
  documented state table, plus \<open>error\<close> closing every state but \<open>Closed\<close>; an
  out-of-order frame is a \<open>bad_frame\<close> naming the frame and the state.\<close>

theorem frame_order_documented:
  "validate_frame_order X s f =
     and_then (validate_frame X f) (\<lambda>_. case documented_step s (from_frame f) of
        Some t \<Rightarrow> Inr t
      | None \<Rightarrow> Inl (BadFrame (''frame '' @ type_name f @ '' is illegal in state '' @ state_name s)))"
  by (rule validate_frame_order_step)

text \<open>C3: a connection can only become \<open>Live\<close> through hello, an optional complete pairing
  exchange, \<open>join\<close>, \<open>join_ok\<close> and exactly one bootstrap frame; afterwards it has
  seen live clips only, and in particular no pairing frame.\<close>

theorem live_only_after_join_and_one_bootstrap:
  assumes "validate_run X Connected fs = Inr Live"
  shows "\<exists>pre b n. before_join pre \<and> is_bootstrap b
    \<and> map from_frame fs = pre @ [EvJoin, EvJoinOk, b] @ replicate n EvLiveClip"
  using validate_run_history [OF assms] by simp

definition demo_run :: "frame list" where
  "demo_run =
     (let b = \<lparr>sign_pk = replicate 32 7, dh_pk = replicate 32 9\<rparr>;
          room = replicate 32 (CHR ''a''); dev = replicate 16 (CHR ''0'') in
      [Hello dev b 1, HelloOk 1 [], Join room dev b [], JoinOk, MailboxEmpty, Clip room [] [] False])"

theorem live_only_after_join_and_one_bootstrap_witness:
  "validate_run demo_crates Connected demo_run = Inr Live
   \<and> (\<exists>pre b n. before_join pre \<and> is_bootstrap b
        \<and> map from_frame demo_run = pre @ [EvJoin, EvJoinOk, b] @ replicate n EvLiveClip)"
proof -
  have run: "validate_run demo_crates Connected demo_run = Inr Live"
    by (simp add: demo_run_def Let_def validate_frame_order_step documented_step_def validate_device_id_def
        validate_room_id_def validate_lower_hex_def is_lower_hex_def is_lower_hex_char_def
        is_ascii_digit_def validate_version_def PROTOCOL_VERSION_def validate_base64_def
        demo_crates_def list_all_iff)
  show ?thesis
    using run live_only_after_join_and_one_bootstrap [OF run] by blast
qed

end
