(* ===== verification/Crypto.thy ===== *)
theory Crypto
  imports Protocol Durable
begin

unbundle bit_operations_syntax

text \<open>
  The cryptographic boundary of crates/core/src/crypto.rs: fingerprints and identifiers, the join
  signature message, strict verification, identities and their file, directional session keys,
  associated data, the six-digit safety code (SAS), sealing and opening.

  Random bytes drawn from \<open>OsRng\<close> are arguments. The lemmas show: the identifiers are
  lower-case hex of the lengths the relay validates and do not depend on the order of the
  bundles; the join message and the associated data determine their fields; two identities derive
  matching directional keys; \<open>open\<close> undoes \<open>seal\<close>; and an identity file is either the
  old one or the complete new one, and reading it back gives the identity that was written.
\<close>

section \<open>Definitions\<close>

datatype crypto_error = JoinFieldTooLong | InvalidVerifyingKey | InvalidSignature | SameIdentity
  | NonContributoryDh | KdfExpand | Encryption | Decryption | SealedTooShort
  | InvalidGeneration u64 | InvalidSecretLength | MissingParent | CryptoIo
  | CryptoJson string | CryptoBase64 string

definition HEX_DIGITS :: string where "HEX_DIGITS = ''0123456789abcdef''"
definition JOIN_DOMAIN :: bytes where "JOIN_DOMAIN = as_bytes ''clipboard-sync-join-v1''"
definition HKDF_DOMAIN :: bytes where "HKDF_DOMAIN = as_bytes ''clipboard-sync-v1''"
definition SAS_DOMAIN :: bytes where "SAS_DOMAIN = as_bytes ''clipboard-sync-sas-v1''"
definition NONCE_LENGTH :: nat where "NONCE_LENGTH = 24"

definition hex_lower :: "bytes \<Rightarrow> string" where
  "hex_lower bs = concat (map (\<lambda>b. [HEX_DIGITS ! unat (drop_bit 4 b), HEX_DIGITS ! unat (b AND 0x0f)]) bs)"

definition bundle_fp :: "crates \<Rightarrow> pub_bundle \<Rightarrow> string" where
  "bundle_fp X b = hex_lower (sha256 X (bundle_bytes b))"

definition device_id :: "crates \<Rightarrow> bytes \<Rightarrow> string" where
  "device_id X pk = hex_lower (take 8 (sha256 X pk))"

definition room_id :: "crates \<Rightarrow> pub_bundle \<Rightarrow> pub_bundle \<Rightarrow> string" where
  "room_id X first second =
     (let first_bytes = bundle_bytes first; second_bytes = bundle_bytes second;
          hashed = (if first_bytes \<le> second_bytes then first_bytes @ second_bytes
                    else second_bytes @ first_bytes)
      in hex_lower (take 16 (sha256 X hashed)))"

text \<open>The loop over the four length-prefixed fields.\<close>

fun put_fields :: "bytes \<Rightarrow> bytes list \<Rightarrow> crypto_error + bytes" where
  "put_fields message [] = Inr message"
| "put_fields message (field # rest) =
     (if length field < 2 ^ 32 then put_fields (message @ be32 (length field) @ field) rest
      else Inl JoinFieldTooLong)"

definition join_sig_msg :: "bytes \<Rightarrow> string \<Rightarrow> string \<Rightarrow> bytes \<Rightarrow> crypto_error + bytes" where
  "join_sig_msg nonce room device bundle =
     put_fields JOIN_DOMAIN [nonce, as_bytes room, as_bytes device, bundle]"

definition verify :: "crates \<Rightarrow> bytes \<Rightarrow> bytes \<Rightarrow> bytes \<Rightarrow> crypto_error + unit" where
  "verify X pk message signature =
     (if \<not> ed25519_key_ok X pk then Inl InvalidVerifyingKey
      else if ed25519_verify_strict X pk message signature then Inr () else Inl InvalidSignature)"

record identity =
  id_sign :: bytes
  id_dh :: bytes
  id_generation :: u64

record SessionKeys =
  sk_send :: bytes
  sk_recv :: bytes

definition from_secret_bytes :: "bytes \<Rightarrow> bytes \<Rightarrow> u64 \<Rightarrow> crypto_error + identity" where
  "from_secret_bytes sign_secret dh_secret generation =
     (if generation = 0 then Inl (InvalidGeneration generation)
      else Inr \<lparr>id_sign = sign_secret, id_dh = dh_secret, id_generation = generation\<rparr>)"

definition generate_identity :: "bytes \<Rightarrow> bytes \<Rightarrow> identity" where
  "generate_identity sign_secret dh_secret =
     \<lparr>id_sign = sign_secret, id_dh = dh_secret, id_generation = 1\<rparr>"

definition public_bundle :: "crates \<Rightarrow> identity \<Rightarrow> pub_bundle" where
  "public_bundle X i =
     \<lparr>sign_pk = ed25519_public X (id_sign i), dh_pk = x25519_public X (id_dh i)\<rparr>"

definition id_sign_message :: "crates \<Rightarrow> identity \<Rightarrow> bytes \<Rightarrow> bytes" where
  "id_sign_message X i m = ed25519_sign X (id_sign i) m"

definition id_device_id :: "crates \<Rightarrow> identity \<Rightarrow> string" where
  "id_device_id X i = device_id X (ed25519_public X (id_sign i))"

definition id_bundle_fp :: "crates \<Rightarrow> identity \<Rightarrow> string" where
  "id_bundle_fp X i = bundle_fp X (public_bundle X i)"

definition derive_session_key :: "crates \<Rightarrow> bytes \<Rightarrow> bytes \<Rightarrow> bytes \<Rightarrow> crypto_error + bytes" where
  "derive_session_key X shared base_info direction =
     (case hkdf_expand X shared (base_info @ direction) of
        None \<Rightarrow> Inl KdfExpand | Some key \<Rightarrow> Inr key)"

definition session_keys :: "crates \<Rightarrow> identity \<Rightarrow> pub_bundle \<Rightarrow> crypto_error + SessionKeys" where
  "session_keys X self peer =
     (let self_fp = id_bundle_fp X self; peer_fp = bundle_fp X peer in
      if self_fp = peer_fp then Inl SameIdentity
      else let shared = x25519_dh X (id_dh self) (dh_pk peer) in
      if \<not> x25519_contributory X shared then Inl NonContributoryDh
      else let (fp_min, fp_max, self_is_a) =
             (if self_fp < peer_fp then (self_fp, peer_fp, True) else (peer_fp, self_fp, False));
             info = HKDF_DOMAIN @ as_bytes fp_min @ as_bytes fp_max in
      and_then (derive_session_key X shared info (as_bytes ''a2b'')) (\<lambda>a2b.
      and_then (derive_session_key X shared info (as_bytes ''b2a'')) (\<lambda>b2a.
        Inr (if self_is_a then \<lparr>sk_send = a2b, sk_recv = b2a\<rparr>
             else \<lparr>sk_send = b2a, sk_recv = a2b\<rparr>))))"

definition aad :: "string \<Rightarrow> string \<Rightarrow> string \<Rightarrow> bytes" where
  "aad room sender_fp receiver_fp =
     as_bytes room @ [0] @ as_bytes sender_fp @ [0] @ as_bytes receiver_fp"

definition format06 :: "nat \<Rightarrow> string" where
  "format06 n = (let s = show_nat n in replicate (6 - length s) (CHR ''0'') @ s)"

definition sas_code :: "crates \<Rightarrow> bytes \<Rightarrow> pub_bundle \<Rightarrow> pub_bundle \<Rightarrow> string" where
  "sas_code X nonce_a first second =
     (let first_bytes = bundle_bytes first; second_bytes = bundle_bytes second;
          digest = sha256 X (SAS_DOMAIN @ nonce_a @
            (if first_bytes \<le> second_bytes then first_bytes @ second_bytes
             else second_bytes @ first_bytes));
          value = unat (digest ! 0) * 256 ^ 3 + unat (digest ! 1) * 256 ^ 2
                  + unat (digest ! 2) * 256 + unat (digest ! 3)
      in format06 (value mod 1000000))"

text \<open>\<open>nonce\<close> is the \<open>OsRng\<close> draw of 24 bytes.\<close>

definition seal :: "crates \<Rightarrow> bytes \<Rightarrow> bytes \<Rightarrow> bytes \<Rightarrow> bytes \<Rightarrow> crypto_error + bytes" where
  "seal X nonce key ad plaintext =
     (case aead_encrypt X key nonce ad plaintext of
        None \<Rightarrow> Inl Encryption | Some ciphertext \<Rightarrow> Inr (nonce @ ciphertext))"

definition open_sealed :: "crates \<Rightarrow> bytes \<Rightarrow> bytes \<Rightarrow> bytes \<Rightarrow> crypto_error + bytes" where
  "open_sealed X key ad sealed =
     (if length sealed < NONCE_LENGTH then Inl SealedTooShort
      else case aead_decrypt X key (take NONCE_LENGTH sealed) ad (drop NONCE_LENGTH sealed) of
        None \<Rightarrow> Inl Decryption | Some plaintext \<Rightarrow> Inr plaintext)"

section \<open>The identity file\<close>

record identity_document =
  doc_generation :: u64
  doc_sign_sk :: string
  doc_dh_sk :: string

definition decode_secret :: "crates \<Rightarrow> string \<Rightarrow> crypto_error + bytes" where
  "decode_secret X encoded =
     and_then (map_err CryptoBase64 (b64_decode X encoded)) (\<lambda>bs.
       if length bs = 32 then Inr bs else Inl InvalidSecretLength)"

definition from_document :: "crates \<Rightarrow> identity_document \<Rightarrow> crypto_error + identity" where
  "from_document X d =
     and_then (decode_secret X (doc_sign_sk d)) (\<lambda>s.
     and_then (decode_secret X (doc_dh_sk d)) (\<lambda>h. from_secret_bytes s h (doc_generation d)))"

definition identity_document_of :: "crates \<Rightarrow> identity \<Rightarrow> identity_document" where
  "identity_document_of X i = \<lparr>doc_generation = id_generation i,
     doc_sign_sk = b64_encode X (id_sign i), doc_dh_sk = b64_encode X (id_dh i)\<rparr>"

text \<open>\<open>Path::parent\<close> is \<open>None\<close> for the empty path and the root only.\<close>

definition has_parent :: "string \<Rightarrow> bool" where
  "has_parent path \<longleftrightarrow> list_ex (\<lambda>c. c \<noteq> CHR ''/'') path"

text \<open>\<open>Identity::persist\<close>: create the temporary file, serialize and write, sync, rename,
  disarm the guard, sync the directory. A serialization error strikes after the temporary file
  was created, and the guard removes it. \<open>tmp\<close> is the temporary path with its random
  suffix.\<close>

definition identity_persist ::
  "crates \<Rightarrow> identity_document json \<Rightarrow> write_step option \<Rightarrow> string \<Rightarrow> string \<Rightarrow> identity \<Rightarrow> fs
   \<Rightarrow> (crypto_error + unit) \<times> fs" where
  "identity_persist X J fault tmp path i f =
     (if \<not> has_parent path then (Inl MissingParent, f)
      else if fault = Some At_open \<or> f tmp \<noteq> None then (Inl CryptoIo, f)
      else case to_json J (identity_document_of X i) of
        Inl e \<Rightarrow> (Inl (CryptoJson e), f(tmp := None))
      | Inr data \<Rightarrow> (case atomic_write guarded_style fault tmp path data f of
            (ok, f') \<Rightarrow> (if ok then Inr () else Inl CryptoIo, f')))"

text \<open>\<open>read_fails\<close> is a read error other than "not found"; \<open>rng\<close> the two secret draws
  of \<open>generate\<close>.\<close>

definition load_or_create ::
  "crates \<Rightarrow> identity_document json \<Rightarrow> bool \<Rightarrow> bytes \<times> bytes \<Rightarrow> write_step option \<Rightarrow> string \<Rightarrow> string
   \<Rightarrow> fs \<Rightarrow> (crypto_error + identity) \<times> fs" where
  "load_or_create X J read_fails rng fault tmp path f =
     (if read_fails then (Inl CryptoIo, f)
      else case f path of
        Some bs \<Rightarrow> (and_then (map_err CryptoJson (from_json J bs)) (from_document X), f)
      | None \<Rightarrow> (let i = generate_identity (fst rng) (snd rng) in
          case identity_persist X J fault tmp path i f of
            (Inl e, f') \<Rightarrow> (Inl e, f')
          | (Inr _, f') \<Rightarrow> (Inr i, f')))"

definition wf_identity :: "identity \<Rightarrow> bool" where
  "wf_identity i \<longleftrightarrow> length (id_sign i) = 32 \<and> length (id_dh i) = 32 \<and> id_generation i \<noteq> 0"

section \<open>Facts\<close>

text \<open>Hexadecimal identifiers.\<close>

lemma HEX_DIGITS_hex: "n < 16 \<Longrightarrow> is_lower_hex_char (HEX_DIGITS ! n)"
proof -
  have "list_all (\<lambda>n. is_lower_hex_char (HEX_DIGITS ! n)) [0..<16]" by code_simp
  then show "n < 16 \<Longrightarrow> ?thesis" by (simp add: list_all_iff)
qed

lemma nibble_bounds: "unat (drop_bit 4 (b::byte)) < 16" "unat (b AND 0x0f) < 16"
proof -
  have "unat (drop_bit 4 b) = unat b div 16"
    unfolding unat_drop_bit_eq by (simp add: drop_bit_eq_div)
  then show "unat (drop_bit 4 b) < 16" using unat_byte_div(2) [of b] by simp
  have "unat (b AND mask 4) = unat b mod 16"
    unfolding take_bit_eq_mask [symmetric] unsigned_take_bit_eq by (simp add: take_bit_eq_mod)
  then show "unat (b AND 0x0f) < 16" by (simp add: mask_numeral)
qed

lemma hex_lower_hex: "is_lower_hex (2 * length bs) (hex_lower bs)"
proof (induction bs)
  case (Cons b bs)
  have "is_lower_hex 2 [HEX_DIGITS ! unat (drop_bit 4 b), HEX_DIGITS ! unat (b AND 0x0f)]"
    by (simp add: is_lower_hex_def HEX_DIGITS_hex nibble_bounds)
  from is_lower_hex_append [OF this Cons] show ?case by (simp add: hex_lower_def)
qed (simp add: hex_lower_def is_lower_hex_def)

lemma bundle_fp_hex: "sha256_law X \<Longrightarrow> is_lower_hex 64 (bundle_fp X b)"
  using hex_lower_hex [of "sha256 X (bundle_bytes b)"] by (simp add: bundle_fp_def)

lemma device_id_hex: "sha256_law X \<Longrightarrow> is_lower_hex 16 (device_id X pk)"
  using hex_lower_hex [of "take 8 (sha256 X pk)"] by (simp add: device_id_def)

lemma room_id_hex: "sha256_law X \<Longrightarrow> is_lower_hex 32 (room_id X a b)"
  using hex_lower_hex [of "take 16 (sha256 X v)" for v] by (simp add: room_id_def Let_def)

lemmas [hex_simps] = bundle_fp_hex device_id_hex room_id_hex

lemma room_id_sym: "room_id X a b = room_id X b a"
  by (auto simp: room_id_def Let_def)

lemma sas_code_sym: "sas_code X n a b = sas_code X n b a"
  by (auto simp: sas_code_def Let_def)

text \<open>The safety code is six decimal digits.\<close>

lemma digit_char: "n < (10::nat) \<Longrightarrow> is_ascii_digit (char_of (48 + n))"
proof -
  have "list_all (\<lambda>n::nat. is_ascii_digit (char_of (48 + n))) [0..<10]" by code_simp
  then show "n < 10 \<Longrightarrow> ?thesis" by (simp add: list_all_iff)
qed

lemma show_nat_digits: "list_all is_ascii_digit (show_nat n)"
proof (induction n rule: show_nat.induct)
  case (1 n)
  then show ?case
    by (subst show_nat.simps) (auto simp: digit_char simp del: char_of_nat)
qed

lemma length_show_nat: "n < 10 ^ Suc k \<Longrightarrow> length (show_nat n) \<le> Suc k"
proof (induction k arbitrary: n)
  case (Suc k)
  then have "n div 10 < 10 ^ Suc k" by auto
  from Suc.IH [OF this] show ?case by (subst show_nat.simps) simp
qed (subst show_nat.simps; simp)

lemma format06_shape:
  assumes "n < 1000000" shows "length (format06 n) = 6" and "list_all is_ascii_digit (format06 n)"
proof -
  have "length (show_nat n) \<le> 6" using length_show_nat [of n 5] assms by simp
  then show "length (format06 n) = 6" by (simp add: format06_def Let_def)
  show "list_all is_ascii_digit (format06 n)"
    using show_nat_digits [of n] by (auto simp: format06_def Let_def list_all_iff is_ascii_digit_def)
qed

lemma sas_code_shape:
  "length (sas_code X n a b) = 6" "list_all is_ascii_digit (sas_code X n a b)"
  using format06_shape by (simp_all add: sas_code_def Let_def)

text \<open>The join message determines its fields.\<close>

lemma put_fields_Inr:
  "put_fields m fs = Inr r \<Longrightarrow>
     list_all (\<lambda>x. length x < 2 ^ 32) fs \<and> r = m @ concat (map (\<lambda>x. be32 (length x) @ x) fs)"
  by (induction m fs rule: put_fields.induct) (auto split: if_splits)

lemma put_fields_Inl: "put_fields m fs = Inl e \<longleftrightarrow>
    e = JoinFieldTooLong \<and> list_ex (\<lambda>x. 2 ^ 32 \<le> length x) fs"
  by (induction m fs rule: put_fields.induct) (auto simp: not_less)

lemma length_prefixed_inject:
  assumes "length x < 2 ^ 32" "length y < 2 ^ 32"
    and "be32 (length x) @ x @ r = be32 (length y) @ y @ s"
  shows "x = y" and "r = s"
proof -
  have "be32 (length x) = be32 (length y)" and tail: "x @ r = y @ s" using assms(3) by auto
  then have "length x = length y" using assms(1,2) be32_inject by blast
  with tail show "x = y" "r = s" by auto
qed

lemma fields_inject:
  assumes "length fs = length gs" "list_all (\<lambda>x. length x < 2 ^ 32) fs"
    "list_all (\<lambda>x. length x < 2 ^ 32) gs"
    "concat (map (\<lambda>x. be32 (length x) @ x) fs) = concat (map (\<lambda>x. be32 (length x) @ x) gs)"
  shows "fs = gs"
  using assms
proof (induction fs gs rule: list_induct2)
  case (Cons x fs y gs)
  let ?enc = "\<lambda>fs :: bytes list. concat (map (\<lambda>x. be32 (length x) @ x) fs)"
  have "length x < 2 ^ 32" "length y < 2 ^ 32"
    and "be32 (length x) @ x @ ?enc fs = be32 (length y) @ y @ ?enc gs"
    using Cons.prems by simp_all
  note eq = length_prefixed_inject [OF this]
  have "fs = gs" by (rule Cons.IH) (use Cons.prems eq(2) in simp_all)
  with eq(1) show ?case by simp
qed simp

lemma join_sig_msg_inject:
  assumes "join_sig_msg n r d b = Inr m" and "join_sig_msg n' r' d' b' = Inr m"
  shows "n = n' \<and> r = r' \<and> d = d' \<and> b = b'"
proof -
  note p = assms [unfolded join_sig_msg_def, THEN put_fields_Inr]
  have "[n, as_bytes r, as_bytes d, b] = [n', as_bytes r', as_bytes d', b']"
    using p by (intro fields_inject) auto
  then show ?thesis by simp
qed

text \<open>Associated data determines its parts, as hexadecimal text has no zero byte.\<close>

lemma hex_no_zero: "is_lower_hex n s \<Longrightarrow> 0 \<notin> set (as_bytes s)"
  using lower_hex_char_nonzero by (force simp: is_lower_hex_def set_as_bytes list_all_iff)

lemma split_at_zero:
  fixes a b :: bytes
  assumes "a @ 0 # c = b @ 0 # d" "0 \<notin> set a" "0 \<notin> set b" shows "a = b \<and> c = d"
  using assms
proof (induction a arbitrary: b)
  case Nil
  then show ?case by (cases b) auto
next
  case (Cons x a)
  then show ?case by (cases b) auto
qed

lemma aad_inject:
  assumes "aad r s t = aad r' s' t'" and "is_lower_hex i r" "is_lower_hex i' r'"
    and "is_lower_hex j s" "is_lower_hex j' s'"
  shows "r = r' \<and> s = s' \<and> t = t'"
proof -
  from assms(1) have "as_bytes r @ 0 # (as_bytes s @ 0 # as_bytes t)
      = as_bytes r' @ 0 # (as_bytes s' @ 0 # as_bytes t')"
    by (simp add: aad_def)
  from split_at_zero [OF this] assms(2,3)
  have "as_bytes r = as_bytes r'" and t: "as_bytes s @ 0 # as_bytes t = as_bytes s' @ 0 # as_bytes t'"
    by (simp_all add: hex_no_zero)
  with split_at_zero [OF t] assms(4,5) show ?thesis by (simp add: hex_no_zero)
qed

text \<open>Two identities derive matching directional keys.\<close>

lemma session_keys_unfold:
  assumes "id_bundle_fp X a \<noteq> bundle_fp X p" and "x25519_contributory X (x25519_dh X (id_dh a) (dh_pk p))"
  shows "session_keys X a p =
    (let shared = x25519_dh X (id_dh a) (dh_pk p); fa = id_bundle_fp X a; fp = bundle_fp X p;
         info = HKDF_DOMAIN @ as_bytes (min fa fp) @ as_bytes (max fa fp) in
     case (derive_session_key X shared info (as_bytes ''a2b''),
           derive_session_key X shared info (as_bytes ''b2a'')) of
       (Inl e, _) \<Rightarrow> Inl e | (Inr _, Inl e) \<Rightarrow> Inl e
     | (Inr a2b, Inr b2a) \<Rightarrow> Inr (if fa < fp then \<lparr>sk_send = a2b, sk_recv = b2a\<rparr>
                                  else \<lparr>sk_send = b2a, sk_recv = a2b\<rparr>))"
proof -
  let ?fa = "id_bundle_fp X a" and ?fp = "bundle_fp X p"
  have le: "\<not> ?fa < ?fp \<Longrightarrow> ?fp \<le> ?fa" by simp
  have order: "(if ?fa < ?fp then (?fa, ?fp, True) else (?fp, ?fa, False))
      = (min ?fa ?fp, max ?fa ?fp, ?fa < ?fp)"
    by (cases "?fa < ?fp")
       (simp_all add: min_absorb1 max_absorb2 min_absorb2 max_absorb1 less_imp_le le)
  show ?thesis
    unfolding session_keys_def Let_def order using assms by (simp add: and_then_def split: sum.split)
qed

lemma session_keys_guards:
  assumes "session_keys X a p = Inr k"
  shows "id_bundle_fp X a \<noteq> bundle_fp X p" "x25519_contributory X (x25519_dh X (id_dh a) (dh_pk p))"
  using assms by (auto simp: session_keys_def Let_def split: if_splits)

lemma session_keys_agree_aux:
  assumes "dh_law X" and k: "session_keys X a (public_bundle X b) = Inr k"
  shows "session_keys X b (public_bundle X a) = Inr \<lparr>sk_send = sk_recv k, sk_recv = sk_send k\<rparr>"
proof -
  let ?fa = "id_bundle_fp X a" and ?fb = "id_bundle_fp X b"
  have dh: "x25519_dh X (id_dh b) (dh_pk (public_bundle X a))
      = x25519_dh X (id_dh a) (dh_pk (public_bundle X b))"
    using assms(1) by (simp add: dh_law_def public_bundle_def)
  have fp: "bundle_fp X (public_bundle X i) = id_bundle_fp X i" for i by (simp add: id_bundle_fp_def)
  note g = session_keys_guards [OF k, unfolded fp]
  have g': "?fb \<noteq> ?fa" "x25519_contributory X (x25519_dh X (id_dh b) (dh_pk (public_bundle X a)))"
    using g unfolding dh by simp_all
  have eq: "min ?fb ?fa = min ?fa ?fb" "max ?fb ?fa = max ?fa ?fb"
    by (simp_all add: min.commute max.commute)
  let ?derive = "derive_session_key X (x25519_dh X (id_dh a) (dh_pk (public_bundle X b)))
      (HKDF_DOMAIN @ as_bytes (min ?fa ?fb) @ as_bytes (max ?fa ?fb))"
  note un = session_keys_unfold [of X a "public_bundle X b", unfolded fp, OF g]
    session_keys_unfold [of X b "public_bundle X a", unfolded fp, OF g', unfolded dh eq]
  have flip: "?fb < ?fa \<longleftrightarrow> \<not> ?fa < ?fb" using g(1) by auto
  show ?thesis
    using k unfolding un Let_def flip
    by (cases "?derive (as_bytes ''a2b'')"; cases "?derive (as_bytes ''b2a'')"; cases "?fa < ?fb") auto
qed

lemma open_seal:
  assumes "aead_law X" and "length nonce = NONCE_LENGTH" and "seal X nonce key ad m = Inr c"
  shows "open_sealed X key ad c = Inr m"
  using assms by (auto simp: seal_def open_sealed_def aead_law_def split: option.splits)

lemma open_sealed_cases:
  "open_sealed X key ad c = Inr m \<longleftrightarrow>
     NONCE_LENGTH \<le> length c
     \<and> aead_decrypt X key (take NONCE_LENGTH c) ad (drop NONCE_LENGTH c) = Some m"
  by (auto simp: open_sealed_def split: option.splits)

text \<open>Identities and their file.\<close>

lemma wf_public_bundle: "key_size_law X \<Longrightarrow> wf_bundle (public_bundle X i)"
  by (simp add: wf_bundle_def public_bundle_def key_size_law_def PUBLIC_KEY_LENGTH_def)

lemma from_document_of:
  assumes "b64_law X" and "wf_identity i" shows "from_document X (identity_document_of X i) = Inr i"
  using assms
  by (cases i) (simp add: from_document_def identity_document_of_def decode_secret_def
      from_secret_bytes_def wf_identity_def)

lemma from_document_wf:
  assumes "from_document X d = Inr i" shows "wf_identity i"
  using assms
  by (auto simp: from_document_def decode_secret_def from_secret_bytes_def wf_identity_def
      and_then_def split: sum.splits if_splits)

lemma identity_persist_target:
  assumes "tmp \<noteq> path" and "identity_persist X J fault tmp path i f = (r, f')"
  shows "f' path = f path \<or> to_json J (identity_document_of X i) = Inr (the (f' path)) \<and> f' path \<noteq> None"
    and "is_ok r \<Longrightarrow> f' path \<noteq> None \<and> to_json J (identity_document_of X i) = Inr (the (f' path))"
    and "f tmp = None \<Longrightarrow> f' tmp = None"
    and "p \<noteq> tmp \<Longrightarrow> p \<noteq> path \<Longrightarrow> f' p = f p"
  using assms
  by (auto simp: identity_persist_def atomic_write_unfold guarded_style_def
      split: option.splits write_step.splits if_splits sum.splits)

section \<open>Properties\<close>

text \<open>Identifiers do not depend on which endpoint computes them and have the shape the relay
  validates. Both endpoints derive the same room id and the same safety code from their two
  bundles; the room id, device id and fingerprint are lower-case hex of 32, 16 and 64 characters
  and the safety code is six decimal digits.\<close>

theorem identifiers_canonical:
  assumes "sha256_law X"
  shows "room_id X a b = room_id X b a \<and> validate_room_id (room_id X a b) = Inr ()
    \<and> validate_device_id (device_id X pk) = Inr () \<and> is_lower_hex 64 (bundle_fp X a)
    \<and> sas_code X n a b = sas_code X n b a \<and> length (sas_code X n a b) = 6
    \<and> list_all is_ascii_digit (sas_code X n a b)"
  using assms room_id_sym sas_code_sym sas_code_shape
  by (simp add: validate_room_id_def validate_device_id_def validate_lower_hex_def hex_simps)

theorem identifiers_canonical_witness:
  "let b = \<lparr>sign_pk = replicate 32 7, dh_pk = replicate 32 9\<rparr>;
       c = \<lparr>sign_pk = replicate 32 1, dh_pk = replicate 32 2\<rparr> in
   room_id demo_crates b c = room_id demo_crates c b
   \<and> validate_room_id (room_id demo_crates b c) = Inr ()
   \<and> length (sas_code demo_crates [1, 2] b c) = 6"
  unfolding Let_def using identifiers_canonical [OF demo_laws(2)] by blast

text \<open>C4: the join signature message determines what is signed: two joins with the same message
  have the same nonce, room, device and bundle, so a signature cannot be replayed for another
  nonce, room or device.\<close>

theorem join_message_binds_fields:
  assumes "join_sig_msg nonce room device bundle = Inr m"
    and "join_sig_msg nonce' room' device' bundle' = Inr m"
  shows "nonce = nonce' \<and> room = room' \<and> device = device' \<and> bundle = bundle'"
  using assms by (rule join_sig_msg_inject)

theorem join_message_binds_fields_witness:
  "let m = projr (join_sig_msg [1, 2] ''ab'' ''c'' [7]) in
   join_sig_msg [1, 2] ''ab'' ''c'' [7] = Inr m \<and> join_sig_msg [1, 2] ''a'' ''bc'' [7] \<noteq> Inr m"
proof -
  have m: "join_sig_msg [1, 2] ''ab'' ''c'' [7] = Inr (projr (join_sig_msg [1, 2] ''ab'' ''c'' [7]))"
    by (simp add: join_sig_msg_def)
  have "''ab'' \<noteq> ''a''" by simp
  then show ?thesis unfolding Let_def using m join_message_binds_fields [OF m] by blast
qed

text \<open>C5: the associated data of a sealed clip determines the room, the sender and the receiver
  when the identifiers are lower-case hex, so a ciphertext accepted under one direction of one
  room is bound to it.\<close>

theorem associated_data_binds_direction:
  assumes "aad room s r = aad room' s' r'"
    and "is_lower_hex 32 room" "is_lower_hex 32 room'" "is_lower_hex 64 s" "is_lower_hex 64 s'"
  shows "room = room' \<and> s = s' \<and> r = r'"
  using assms by (rule aad_inject)

theorem associated_data_binds_direction_witness:
  "let room = replicate 32 (CHR ''a''); s = replicate 64 (CHR ''b''); r = replicate 64 (CHR ''c'') in
   aad room s r = aad room s r \<and> is_lower_hex 32 room \<and> is_lower_hex 64 s \<and> aad room s r \<noteq> aad room r s"
proof -
  let ?room = "replicate 32 (CHR ''a'')" and ?s = "replicate 64 (CHR ''b'')"
    and ?r = "replicate 64 (CHR ''c'')"
  have hex: "is_lower_hex 32 ?room" "is_lower_hex 64 ?s" "is_lower_hex 64 ?r"
    by (simp_all add: is_lower_hex_def list_all_iff is_lower_hex_char_def is_ascii_digit_def)
  have "?s \<noteq> ?r" by simp
  then show ?thesis unfolding Let_def
    using hex associated_data_binds_direction [of ?room ?s ?r ?room ?r ?s] by blast
qed

text \<open>C1: two endpoints that derive session keys for each other hold crossed directional keys,
  and what one seals with its send key the other opens with its receive key to the original
  plaintext. An identity never derives keys with itself.\<close>

theorem sealed_for_the_peer:
  assumes "dh_law X" and "aead_law X" and "session_keys X a (public_bundle X b) = Inr k"
    and "length nonce = NONCE_LENGTH" and "seal X nonce (sk_send k) ad m = Inr c"
  shows "\<exists>k'. session_keys X b (public_bundle X a) = Inr k'
    \<and> sk_recv k' = sk_send k \<and> sk_send k' = sk_recv k
    \<and> open_sealed X (sk_recv k') ad c = Inr m \<and> id_bundle_fp X a \<noteq> id_bundle_fp X b"
  using session_keys_agree_aux [OF assms(1,3)] open_seal [OF assms(2,4,5)]
    session_keys_guards(1) [OF assms(3)]
  by (simp add: id_bundle_fp_def)

definition demo_identity :: "byte \<Rightarrow> identity" where
  "demo_identity b = \<lparr>id_sign = replicate 32 b, id_dh = replicate 32 b, id_generation = 1\<rparr>"

theorem sealed_for_the_peer_witness:
  "let a = demo_identity 1; b = demo_identity 2; X = demo_crates;
       k = projr (session_keys X a (public_bundle X b)) in
   session_keys X a (public_bundle X b) = Inr k
   \<and> (\<exists>k' c. seal X (replicate 24 5) (sk_send k) [9] [1, 2, 3] = Inr c
         \<and> session_keys X b (public_bundle X a) = Inr k' \<and> open_sealed X (sk_recv k') [9] c = Inr [1, 2, 3])"
proof -
  let ?X = demo_crates and ?b = "public_bundle demo_crates (demo_identity 2)"
  have k: "session_keys ?X (demo_identity 1) ?b
      = Inr (projr (session_keys ?X (demo_identity 1) ?b))"
    by code_simp
  obtain c where c: "seal ?X (replicate 24 5)
      (sk_send (projr (session_keys ?X (demo_identity 1) ?b))) [9] [1, 2, 3] = Inr c"
    by (simp add: seal_def demo_crates_def)
  show ?thesis unfolding Let_def
    using k c sealed_for_the_peer [OF demo_laws(5,4) k _ c] by (auto simp: NONCE_LENGTH_def)
qed

lemma generate_identity_wf: "length s = 32 \<Longrightarrow> length h = 32 \<Longrightarrow> wf_identity (generate_identity s h)"
  by (simp add: wf_identity_def generate_identity_def)

definition stored_identity :: "crates \<Rightarrow> identity_document json \<Rightarrow> bytes \<Rightarrow> identity option" where
  "stored_identity X J bs =
     (case and_then (map_err CryptoJson (from_json J bs)) (from_document X) of
        Inl _ \<Rightarrow> None | Inr i \<Rightarrow> Some i)"

lemma stored_identity_persisted:
  assumes "json_law J" "b64_law X" "wf_identity i"
    and "to_json J (identity_document_of X i) = Inr bs"
  shows "stored_identity X J bs = Some i"
  using assms by (simp add: stored_identity_def json_law_def from_document_of)

lemma load_existing:
  assumes "f path = Some bs" "stored_identity X J bs = Some i"
  shows "load_or_create X J False rng fault tmp path f = (Inr i, f)"
  using assms by (auto simp: load_or_create_def stored_identity_def split: sum.splits)

lemma load_or_create_file:
  assumes "json_law J" "b64_law X" "length (fst rng) = 32" "length (snd rng) = 32" "tmp \<noteq> path"
    and run: "load_or_create X J rf rng fault tmp path f = (r, f')"
  shows "f' path = f path
      \<or> f path = None \<and> f' path \<noteq> None
        \<and> stored_identity X J (the (f' path)) = Some (generate_identity (fst rng) (snd rng))"
    and "r = Inr i \<Longrightarrow> f' path \<noteq> None \<and> stored_identity X J (the (f' path)) = Some i"
proof -
  let ?i = "generate_identity (fst rng) (snd rng)"
  have wf: "wf_identity ?i" using assms(3,4) by (rule generate_identity_wf)
  obtain p g where pg: "identity_persist X J fault tmp path ?i f = (p, g)" by fastforce
  note t = identity_persist_target [OF assms(5) pg]
  have s: "to_json J (identity_document_of X ?i) = Inr bs \<Longrightarrow> stored_identity X J bs = Some ?i" for bs
    using assms(1,2) wf by (rule stored_identity_persisted)
  show "f' path = f path
      \<or> f path = None \<and> f' path \<noteq> None \<and> stored_identity X J (the (f' path)) = Some ?i"
    using run t(1) s pg
    by (auto simp: load_or_create_def Let_def split: if_splits option.splits sum.splits)
  show "r = Inr i \<Longrightarrow> f' path \<noteq> None \<and> stored_identity X J (the (f' path)) = Some i"
    using run t(2) s pg
    by (auto simp: load_or_create_def stored_identity_def Let_def split: if_splits option.splits sum.splits)
qed

text \<open>C9: the identity survives restarts. Once \<open>load_or_create\<close> has returned an identity,
  every later load returns the same one and leaves the file alone; and whatever step of the
  write fails, the file is unchanged or holds the complete generated identity, never a partial
  one.\<close>

theorem identity_survives_restart:
  assumes "json_law J" and "b64_law X" and "length (fst rng) = 32" and "length (snd rng) = 32"
    and "tmp \<noteq> path" and "load_or_create X J rf rng fault tmp path f = (r, f')"
  shows "(\<forall>i rng2 fault2 tmp2. r = Inr i \<longrightarrow>
        load_or_create X J False rng2 fault2 tmp2 path f' = (Inr i, f'))
    \<and> (f' path = f path \<or> f path = None \<and> f' path \<noteq> None
        \<and> stored_identity X J (the (f' path)) = Some (generate_identity (fst rng) (snd rng)))"
  using load_or_create_file [OF assms] load_existing by (metis option.collapse)

definition demo_identity_json :: "identity_document json" where
  "demo_identity_json = table_json
     [identity_document_of demo_crates (generate_identity (replicate 32 1) (replicate 32 2))]"

theorem identity_survives_restart_witness:
  "let rng = (replicate 32 1, replicate 32 2);
       (r, f) = load_or_create demo_crates demo_identity_json False rng None ''d/t'' ''d/id'' Map.empty
   in r = Inr (generate_identity (fst rng) (snd rng))
      \<and> load_or_create demo_crates demo_identity_json False (replicate 32 3, replicate 32 4)
          (Some At_open) ''d/u'' ''d/id'' f = (r, f)"
proof -
  let ?rng = "(replicate 32 1, replicate 32 2)"
  obtain r f where run:
      "load_or_create demo_crates demo_identity_json False ?rng None ''d/t'' ''d/id'' Map.empty = (r, f)"
    by fastforce
  then have r: "r = Inr (generate_identity (replicate 32 1) (replicate 32 2))"
    by (simp add: load_or_create_def identity_persist_def demo_identity_json_def table_json_def
        has_parent_def atomic_write_unfold guarded_style_def Let_def)
  show ?thesis
    using identity_survives_restart [OF _ demo_laws(1) _ _ _ run] r run
    by (simp add: demo_identity_json_def)
qed

section \<open>Frames of an honest client\<close>

lemma join_sig_msg_ok:
  assumes "length nonce < 2 ^ 32" "length room < 2 ^ 32" "length device < 2 ^ 32" "length bnd < 2 ^ 32"
  shows "is_ok (join_sig_msg nonce room device bnd)"
  using assms by (simp add: join_sig_msg_def)

lemma valid_hello:
  assumes "sha256_law X" shows "validate_frame X (Hello (id_device_id X i) b PROTOCOL_VERSION) = Inr ()"
  using device_id_hex [OF assms] by (simp add: id_device_id_def validate_device_id_def validate_lower_hex_def validate_version_def)

lemma valid_hello_ok:
  assumes "b64_law X" shows "validate_frame X (HelloOk PROTOCOL_VERSION (b64_encode X nonce)) = Inr ()"
  using assms by (simp add: validate_version_def validate_base64_def b64_law_def)

lemma valid_join:
  assumes "sha256_law X" "b64_law X"
  shows "validate_frame X (Join (room_id X a b) (id_device_id X i) c (b64_encode X sg)) = Inr ()"
  using device_id_hex [OF assms(1)] room_id_hex [OF assms(1)] assms(2)
  by (simp add: id_device_id_def validate_device_id_def validate_lower_hex_def validate_room_id_def validate_base64_def b64_law_def)

end
