(* ===== verification/History.thy ===== *)
theory History
  imports Crypto
begin

text \<open>
  The local clipboard history of crates/core/src/history.rs: at most fifty items in a JSON-lines
  metadata file, with image payloads in a directory beside it. \<open>history_disk\<close> is what
  survives a restart: the bytes of \<open>history.jsonl\<close> and the files of \<open>images/\<close>. The
  temporary file of the metadata write is not tracked; that of an image write is, because the
  next start removes it as an orphan.

  Each operation takes the failures of its run as an argument: the failing step of each atomic
  write, and which removals fail. The lemmas show: the item list keeps at most fifty items with
  distinct ids and valid image references; the metadata file always decodes to the list in
  memory, so a restart finds the same history whatever failed; the image of every listed item
  stays readable; and adding is idempotent.
\<close>

section \<open>Data\<close>

definition HISTORY_CAP :: nat where "HISTORY_CAP = 50"

datatype history_source = Local | Remote | RemoteDeferred
datatype history_content = HText string | HImage bytes
datatype history_kind = KindText string | KindImage string

record new_history_item =
  ni_id :: uuid
  ni_ts_ms :: int
  ni_source :: history_source
  ni_content :: history_content

record history_item =
  hi_id :: uuid
  hi_ts_ms :: int
  hi_kind :: history_kind
  hi_source :: history_source

datatype history_error = HistoryIo string | HistoryMetadata string | UnknownItem uuid | NotImage uuid

record history_disk =
  hd_metadata :: "bytes option"
  hd_images :: fs

record history_store =
  hs_disk :: history_disk
  hs_items :: "history_item list"

record history_faults =
  hf_tmp :: string                       \<comment> \<open>name of the temporary image file\<close>
  hf_image :: "write_step option"
  hf_metadata :: "write_step option"
  hf_undo_fails :: bool
  hf_remove_fails :: "string \<Rightarrow> bool"

section \<open>Operations\<close>

fun image_file_name :: "history_kind \<Rightarrow> string option" where
  "image_file_name (KindText _) = None"
| "image_file_name (KindImage file_name) = Some file_name"

definition image_name :: "crates \<Rightarrow> uuid \<Rightarrow> string" where
  "image_name X i = uuid_to_string X i @ ''.img''"

fun encode_items :: "history_item json \<Rightarrow> history_item list \<Rightarrow> history_error + bytes" where
  "encode_items J [] = Inr []"
| "encode_items J (item # items) =
     and_then (map_err HistoryMetadata (to_json J item)) (\<lambda>e.
     and_then (encode_items J items) (\<lambda>r. Inr (e @ 10 # r)))"

definition history_persist ::
  "history_item json \<Rightarrow> write_step option \<Rightarrow> history_item list \<Rightarrow> history_disk
   \<Rightarrow> (history_error + unit) \<times> history_disk" where
  "history_persist J fault items d =
     (case encode_items J items of
        Inl e \<Rightarrow> (Inl e, d)
      | Inr encoded \<Rightarrow>
          (let w = write_outcome_of history_style fault False in
           (if write_ok w then Inr () else Inl (HistoryIo ''history.jsonl''),
            d\<lparr>hd_metadata := after_write w (hd_metadata d) (Some encoded)\<rparr>)))"

definition remove_file_if_exists ::
  "(string \<Rightarrow> bool) \<Rightarrow> string \<Rightarrow> fs \<Rightarrow> (history_error + unit) \<times> fs" where
  "remove_file_if_exists fails name f =
     (if fails name then (Inl (HistoryIo name), f) else (Inr (), f(name := None)))"

text \<open>\<open>add\<close>: the duplicate test, the image write, the push and eviction, the metadata write
  with its undo, the removal of the evicted image.\<close>

definition store_image ::
  "crates \<Rightarrow> history_faults \<Rightarrow> new_history_item \<Rightarrow> fs
   \<Rightarrow> (history_error + history_kind \<times> string option) \<times> fs" where
  "store_image X hf item f =
     (case ni_content item of
        HText content \<Rightarrow> (Inr (KindText content, None), f)
      | HImage bs \<Rightarrow>
          (let file_name = image_name X (ni_id item) in
           case atomic_write history_style (hf_image hf) (hf_tmp hf) file_name bs f of
             (ok, f') \<Rightarrow> (if ok then Inr (KindImage file_name, Some file_name)
                          else Inl (HistoryIo file_name), f')))"

definition history_add ::
  "crates \<Rightarrow> history_item json \<Rightarrow> history_faults \<Rightarrow> new_history_item \<Rightarrow> history_store
   \<Rightarrow> (history_error + unit) \<times> history_store" where
  "history_add X J hf item st =
     (if list_ex (\<lambda>existing. hi_id existing = ni_id item) (hs_items st) then (Inr (), st)
      else case store_image X hf item (hd_images (hs_disk st)) of
        (Inl e, f) \<Rightarrow> (Inl e, st\<lparr>hs_disk := (hs_disk st)\<lparr>hd_images := f\<rparr>\<rparr>)
      | (Inr (kind, image_path), f) \<Rightarrow>
          (let d = (hs_disk st)\<lparr>hd_images := f\<rparr>;
               pushed = hs_items st @ [\<lparr>hi_id = ni_id item, hi_ts_ms = ni_ts_ms item, hi_kind = kind,
                                        hi_source = ni_source item\<rparr>];
               (updated, evicted) = (if length pushed > HISTORY_CAP then (tl pushed, Some (hd pushed))
                                     else (pushed, None)) in
           case history_persist J (hf_metadata hf) updated d of
             (Inl e, d') \<Rightarrow> (Inl e, st\<lparr>hs_disk := (case image_path of
                 Some p \<Rightarrow> if hf_undo_fails hf then d' else d'\<lparr>hd_images := (hd_images d')(p := None)\<rparr>
               | None \<Rightarrow> d')\<rparr>)
           | (Inr _, d') \<Rightarrow>
               (case Option.bind evicted (\<lambda>v. image_file_name (hi_kind v)) of
                  None \<Rightarrow> (Inr (), st\<lparr>hs_disk := d', hs_items := updated\<rparr>)
                | Some file_name \<Rightarrow>
                    (case remove_file_if_exists (hf_remove_fails hf) file_name (hd_images d') of
                       (r, f') \<Rightarrow> (r, st\<lparr>hs_disk := d'\<lparr>hd_images := f'\<rparr>, hs_items := updated\<rparr>)))))"

fun remove_images :: "(string \<Rightarrow> bool) \<Rightarrow> string list \<Rightarrow> fs \<Rightarrow> (history_error + unit) \<times> fs" where
  "remove_images fails [] f = (Inr (), f)"
| "remove_images fails (p # ps) f =
     (case remove_file_if_exists fails p f of
        (Inl e, f') \<Rightarrow> (Inl e, f')
      | (Inr _, f') \<Rightarrow> remove_images fails ps f')"

definition history_clear ::
  "history_item json \<Rightarrow> history_faults \<Rightarrow> history_store \<Rightarrow> (history_error + unit) \<times> history_store" where
  "history_clear J hf st =
     (let image_paths = List.map_filter (\<lambda>i. image_file_name (hi_kind i)) (hs_items st) in
      case history_persist J (hf_metadata hf) [] (hs_disk st) of
        (Inl e, d) \<Rightarrow> (Inl e, st\<lparr>hs_disk := d\<rparr>)
      | (Inr _, d) \<Rightarrow>
          (case remove_images (hf_remove_fails hf) image_paths (hd_images d) of
             (r, f) \<Rightarrow> (r, st\<lparr>hs_disk := d\<lparr>hd_images := f\<rparr>, hs_items := []\<rparr>)))"

definition image_bytes :: "uuid \<Rightarrow> history_store \<Rightarrow> history_error + bytes" where
  "image_bytes i st =
     (case find (\<lambda>item. hi_id item = i) (hs_items st) of
        None \<Rightarrow> Inl (UnknownItem i)
      | Some item \<Rightarrow> (case hi_kind item of
            KindText _ \<Rightarrow> Inl (NotImage i)
          | KindImage file_name \<Rightarrow> (case hd_images (hs_disk st) file_name of
              None \<Rightarrow> Inl (HistoryIo file_name) | Some bs \<Rightarrow> Inr bs)))"

fun source_transition :: "history_source \<Rightarrow> history_source \<Rightarrow> bool" where
  "source_transition RemoteDeferred Remote = True"
| "source_transition _ _ = False"

fun position :: "('a \<Rightarrow> bool) \<Rightarrow> 'a list \<Rightarrow> nat option" where
  "position P [] = None"
| "position P (x # xs) = (if P x then Some 0 else map_option Suc (position P xs))"

definition set_source ::
  "history_item json \<Rightarrow> history_faults \<Rightarrow> uuid \<Rightarrow> history_source \<Rightarrow> history_store
   \<Rightarrow> (history_error + unit) \<times> history_store" where
  "set_source J hf i source st =
     (case position (\<lambda>item. hi_id item = i) (hs_items st) of
        None \<Rightarrow> (Inl (UnknownItem i), st)
      | Some index \<Rightarrow>
          (if source_transition (hi_source (hs_items st ! index)) source then
             (let updated = (hs_items st)[index := (hs_items st ! index)\<lparr>hi_source := Remote\<rparr>] in
              case history_persist J (hf_metadata hf) updated (hs_disk st) of
                (Inl e, d) \<Rightarrow> (Inl e, st\<lparr>hs_disk := d\<rparr>)
              | (Inr _, d) \<Rightarrow> (Inr (), st\<lparr>hs_disk := d, hs_items := updated\<rparr>))
           else (Inr (), st)))"

section \<open>Start-up\<close>

fun split_on :: "byte \<Rightarrow> bytes \<Rightarrow> bytes list" where
  "split_on x [] = [[]]"
| "split_on x (b # bs) =
     (if b = x then [] # split_on x bs
      else case split_on x bs of [] \<Rightarrow> [[b]] | l # ls \<Rightarrow> (b # l) # ls)"

definition valid_reference :: "crates \<Rightarrow> history_item \<Rightarrow> bool" where
  "valid_reference X item =
     (case image_file_name (hi_kind item) of
        None \<Rightarrow> True | Some file_name \<Rightarrow> file_name = image_name X (hi_id item))"

fun load_lines :: "crates \<Rightarrow> history_item json \<Rightarrow> uuid list \<Rightarrow> bytes list \<Rightarrow> history_item list" where
  "load_lines X J ids [] = []"
| "load_lines X J ids (line # rest) =
     (if line = [] then load_lines X J ids rest
      else case from_json J line of
        Inl _ \<Rightarrow> load_lines X J ids rest
      | Inr item \<Rightarrow>
          (if valid_reference X item \<and> \<not> List.member ids (hi_id item)
           then item # load_lines X J (hi_id item # ids) rest
           else load_lines X J ids rest))"

text \<open>\<open>read_fails\<close>: a read error other than "not found".\<close>

definition load_items ::
  "crates \<Rightarrow> history_item json \<Rightarrow> bool \<Rightarrow> bytes option \<Rightarrow> history_error + history_item list" where
  "load_items X J read_fails contents =
     (if read_fails then Inl (HistoryIo ''history.jsonl'')
      else case contents of
        None \<Rightarrow> Inr []
      | Some bs \<Rightarrow> Inr (load_lines X J [] (split_on 10 bs)))"

text \<open>\<open>listing\<close> is what \<open>read_dir\<close> yields: each name with whether it is a file or a
  symbolic link.\<close>

fun cleanup_orphan_images ::
  "string list \<Rightarrow> (string \<Rightarrow> bool) \<Rightarrow> (string \<times> bool) list \<Rightarrow> fs \<Rightarrow> (history_error + unit) \<times> fs" where
  "cleanup_orphan_images referenced fails [] f = (Inr (), f)"
| "cleanup_orphan_images referenced fails ((name, is_file) # rest) f =
     (if \<not> is_file \<or> List.member referenced name
      then cleanup_orphan_images referenced fails rest f
      else case remove_file_if_exists fails name f of
        (Inl e, f') \<Rightarrow> (Inl e, f')
      | (Inr _, f') \<Rightarrow> cleanup_orphan_images referenced fails rest f')"

definition history_new ::
  "crates \<Rightarrow> history_item json \<Rightarrow> bool \<times> bool \<Rightarrow> (string \<Rightarrow> bool) \<Rightarrow> (string \<times> bool) list
   \<Rightarrow> history_disk \<Rightarrow> (history_error + history_store) \<times> history_disk" where
  "history_new X J fails remove_fails listing d =
     (if fst fails then (Inl (HistoryIo ''''), d)
      else case load_items X J (snd fails) (hd_metadata d) of
        Inl e \<Rightarrow> (Inl e, d)
      | Inr loaded \<Rightarrow>
          (let items = keep_last HISTORY_CAP loaded;
               referenced = List.map_filter (\<lambda>i. image_file_name (hi_kind i)) items in
           case cleanup_orphan_images referenced remove_fails listing (hd_images d) of
             (r, f) \<Rightarrow> (let d' = d\<lparr>hd_images := f\<rparr> in
                (case r of Inl e \<Rightarrow> Inl e | Inr _ \<Rightarrow> Inr \<lparr>hs_disk = d', hs_items = items\<rparr>, d'))))"

section \<open>Invariants\<close>

definition history_ok :: "crates \<Rightarrow> history_store \<Rightarrow> bool" where
  "history_ok X st \<longleftrightarrow> length (hs_items st) \<le> HISTORY_CAP \<and> distinct (map hi_id (hs_items st))
     \<and> list_all (valid_reference X) (hs_items st)"

text \<open>The metadata file decodes to the list in memory.\<close>

definition metadata_ok :: "crates \<Rightarrow> history_item json \<Rightarrow> history_store \<Rightarrow> bool" where
  "metadata_ok X J st \<longleftrightarrow>
     (case load_items X J False (hd_metadata (hs_disk st)) of
        Inl _ \<Rightarrow> False | Inr loaded \<Rightarrow> keep_last HISTORY_CAP loaded = hs_items st)"

text \<open>The image of every listed item is on disk.\<close>

definition images_ok :: "history_store \<Rightarrow> bool" where
  "images_ok st \<longleftrightarrow> list_all (\<lambda>item. case image_file_name (hi_kind item) of
      None \<Rightarrow> True | Some n \<Rightarrow> hd_images (hs_disk st) n \<noteq> None) (hs_items st)"

text \<open>The compact JSON writer emits a non-empty line without a raw newline.\<close>

definition jsonl_law :: "'a json \<Rightarrow> bool" where
  "jsonl_law J \<longleftrightarrow> json_law J \<and> (\<forall>v bs. to_json J v = Inr bs \<longrightarrow> bs \<noteq> [] \<and> 10 \<notin> set bs)"

text \<open>A temporary name \<open><id>.tmp-<id>\<close> is no image name.\<close>

definition tmp_apart :: "crates \<Rightarrow> history_faults \<Rightarrow> bool" where
  "tmp_apart X hf \<longleftrightarrow> hf_tmp hf \<notin> range (image_name X)"

section \<open>Facts\<close>

lemma split_on_line: "x \<notin> set l \<Longrightarrow> split_on x (l @ x # r) = l # split_on x r"
  by (induction l) auto

lemma load_lines_encode:
  assumes "jsonl_law J" and "encode_items J items = Inr bs"
    and "list_all (valid_reference X) items" and "distinct (map hi_id items)"
    and "set ids \<inter> hi_id ` set items = {}"
  shows "load_lines X J ids (split_on 10 bs) = items"
  using assms(2-)
proof (induction items arbitrary: bs ids)
  case (Cons item items)
  from Cons.prems(1) obtain e r where e: "to_json J item = Inr e" and r: "encode_items J items = Inr r"
    and bs: "bs = e @ 10 # r"
    by (auto simp: and_then_eq_Inr)
  from e assms(1) have "e \<noteq> []" "10 \<notin> set e" "from_json J e = Inr item"
    by (auto simp: jsonl_law_def json_law_def)
  moreover from Cons.IH [OF r, of "hi_id item # ids"] Cons.prems(2-)
  have "load_lines X J (hi_id item # ids) (split_on 10 r) = items" by auto
  ultimately show ?case using Cons.prems(2-) bs by (auto simp: split_on_line List.member_iff)
qed simp

lemma load_lines_ok:
  "list_all (valid_reference X) (load_lines X J ids ls)
   \<and> distinct (map hi_id (load_lines X J ids ls))
   \<and> set ids \<inter> hi_id ` set (load_lines X J ids ls) = {}"
  by (induction X J ids ls rule: load_lines.induct)
     (auto simp: List.member_iff split: sum.splits)

lemma history_write_outcome:
  "write_outcome_of history_style fault False \<noteq> Failed_after"
  by (auto simp: write_outcome_of_def history_style_def split: option.splits write_step.splits)

lemma history_persist_cases:
  assumes "history_persist J fault items d = (r, d')"
  obtains (failed) e where "r = Inl e" "d' = d"
  | (written) bs where "r = Inr ()" "encode_items J items = Inr bs" "d' = d\<lparr>hd_metadata := Some bs\<rparr>"
proof (cases "encode_items J items")
  case (Inl e)
  with assms have "r = Inl e" "d' = d" by (simp_all add: history_persist_def)
  then show thesis by (rule failed)
next
  case (Inr bs)
  with assms failed written history_write_outcome [of fault] show thesis
    by (cases "write_outcome_of history_style fault False") (auto simp: history_persist_def)
qed

lemma metadata_ok_written:
  assumes "jsonl_law J" and "encode_items J items = Inr bs" and "list_all (valid_reference X) items"
    and "distinct (map hi_id items)" and "length items \<le> HISTORY_CAP"
    and "hs_items st = items" and "hd_metadata (hs_disk st) = Some bs"
  shows "metadata_ok X J st"
  using load_lines_encode [OF assms(1-4), of "[]"] assms(5-)
  by (simp add: metadata_ok_def load_items_def)

lemma metadata_ok_iff:
  "metadata_ok X J st \<longleftrightarrow> (case hd_metadata (hs_disk st) of None \<Rightarrow> hs_items st = []
     | Some bs \<Rightarrow> keep_last HISTORY_CAP (load_lines X J [] (split_on 10 bs)) = hs_items st)"
  by (auto simp: metadata_ok_def load_items_def split: option.splits)

definition new_kind :: "crates \<Rightarrow> new_history_item \<Rightarrow> history_kind" where
  "new_kind X item = (case ni_content item of
     HText c \<Rightarrow> KindText c | HImage _ \<Rightarrow> KindImage (image_name X (ni_id item)))"

definition new_item :: "crates \<Rightarrow> new_history_item \<Rightarrow> history_item" where
  "new_item X item = \<lparr>hi_id = ni_id item, hi_ts_ms = ni_ts_ms item, hi_kind = new_kind X item,
     hi_source = ni_source item\<rparr>"

text \<open>The image that an addition to a full list evicts.\<close>

definition evicts :: "history_store \<Rightarrow> string \<Rightarrow> bool" where
  "evicts st n \<longleftrightarrow> length (hs_items st) = HISTORY_CAP
     \<and> image_file_name (hi_kind (hd (hs_items st))) = Some n"

definition history_ids :: "history_store \<Rightarrow> uuid set" where
  "history_ids st = hi_id ` set (hs_items st)"

lemma history_idsI: "x \<in> set (hs_items st) \<Longrightarrow> hi_id x \<in> history_ids st"
  by (simp add: history_ids_def)

lemma push_evict:
  assumes "length items \<le> HISTORY_CAP"
  shows "(if length (items @ [i]) > HISTORY_CAP then (tl (items @ [i]), Some (hd (items @ [i])))
          else (items @ [i], None))
       = (keep_last HISTORY_CAP (items @ [i]),
          if length items = HISTORY_CAP then Some (hd items) else None)"
proof (cases "length items = HISTORY_CAP")
  case True
  then obtain a rest where items: "items = a # rest" by (cases items) (auto simp: HISTORY_CAP_def)
  with True have "keep_last HISTORY_CAP (items @ [i]) = rest @ [i]" by (simp add: keep_last_def)
  with True items show ?thesis by simp
next
  case False
  with assms show ?thesis by simp
qed

lemma store_image_Inr:
  assumes "store_image X hf item f = (Inr (kind, p), f')"
  shows "kind = new_kind X item" and "p = image_file_name (new_kind X item)"
    and "n \<noteq> hf_tmp hf \<Longrightarrow> p \<noteq> Some n \<Longrightarrow> f' n = f n"
    and "ni_content item = HImage bs \<Longrightarrow> hf_tmp hf \<noteq> image_name X (ni_id item) \<Longrightarrow>
       f' (image_name X (ni_id item)) = Some bs"
  using assms
  by (auto simp: store_image_def new_kind_def atomic_write_unfold history_style_def Let_def
      split: history_content.splits option.splits write_step.splits if_splits)

lemma store_image_frame:
  assumes "store_image X hf item f = (r, f')" "n \<noteq> hf_tmp hf" "n \<noteq> image_name X (ni_id item)"
  shows "f' n = f n"
  using assms
  by (auto simp: store_image_def atomic_write_unfold history_style_def Let_def
      split: history_content.splits option.splits write_step.splits if_splits)

lemma store_image_name: "image_file_name (new_kind X item) = Some n \<Longrightarrow> n = image_name X (ni_id item)"
  by (auto simp: new_kind_def split: history_content.splits)

text \<open>The body of \<open>history_add\<close> for a new id, with the list operations in closed form.\<close>

lemma history_add_new:
  assumes "length (hs_items st) \<le> HISTORY_CAP" and "ni_id item \<notin> history_ids st"
  shows "history_add X J hf item st =
    (case store_image X hf item (hd_images (hs_disk st)) of
        (Inl e, f) \<Rightarrow> (Inl e, st\<lparr>hs_disk := (hs_disk st)\<lparr>hd_images := f\<rparr>\<rparr>)
      | (Inr (kind, image_path), f) \<Rightarrow>
          (let updated = keep_last HISTORY_CAP (hs_items st @ [new_item X item]) in
           case history_persist J (hf_metadata hf) updated ((hs_disk st)\<lparr>hd_images := f\<rparr>) of
             (Inl e, d') \<Rightarrow> (Inl e, st\<lparr>hs_disk := (case image_path of
                 Some p \<Rightarrow> if hf_undo_fails hf then d' else d'\<lparr>hd_images := (hd_images d')(p := None)\<rparr>
               | None \<Rightarrow> d')\<rparr>)
           | (Inr _, d') \<Rightarrow>
               (case Option.bind (if length (hs_items st) = HISTORY_CAP then Some (hd (hs_items st)) else None)
                  (\<lambda>v. image_file_name (hi_kind v)) of
                  None \<Rightarrow> (Inr (), st\<lparr>hs_disk := d', hs_items := updated\<rparr>)
                | Some file_name \<Rightarrow>
                    (case remove_file_if_exists (hf_remove_fails hf) file_name (hd_images d') of
                       (r, f') \<Rightarrow> (r, st\<lparr>hs_disk := d'\<lparr>hd_images := f'\<rparr>, hs_items := updated\<rparr>)))))"
proof -
  have "\<not> list_ex (\<lambda>existing. hi_id existing = ni_id item) (hs_items st)"
    using assms(2) unfolding list_ex_iff history_ids_def by (metis image_eqI)
  moreover obtain r f where img: "store_image X hf item (hd_images (hs_disk st)) = (r, f)" by fastforce
  moreover have "r = Inr (kind, p) \<Longrightarrow> kind = new_kind X item" for kind p
    using img store_image_Inr(1) by blast
  ultimately show ?thesis
    unfolding history_add_def Let_def push_evict [OF assms(1)]
    by (cases r) (auto simp: new_item_def split: prod.split sum.split option.split)
qed

lemma history_add_duplicate:
  "ni_id item \<in> history_ids st \<Longrightarrow> history_add X J hf item st = (Inr (), st)"
  by (auto simp: history_add_def history_ids_def list_ex_iff)

lemma history_add_cases:
  assumes "length (hs_items st) \<le> HISTORY_CAP" and "ni_id item \<notin> history_ids st"
    and "history_add X J hf item st = (r, st')"
  obtains (kept) e where "r = Inl e" "hs_items st' = hs_items st"
      "hd_metadata (hs_disk st') = hd_metadata (hs_disk st)"
      "\<And>n. n \<noteq> hf_tmp hf \<Longrightarrow> n \<noteq> image_name X (ni_id item) \<Longrightarrow>
         hd_images (hs_disk st') n = hd_images (hs_disk st) n"
  | (added) bs where "hs_items st' = keep_last HISTORY_CAP (hs_items st @ [new_item X item])"
      "encode_items J (hs_items st') = Inr bs" "hd_metadata (hs_disk st') = Some bs"
      "\<And>n. n \<noteq> hf_tmp hf \<Longrightarrow> \<not> evicts st n \<Longrightarrow> image_file_name (new_kind X item) \<noteq> Some n \<Longrightarrow>
         hd_images (hs_disk st') n = hd_images (hs_disk st) n"
      "\<And>img. ni_content item = HImage img \<Longrightarrow> hf_tmp hf \<noteq> image_name X (ni_id item) \<Longrightarrow>
         \<not> evicts st (image_name X (ni_id item)) \<Longrightarrow>
         hd_images (hs_disk st') (image_name X (ni_id item)) = Some img"
proof -
  let ?up = "keep_last HISTORY_CAP (hs_items st @ [new_item X item])"
  obtain q f where img: "store_image X hf item (hd_images (hs_disk st)) = (q, f)" by fastforce
  note eq = assms(3) [unfolded history_add_new [OF assms(1,2)] img Let_def]
  show thesis
  proof (cases q)
    case (Inl e)
    with eq have "r = Inl e" "st' = st\<lparr>hs_disk := (hs_disk st)\<lparr>hd_images := f\<rparr>\<rparr>" by simp_all
    then show thesis using store_image_frame [OF img] by (intro kept) simp_all
  next
    case (Inr kp)
    obtain kind p where kp: "kp = (kind, p)" by fastforce
    note si = store_image_Inr [OF img [unfolded Inr kp]]
    obtain w d where hp: "history_persist J (hf_metadata hf) ?up ((hs_disk st)\<lparr>hd_images := f\<rparr>) = (w, d)"
      by fastforce
    note eq = eq [unfolded Inr kp, simplified, unfolded hp]
    from hp show thesis
    proof (cases rule: history_persist_cases)
      case (failed e)
      with eq have "r = Inl e" "hs_items st' = hs_items st"
        "hd_metadata (hs_disk st') = hd_metadata (hs_disk st)"
        by (auto split: option.splits if_splits)
      moreover have "hd_images (hs_disk st') n = hd_images (hs_disk st) n"
        if "n \<noteq> hf_tmp hf" "n \<noteq> image_name X (ni_id item)" for n
        using eq failed that si(2) store_image_frame [OF img that] store_image_name
        by (auto split: option.splits if_splits)
      ultimately show thesis by (rule kept)
    next
      case (written bs)
      let ?ev = "Option.bind (if length (hs_items st) = HISTORY_CAP then Some (hd (hs_items st)) else None)
                  (\<lambda>v. image_file_name (hi_kind v))"
      have ev: "?ev = Some n \<longleftrightarrow> evicts st n" for n by (simp add: evicts_def)
      have st': "hs_items st' = ?up" "hd_metadata (hs_disk st') = Some bs"
        and im: "\<not> evicts st n \<Longrightarrow> hd_images (hs_disk st') n = f n" for n
        using eq written ev [of n]
        by (auto simp: remove_file_if_exists_def split: option.splits prod.splits if_splits)
      show thesis
        by (rule added) (use st' written im si in simp_all)
    qed
  qed
qed

lemma image_name_inject: "uuid_law X \<Longrightarrow> image_name X i = image_name X j \<longleftrightarrow> i = j"
  by (simp add: image_name_def uuid_to_string_inject)

lemma valid_reference_new [simp]: "valid_reference X (new_item X item)"
  by (auto simp: valid_reference_def new_item_def new_kind_def split: history_content.splits)

lemma new_item_id [simp]: "hi_id (new_item X item) = ni_id item"
  by (simp add: new_item_def)

lemma pushed_ok:
  assumes "history_ok X st" and "ni_id item \<notin> history_ids st"
    and "hs_items st' = keep_last HISTORY_CAP (hs_items st @ [new_item X item])"
  shows "history_ok X st'"
proof -
  let ?all = "hs_items st @ [new_item X item]"
  have "distinct (map hi_id ?all)" "list_all (valid_reference X) ?all"
    using assms(1,2) by (auto simp: history_ok_def history_ids_def)
  then show ?thesis unfolding history_ok_def assms(3)
    using set_keep_last [of HISTORY_CAP ?all] distinct_keep_last [of "map hi_id ?all" HISTORY_CAP]
    unfolding list_all_iff keep_last_def by (simp only: drop_map length_map) auto
qed

lemma pushed_present:
  assumes "hs_items st' = keep_last HISTORY_CAP (hs_items st @ [new_item X item])"
  shows "ni_id item \<in> history_ids st'"
  using assms by (simp add: history_ids_def HISTORY_CAP_def)

lemma history_ok_cap: "history_ok X st \<Longrightarrow> length (hs_items st) \<le> HISTORY_CAP"
  by (simp add: history_ok_def)

lemma history_add_ok:
  assumes "history_ok X st" shows "history_ok X (snd (history_add X J hf item st))"
proof (cases "ni_id item \<in> history_ids st")
  case True
  with assms show ?thesis by (simp add: history_add_duplicate)
next
  case False
  obtain r st' where run: "history_add X J hf item st = (r, st')" by fastforce
  from history_ok_cap [OF assms] False run have "history_ok X st'"
  proof (cases rule: history_add_cases)
    case (kept e)
    with assms show ?thesis by (simp add: history_ok_def)
  next
    case (added bs)
    with pushed_ok [OF assms False] show ?thesis by simp
  qed
  with run show ?thesis by simp
qed

lemma history_add_present:
  assumes "history_ok X st" and "fst (history_add X J hf item st) = Inr ()"
  shows "ni_id item \<in> history_ids (snd (history_add X J hf item st))"
proof (cases "ni_id item \<in> history_ids st")
  case True
  then show ?thesis by (simp add: history_add_duplicate)
next
  case False
  obtain r st' where run: "history_add X J hf item st = (r, st')" by fastforce
  from history_ok_cap [OF assms(1)] False run show ?thesis
    by (cases rule: history_add_cases) (use assms run pushed_present in simp_all)
qed

lemma history_add_metadata:
  assumes "jsonl_law J" and "history_ok X st" and "metadata_ok X J st"
  shows "metadata_ok X J (snd (history_add X J hf item st))"
proof (cases "ni_id item \<in> history_ids st")
  case True
  with assms show ?thesis by (simp add: history_add_duplicate)
next
  case False
  obtain r st' where run: "history_add X J hf item st = (r, st')" by fastforce
  have ok: "history_ok X st'" using history_add_ok [OF assms(2), of J hf item] run by simp
  from history_ok_cap [OF assms(2)] False run have "metadata_ok X J st'"
  proof (cases rule: history_add_cases)
    case (kept e)
    with assms(3) show ?thesis by (simp add: metadata_ok_def split: sum.splits)
  next
    case (added bs)
    with ok show ?thesis by (intro metadata_ok_written [OF assms(1)]) (auto simp: history_ok_def)
  qed
  with run show ?thesis by simp
qed

lemma evicts_apart:
  assumes "uuid_law X" "history_ok X st" "evicts st n" "item \<in> set (tl (hs_items st))"
    "image_file_name (hi_kind item) = Some m"
  shows "m \<noteq> n"
proof
  assume eq: "m = n"
  obtain a rest where items: "hs_items st = a # rest"
    using assms(3) by (cases "hs_items st") (auto simp: evicts_def HISTORY_CAP_def)
  with assms(2-5) eq have "image_name X (hi_id a) = image_name X (hi_id item)"
    by (auto simp: history_ok_def evicts_def valid_reference_def list_all_iff)
  then have "hi_id a = hi_id item" using image_name_inject [OF assms(1)] by blast
  with assms(2,4) items show False by (auto simp: history_ok_def)
qed

lemma listed_image:
  "history_ok X st \<Longrightarrow> x \<in> set (hs_items st) \<Longrightarrow> image_file_name (hi_kind x) = Some n \<Longrightarrow>
     n = image_name X (hi_id x)"
  by (auto simp: history_ok_def list_all_iff valid_reference_def)

lemma pushed_cases:
  assumes "x \<in> set (keep_last HISTORY_CAP (items @ [i]))" and "length items \<le> HISTORY_CAP"
  shows "x = i \<or> (if length items = HISTORY_CAP then x \<in> set (tl items) else x \<in> set items)"
proof (cases "length items = HISTORY_CAP")
  case True
  then have "keep_last HISTORY_CAP (items @ [i]) = tl items @ [i]"
    by (cases items) (auto simp: keep_last_def HISTORY_CAP_def)
  with assms(1) True show ?thesis by auto
next
  case False
  with assms show ?thesis by auto
qed

lemma history_add_image_frame:
  assumes "uuid_law X" and "tmp_apart X hf" and ok: "history_ok X st"
    and fresh: "ni_id item \<notin> history_ids st" and run: "history_add X J hf item st = (r, st')"
    and x: "x \<in> set (hs_items st')" "x \<in> set (hs_items st)" and n: "image_file_name (hi_kind x) = Some n"
  shows "hd_images (hs_disk st') n = hd_images (hs_disk st) n"
proof -
  have name: "n = image_name X (hi_id x)" using listed_image [OF ok x(2) n] .
  have ids: "hi_id x \<noteq> ni_id item" using fresh history_idsI [OF x(2)] by auto
  have tmp: "n \<noteq> hf_tmp hf" using assms(2) name unfolding tmp_apart_def by (metis rangeI)
  have other: "n \<noteq> image_name X (ni_id item)"
    using name ids image_name_inject [OF assms(1)] by simp
  from history_ok_cap [OF ok] fresh run show ?thesis
  proof (cases rule: history_add_cases)
    case (kept e)
    with tmp other show ?thesis by simp
  next
    case (added bs)
    have "x \<noteq> new_item X item" using ids by auto
    then have "\<not> evicts st n"
      using pushed_cases [OF x(1) [unfolded added(1)] history_ok_cap [OF ok]]
        evicts_apart [OF assms(1) ok _ _ n] by (auto simp: evicts_def)
    moreover have "image_file_name (new_kind X item) \<noteq> Some n"
      using other store_image_name by blast
    ultimately show ?thesis using added(4) tmp by blast
  qed
qed

lemma history_add_new_image:
  assumes "uuid_law X" and "tmp_apart X hf" and ok: "history_ok X st"
    and fresh: "ni_id item \<notin> history_ids st" and run: "history_add X J hf item st = (r, st')"
    and "new_item X item \<in> set (hs_items st')" and "ni_content item = HImage img"
  shows "hd_images (hs_disk st') (image_name X (ni_id item)) = Some img"
proof -
  have tmp: "hf_tmp hf \<noteq> image_name X (ni_id item)"
    using assms(2) unfolding tmp_apart_def by (metis rangeI)
  from history_ok_cap [OF ok] fresh run show ?thesis
  proof (cases rule: history_add_cases)
    case (kept e)
    with assms(6) fresh show ?thesis by (force simp: history_ids_def)
  next
    case (added bs)
    have "\<not> evicts st (image_name X (ni_id item))"
    proof
      assume ev: "evicts st (image_name X (ni_id item))"
      then obtain a rest where a: "hs_items st = a # rest"
        by (cases "hs_items st") (auto simp: evicts_def HISTORY_CAP_def)
      with ev have "image_file_name (hi_kind a) = Some (image_name X (ni_id item))"
        by (simp add: evicts_def)
      from listed_image [OF ok _ this] a have "hi_id a = ni_id item"
        by (simp add: image_name_inject [OF assms(1)])
      with fresh a show False by (simp add: history_ids_def)
    qed
    with added(5) assms(7) tmp show ?thesis by blast
  qed
qed

lemma history_add_images:
  assumes "uuid_law X" and "tmp_apart X hf" and ok: "history_ok X st" and img: "images_ok st"
  shows "images_ok (snd (history_add X J hf item st))"
proof (cases "ni_id item \<in> history_ids st")
  case True
  with img show ?thesis by (simp add: history_add_duplicate)
next
  case False
  obtain r st' where run: "history_add X J hf item st = (r, st')" by fastforce
  have "hd_images (hs_disk st') n \<noteq> None"
    if x: "x \<in> set (hs_items st')" and n: "image_file_name (hi_kind x) = Some n" for x n
  proof (cases "x \<in> set (hs_items st)")
    case True
    with img n have "hd_images (hs_disk st) n \<noteq> None" by (auto simp: images_ok_def list_all_iff)
    then show ?thesis using history_add_image_frame [OF assms(1-3) False run x True n] by simp
  next
    case old: False
    have new: "x = new_item X item"
      using history_ok_cap [OF ok] False run
    proof (cases rule: history_add_cases)
      case (added bs)
      then show ?thesis using x old set_keep_last [of HISTORY_CAP "hs_items st @ [new_item X item]"] by auto
    qed (use x old in simp)
    with n obtain b where b: "ni_content item = HImage b" and "n = image_name X (ni_id item)"
      by (auto simp: new_item_def new_kind_def split: history_content.splits)
    then show ?thesis using history_add_new_image [OF assms(1-3) False run _ b] x new by simp
  qed
  with run show ?thesis by (auto simp: images_ok_def list_all_iff split: option.splits)
qed

text \<open>Promotion, clearing and start-up.\<close>

lemma position_Some:
  "position P xs = Some i \<Longrightarrow> i < length xs \<and> P (xs ! i) \<and> (\<forall>j < i. \<not> P (xs ! j))"
proof (induction xs arbitrary: i)
  case (Cons x xs)
  then show ?case by (cases "P x") (auto simp: less_Suc_eq_0_disj)
qed simp

lemma position_None: "position P xs = None \<longleftrightarrow> (\<forall>x \<in> set xs. \<not> P x)"
  by (induction xs) auto

definition promoted :: "uuid \<Rightarrow> history_item list \<Rightarrow> history_item list" where
  "promoted i = map (\<lambda>x. if hi_id x = i \<and> hi_source x = RemoteDeferred
                         then x\<lparr>hi_source := Remote\<rparr> else x)"

lemma promoted_update:
  assumes "distinct (map hi_id items)" and "k < length items" and "hi_source (items ! k) = RemoteDeferred"
  shows "items[k := (items ! k)\<lparr>hi_source := Remote\<rparr>] = promoted (hi_id (items ! k)) items"
proof (rule nth_equalityI)
  fix j assume "j < length (items[k := (items ! k)\<lparr>hi_source := Remote\<rparr>])"
  then have j: "j < length items" by simp
  have "j \<noteq> k \<Longrightarrow> hi_id (items ! j) \<noteq> hi_id (items ! k)"
    using assms(1,2) j nth_eq_iff_index_eq [of "map hi_id items" j k] by auto
  then show "items[k := (items ! k)\<lparr>hi_source := Remote\<rparr>] ! j = promoted (hi_id (items ! k)) items ! j"
    using assms j by (cases "j = k") (auto simp: promoted_def)
qed (simp add: promoted_def)

lemma promoted_none:
  assumes "distinct (map hi_id items)" and "k < length items" and "hi_source (items ! k) \<noteq> RemoteDeferred"
  shows "promoted (hi_id (items ! k)) items = items"
proof -
  have "x \<in> set items \<Longrightarrow> hi_id x = hi_id (items ! k) \<Longrightarrow> x = items ! k" for x
    using assms(1,2) by (metis distinct_map inj_onD nth_mem)
  with assms(3) show ?thesis unfolding promoted_def by (intro map_idI) auto
qed

lemma promoted_simps [simp]:
  "map hi_id (promoted i items) = map hi_id items" "length (promoted i items) = length items"
  "map (image_file_name \<circ> hi_kind) (promoted i items) = map (image_file_name \<circ> hi_kind) items"
  by (auto simp: promoted_def)

lemma valid_reference_source [simp]:
  "valid_reference X (x\<lparr>hi_source := s\<rparr>) = valid_reference X x"
  by (simp add: valid_reference_def split: option.splits)

lemma valid_reference_promoted [simp]:
  "list_all (valid_reference X) (promoted i items) = list_all (valid_reference X) items"
  by (induction items) (auto simp: promoted_def)

lemma source_transition_Remote: "source_transition s Remote \<longleftrightarrow> s = RemoteDeferred"
  by (cases s) simp_all

lemma set_source_found:
  assumes "position (\<lambda>item. hi_id item = i) (hs_items st) = Some k"
  shows "set_source J hf i Remote st =
    (if hi_source (hs_items st ! k) = RemoteDeferred then
       (case history_persist J (hf_metadata hf)
           ((hs_items st)[k := (hs_items st ! k)\<lparr>hi_source := Remote\<rparr>]) (hs_disk st) of
          (Inl e, d) \<Rightarrow> (Inl e, st\<lparr>hs_disk := d\<rparr>)
        | (Inr _, d) \<Rightarrow> (Inr (), st\<lparr>hs_disk := d,
            hs_items := (hs_items st)[k := (hs_items st ! k)\<lparr>hi_source := Remote\<rparr>]\<rparr>))
     else (Inr (), st))"
  using assms by (simp add: set_source_def source_transition_Remote Let_def)

lemma set_source_cases:
  assumes "history_ok X st" and "set_source J hf i Remote st = (r, st')"
  obtains (unknown) "i \<notin> history_ids st" "r = Inl (UnknownItem i)" "st' = st"
  | (failed) e where "i \<in> history_ids st" "r = Inl e" "st' = st"
  | (unchanged) "i \<in> history_ids st" "r = Inr ()" "st' = st" "hs_items st = promoted i (hs_items st)"
  | (stored) bs where "i \<in> history_ids st" "r = Inr ()" "hs_items st' = promoted i (hs_items st)"
      "encode_items J (hs_items st') = Inr bs" "hd_metadata (hs_disk st') = Some bs"
      "hd_images (hs_disk st') = hd_images (hs_disk st)"
proof (cases "position (\<lambda>item. hi_id item = i) (hs_items st)")
  case None
  then have "i \<notin> history_ids st" by (auto simp: position_None history_ids_def)
  moreover have "r = Inl (UnknownItem i)" "st' = st" using None assms(2) by (simp_all add: set_source_def)
  ultimately show thesis by (rule unknown)
next
  case (Some k)
  note k = position_Some [OF this]
  then have i: "i \<in> history_ids st" "hi_id (hs_items st ! k) = i"
    using history_idsI [of "hs_items st ! k" st] by auto
  have d: "distinct (map hi_id (hs_items st))" using assms(1) by (simp add: history_ok_def)
  show thesis
  proof (cases "hi_source (hs_items st ! k) = RemoteDeferred")
    case False
    then have "r = Inr ()" "st' = st" using assms(2) unfolding set_source_found [OF Some] by simp_all
    moreover have "hs_items st = promoted i (hs_items st)"
      using promoted_none [OF d _ False] k i(2) by simp
    ultimately show thesis by (intro unchanged i(1))
  next
    case True
    let ?up = "promoted i (hs_items st)"
    obtain w dd where hp: "history_persist J (hf_metadata hf) ?up (hs_disk st) = (w, dd)" by fastforce
    have up: "(hs_items st)[k := (hs_items st ! k)\<lparr>hi_source := Remote\<rparr>] = ?up"
      using promoted_update [OF d _ True] k i(2) by simp
    note run = assms(2) [unfolded set_source_found [OF Some] up hp, unfolded True]
    from hp show thesis
    proof (cases rule: history_persist_cases)
      case pf: (failed e)
      with run have "r = Inl e" "st' = st" by simp_all
      with i(1) show thesis by (rule failed)
    next
      case (written bs)
      with run have "r = Inr ()" "st' = st\<lparr>hs_disk := dd, hs_items := ?up\<rparr>" by simp_all
      then show thesis using i(1) written by (intro stored) simp_all
    qed
  qed
qed

lemma set_source_ok:
  assumes "history_ok X st" shows "history_ok X (snd (set_source J hf i Remote st))"
proof -
  obtain r st' where run: "set_source J hf i Remote st = (r, st')" by fastforce
  from assms run have "history_ok X st'"
    by (cases rule: set_source_cases) (use assms in \<open>auto simp: history_ok_def\<close>)
  with run show ?thesis by simp
qed

lemma set_source_metadata:
  assumes "jsonl_law J" "history_ok X st" "metadata_ok X J st"
  shows "metadata_ok X J (snd (set_source J hf i Remote st))"
proof -
  obtain r st' where run: "set_source J hf i Remote st = (r, st')" by fastforce
  from assms(2) run have "metadata_ok X J st'"
  proof (cases rule: set_source_cases)
    case (stored bs)
    then show ?thesis using assms(2)
      by (intro metadata_ok_written [OF assms(1) stored(4)]) (auto simp: history_ok_def)
  qed (use assms(3) in simp_all)
  with run show ?thesis by simp
qed

lemma images_ok_cong:
  assumes "map (image_file_name \<circ> hi_kind) (hs_items st') = map (image_file_name \<circ> hi_kind) (hs_items st)"
    and "hd_images (hs_disk st') = hd_images (hs_disk st)"
  shows "images_ok st' \<longleftrightarrow> images_ok st"
proof -
  have *: "images_ok s \<longleftrightarrow> list_all (\<lambda>m. case m of None \<Rightarrow> True | Some n \<Rightarrow> hd_images (hs_disk s) n \<noteq> None)
      (map (image_file_name \<circ> hi_kind) (hs_items s))" for s
    by (simp add: images_ok_def list.pred_map comp_def)
  show ?thesis unfolding * assms ..
qed

lemma set_source_images:
  assumes "history_ok X st" "images_ok st" shows "images_ok (snd (set_source J hf i Remote st))"
proof -
  obtain r st' where run: "set_source J hf i Remote st = (r, st')" by fastforce
  from assms(1) run have "images_ok st'"
    by (cases rule: set_source_cases) (use assms(2) images_ok_cong [of st' st] in simp_all)
  with run show ?thesis by simp
qed

lemma history_clear_cases:
  assumes "history_clear J hf st = (r, st')"
  obtains (failed) e where "r = Inl e" "st' = st"
  | (cleared) bs where "hs_items st' = []" "encode_items J [] = Inr bs"
      "hd_metadata (hs_disk st') = Some bs"
proof -
  obtain w d where hp: "history_persist J (hf_metadata hf) [] (hs_disk st) = (w, d)" by fastforce
  note run = assms [unfolded history_clear_def Let_def hp]
  from hp show thesis
  proof (cases rule: history_persist_cases)
    case f: (failed e)
    with run have "r = Inl e" "st' = st" by simp_all
    then show thesis by (rule failed)
  next
    case (written bs)
    with run have "hs_items st' = []" "hd_metadata (hs_disk st') = Some bs"
      by (auto split: prod.splits)
    with written show thesis by (intro cleared)
  qed
qed

lemma history_clear_invariants:
  assumes "history_ok X st" and "metadata_ok X J st" and "images_ok st" and "jsonl_law J"
  shows "history_ok X (snd (history_clear J hf st))" "metadata_ok X J (snd (history_clear J hf st))"
    "images_ok (snd (history_clear J hf st))"
proof -
  obtain r st' where run: "history_clear J hf st = (r, st')" by fastforce
  from run have "history_ok X st' \<and> metadata_ok X J st' \<and> images_ok st'"
  proof (cases rule: history_clear_cases)
    case (cleared bs)
    then show ?thesis using metadata_ok_written [OF assms(4) cleared(2), of X st']
      by (simp add: history_ok_def images_ok_def)
  qed (use assms in simp)
  with run show "history_ok X (snd (history_clear J hf st))"
    "metadata_ok X J (snd (history_clear J hf st))" "images_ok (snd (history_clear J hf st))"
    by simp_all
qed

lemma cleanup_keeps:
  "cleanup_orphan_images refs fails listing f = (r, f') \<Longrightarrow> n \<in> set refs \<Longrightarrow> f' n = f n"
  by (induction refs fails listing f rule: cleanup_orphan_images.induct)
     (auto simp: remove_file_if_exists_def split: if_splits)

lemma cleanup_shrinks:
  "cleanup_orphan_images refs fails listing f = (r, f') \<Longrightarrow> f n = None \<Longrightarrow> f' n = None"
  by (induction refs fails listing f rule: cleanup_orphan_images.induct)
     (auto simp: remove_file_if_exists_def split: if_splits)

lemma cleanup_removes:
  assumes "cleanup_orphan_images refs fails listing f = (Inr u, f')" and "(n, True) \<in> set listing"
    and "n \<notin> set refs"
  shows "f' n = None"
  using assms
proof (induction refs fails listing f rule: cleanup_orphan_images.induct)
  case (2 refs fails name is_file rest f)
  show ?case
  proof (cases "\<not> is_file \<or> name \<in> set refs")
    case True
    with 2 show ?thesis by (auto simp: List.member_iff)
  next
    case False
    with "2.prems"(1) have rest: "\<not> fails name"
        "cleanup_orphan_images refs fails rest (f(name := None)) = (Inr u, f')"
      by (auto simp: remove_file_if_exists_def split: if_splits)
    show ?thesis
    proof (cases "n = name")
      case True
      with cleanup_shrinks [OF rest(2), of n] show ?thesis by simp
    next
      case False
      with 2 rest \<open>\<not> (\<not> is_file \<or> name \<in> set refs)\<close> show ?thesis
        by (auto simp: remove_file_if_exists_def fun_upd_def)
    qed
  qed
qed simp

text \<open>Opening a directory.\<close>

definition referenced_images :: "history_item list \<Rightarrow> string list" where
  "referenced_images items = List.map_filter (\<lambda>i. image_file_name (hi_kind i)) items"

lemma set_referenced: "n \<in> set (referenced_images items) \<longleftrightarrow>
    (\<exists>x \<in> set items. image_file_name (hi_kind x) = Some n)"
  by (force simp: referenced_images_def List.map_filter_def)

lemma history_new_items:
  assumes "history_new X J fails rf listing d = (r, d')"
  shows "hd_metadata d' = hd_metadata d"
    and "r = Inr st' \<Longrightarrow> hs_disk st' = d' \<and> history_ok X st' \<and> metadata_ok X J st'"
proof -
  show "hd_metadata d' = hd_metadata d"
    using assms by (auto simp: history_new_def Let_def split: if_splits sum.splits prod.splits)
  assume r: "r = Inr st'"
  then obtain loaded where l: "load_items X J False (hd_metadata d) = Inr loaded"
    and st': "hs_items st' = keep_last HISTORY_CAP loaded" "hs_disk st' = d'"
    using assms by (auto simp: history_new_def load_items_def Let_def
        split: if_splits sum.splits prod.splits option.splits)
  have "list_all (valid_reference X) loaded \<and> distinct (map hi_id loaded)"
    using l load_lines_ok [of X J "[]"] by (auto simp: load_items_def split: option.splits)
  then have "history_ok X st'"
    using set_keep_last [of HISTORY_CAP loaded] distinct_keep_last [of "map hi_id loaded" HISTORY_CAP]
    unfolding history_ok_def st' list_all_iff keep_last_def by (simp only: drop_map length_map) auto
  moreover have "metadata_ok X J st'"
    using l st' \<open>hd_metadata d' = hd_metadata d\<close> by (simp add: metadata_ok_def)
  ultimately show "hs_disk st' = d' \<and> history_ok X st' \<and> metadata_ok X J st'" using st' by simp
qed

lemma history_new_images:
  assumes "history_new X J fails rf listing d = (r, d')"
    and "load_items X J False (hd_metadata d) = Inr loaded"
  shows "n \<in> set (referenced_images (keep_last HISTORY_CAP loaded)) \<Longrightarrow> hd_images d' n = hd_images d n"
    and "is_ok r \<Longrightarrow> (n, True) \<in> set listing \<Longrightarrow>
       n \<notin> set (referenced_images (keep_last HISTORY_CAP loaded)) \<Longrightarrow> hd_images d' n = None"
proof -
  let ?refs = "referenced_images (keep_last HISTORY_CAP loaded)"
  obtain q f where c: "cleanup_orphan_images ?refs rf listing (hd_images d) = (q, f)" by fastforce
  have d': "d' = d \<or> hd_images d' = f" and r: "is_ok r \<Longrightarrow> is_ok q \<and> hd_images d' = f"
    using assms c by (auto simp: history_new_def load_items_def referenced_images_def Let_def
        split: if_splits sum.splits prod.splits option.splits)
  show "n \<in> set ?refs \<Longrightarrow> hd_images d' n = hd_images d n"
    using d' cleanup_keeps [OF c] by auto
  show "is_ok r \<Longrightarrow> (n, True) \<in> set listing \<Longrightarrow> n \<notin> set ?refs \<Longrightarrow> hd_images d' n = None"
    using r cleanup_removes [of ?refs rf listing "hd_images d" _ f n] c by (auto simp: is_ok_iff)
qed

lemma cleanup_succeeds: "fst (cleanup_orphan_images refs (\<lambda>_. False) listing f) = Inr ()"
  by (induction refs "\<lambda>_::string. False" listing f rule: cleanup_orphan_images.induct)
     (auto simp: remove_file_if_exists_def)

lemma history_new_succeeds:
  "\<exists>st d'. history_new X J (False, False) (\<lambda>_. False) listing d = (Inr st, d')"
proof -
  obtain l where l: "load_items X J False (hd_metadata d) = Inr l"
    by (cases "hd_metadata d") (simp_all add: load_items_def)
  let ?c = "cleanup_orphan_images (List.map_filter (\<lambda>i. image_file_name (hi_kind i)) (keep_last HISTORY_CAP l))
      (\<lambda>_. False) listing (hd_images d)"
  have "?c = (Inr (), snd ?c)" using cleanup_succeeds by (metis prod.collapse)
  then show ?thesis using l by (cases ?c) (simp add: history_new_def Let_def)
qed

section \<open>Histories reachable by the operations\<close>

text \<open>Every history that a process can hold: it starts with an empty directory, runs the
  operations with any failures, and may be reopened from its files at any time. After a failed
  reopening the files are those it left.\<close>

definition empty_history :: history_store where
  "empty_history = \<lparr>hs_disk = \<lparr>hd_metadata = None, hd_images = Map.empty\<rparr>, hs_items = []\<rparr>"

inductive history_reach :: "crates \<Rightarrow> history_item json \<Rightarrow> history_store \<Rightarrow> bool"
  for X J where
  reach_empty: "history_reach X J empty_history"
| reach_add: "history_reach X J st \<Longrightarrow> tmp_apart X hf \<Longrightarrow>
    history_reach X J (snd (history_add X J hf item st))"
| reach_set_source: "history_reach X J st \<Longrightarrow> history_reach X J (snd (set_source J hf i Remote st))"
| reach_clear: "history_reach X J st \<Longrightarrow> history_reach X J (snd (history_clear J hf st))"
| reach_reopen: "history_reach X J st \<Longrightarrow>
    history_new X J fails rf listing (hs_disk st) = (Inr st', d) \<Longrightarrow> history_reach X J st'"
| reach_reopen_failed: "history_reach X J st \<Longrightarrow>
    history_new X J fails rf listing (hs_disk st) = (Inl e, d) \<Longrightarrow> history_reach X J (st\<lparr>hs_disk := d\<rparr>)"

definition history_inv :: "crates \<Rightarrow> history_item json \<Rightarrow> history_store \<Rightarrow> bool" where
  "history_inv X J st \<longleftrightarrow> history_ok X st \<and> metadata_ok X J st \<and> images_ok st"

lemma metadata_ok_load:
  "metadata_ok X J st \<Longrightarrow> \<exists>loaded. load_items X J False (hd_metadata (hs_disk st)) = Inr loaded
     \<and> hs_items st = keep_last HISTORY_CAP loaded"
  by (auto simp: metadata_ok_def split: sum.splits)

lemma reopen_images:
  assumes "metadata_ok X J st" and "history_new X J fails rf listing (hs_disk st) = (r, d)"
    and "n \<in> set (referenced_images (hs_items st))"
  shows "hd_images d n = hd_images (hs_disk st) n"
  using metadata_ok_load [OF assms(1)] history_new_images(1) [OF assms(2)] assms(3) by force

lemma images_ok_transfer:
  assumes "images_ok st" and "hs_items st' = hs_items st"
    and "\<And>n. n \<in> set (referenced_images (hs_items st)) \<Longrightarrow>
       hd_images (hs_disk st') n = hd_images (hs_disk st) n"
  shows "images_ok st'"
  using assms by (fastforce simp: images_ok_def list_all_iff set_referenced split: option.splits)

lemma reopen_items:
  assumes "metadata_ok X J st" and "history_new X J fails rf listing (hs_disk st) = (Inr st', d)"
  shows "hs_items st' = hs_items st"
proof -
  obtain l where l: "load_items X J False (hd_metadata (hs_disk st)) = Inr l"
    "hs_items st = keep_last HISTORY_CAP l" using metadata_ok_load [OF assms(1)] by blast
  with assms(2) show ?thesis
    by (auto simp: history_new_def load_items_def Let_def split: if_splits sum.splits prod.splits option.splits)
qed

lemma history_reach_inv:
  assumes "jsonl_law J" and "uuid_law X" and "history_reach X J st"
  shows "history_inv X J st"
  using assms(3)
proof induction
  case reach_empty
  show ?case by (simp add: history_inv_def history_ok_def metadata_ok_def images_ok_def empty_history_def
      load_items_def)
next
  case (reach_add st hf item)
  then show ?case using assms(1,2) history_add_ok history_add_metadata history_add_images
    by (simp add: history_inv_def)
next
  case (reach_set_source st hf i)
  then show ?case using assms(1) set_source_ok set_source_metadata set_source_images
    unfolding history_inv_def by blast
next
  case (reach_clear st hf)
  then show ?case using assms(1) history_clear_invariants unfolding history_inv_def by blast
next
  case (reach_reopen st fails rf listing st' d)
  then have m: "metadata_ok X J st" "images_ok st" by (simp_all add: history_inv_def)
  have s: "hs_disk st' = d \<and> history_ok X st' \<and> metadata_ok X J st'"
    by (rule history_new_items(2) [OF reach_reopen(2)]) simp
  have "images_ok st'"
    by (rule images_ok_transfer [OF m(2) reopen_items [OF m(1) reach_reopen(2)]])
       (use reopen_images [OF m(1) reach_reopen(2)] s in simp)
  with s show ?case by (simp add: history_inv_def)
next
  case (reach_reopen_failed st fails rf listing e d)
  then have m: "metadata_ok X J st" "images_ok st" by (simp_all add: history_inv_def)
  have "hd_metadata d = hd_metadata (hs_disk st)"
    by (rule history_new_items(1) [OF reach_reopen_failed(2)])
  moreover have "images_ok (st\<lparr>hs_disk := d\<rparr>)"
    by (rule images_ok_transfer [OF m(2)]) (use reopen_images [OF m(1) reach_reopen_failed(2)] in simp_all)
  ultimately show ?case using reach_reopen_failed.IH
    by (simp add: history_inv_def history_ok_def metadata_ok_def split: sum.splits)
qed

section \<open>The contract the session relies on\<close>

text \<open>A log with idempotent insertion by key: what the session's receive path and its start-up
  replay use of the history.\<close>

fun add_all :: "('i \<Rightarrow> 's \<Rightarrow> ('e + unit) \<times> 's) \<Rightarrow> 'i list \<Rightarrow> 's \<Rightarrow> ('e + unit) \<times> 's" where
  "add_all add [] s = (Inr (), s)"
| "add_all add (i # is) s =
     (case add i s of (Inl e, s') \<Rightarrow> (Inl e, s') | (Inr _, s') \<Rightarrow> add_all add is s')"

locale idempotent_log =
  fixes add :: "'i \<Rightarrow> 's \<Rightarrow> ('e + unit) \<times> 's"
    and keys :: "'s \<Rightarrow> 'k set"
    and key :: "'i \<Rightarrow> 'k"
    and inv :: "'s \<Rightarrow> bool"
  assumes add_inv: "inv s \<Longrightarrow> inv (snd (add i s))"
    and add_present: "inv s \<Longrightarrow> fst (add i s) = Inr () \<Longrightarrow> key i \<in> keys (snd (add i s))"
    and add_known: "key i \<in> keys s \<Longrightarrow> add i s = (Inr (), s)"
begin

lemma add_twice:
  assumes "inv s" "fst (add i s) = Inr ()"
  shows "add i (snd (add i s)) = (Inr (), snd (add i s))"
  using add_known add_present assms by blast

lemma add_all_inv: "inv s \<Longrightarrow> inv (snd (add_all add is s))"
proof (induction "is" arbitrary: s)
  case (Cons i "is")
  obtain r t where run: "add i s = (r, t)" by fastforce
  with Cons.prems have "inv t" using add_inv [of s i] by simp
  with Cons.IH [of t] run show ?case by (cases r) simp_all
qed simp

lemma add_all_last:
  assumes "inv s" and "fst (add_all add (is @ [i]) s) = Inr ()"
  shows "key i \<in> keys (snd (add_all add (is @ [i]) s))"
  using assms
proof (induction "is" arbitrary: s)
  case Nil
  obtain r t where run: "add i s = (r, t)" by fastforce
  with Nil show ?case using add_present [of s i] by (cases r) auto
next
  case (Cons j "is")
  obtain r t where run: "add j s = (r, t)" by fastforce
  with Cons.prems(1) have "inv t" using add_inv [of s j] by simp
  with Cons run show ?case by (cases r) auto
qed

end

interpretation hist: idempotent_log "\<lambda>item. history_add X J (hf (ni_id item)) item" history_ids ni_id
    "history_ok X"
  for X :: crates and J :: "history_item json" and hf :: "uuid \<Rightarrow> history_faults"
  by unfold_locales (use history_add_ok history_add_present history_add_duplicate in blast)+

section \<open>Properties\<close>

lemma find_distinct:
  "distinct (map f xs) \<Longrightarrow> x \<in> set xs \<Longrightarrow> find (\<lambda>y. f y = f x) xs = Some x"
  by (induction xs) auto

lemma image_bytes_listed:
  assumes "history_ok X st" and "x \<in> set (hs_items st)" and "hi_kind x = KindImage n"
  shows "image_bytes (hi_id x) st =
    (case hd_images (hs_disk st) n of None \<Rightarrow> Inl (HistoryIo n) | Some bs \<Rightarrow> Inr bs)"
  using assms find_distinct [of hi_id "hs_items st" x] by (simp add: image_bytes_def history_ok_def)

lemma table_jsonl_law [simp]: "jsonl_law (table_json vs)"
  unfolding jsonl_law_def
  by (intro conjI table_json_law allI impI) (auto simp: table_json_def split: if_splits)

definition demo_faults :: history_faults where
  "demo_faults = \<lparr>hf_tmp = ''t'', hf_image = None, hf_metadata = None, hf_undo_fails = False,
     hf_remove_fails = (\<lambda>_. False)\<rparr>"

definition demo_new :: "uuid \<Rightarrow> new_history_item" where
  "demo_new i = \<lparr>ni_id = i, ni_ts_ms = 5, ni_source = RemoteDeferred, ni_content = HImage [1, 2, 3]\<rparr>"

definition demo_item :: "uuid \<Rightarrow> history_item" where
  "demo_item i = new_item demo_crates (demo_new i)"

definition demo_history_json :: "history_item json" where
  "demo_history_json =
     table_json [demo_item 1, (demo_item 1)\<lparr>hi_source := Remote\<rparr>, demo_item 2]"

definition demo_history :: history_store where
  "demo_history = snd (history_add demo_crates demo_history_json demo_faults (demo_new 1) empty_history)"

lemma demo_tmp_apart [simp]: "tmp_apart demo_crates demo_faults"
proof -
  have "''t'' \<noteq> image_name demo_crates i" for i
  proof
    assume "''t'' = image_name demo_crates i"
    then have "length ''t'' = length (image_name demo_crates i)" by simp
    then show False by (simp add: image_name_def)
  qed
  then show ?thesis by (auto simp: tmp_apart_def demo_faults_def)
qed

lemma demo_history_reach: "history_reach demo_crates demo_history_json demo_history"
  unfolding demo_history_def by (intro reach_add reach_empty demo_tmp_apart)

lemma demo_history_items: "hs_items demo_history = [demo_item 1]"
  by (simp add: demo_history_def history_add_new empty_history_def HISTORY_CAP_def history_ids_def
      store_image_def demo_new_def demo_faults_def atomic_write_unfold history_style_def
      history_persist_def write_outcome_of_def demo_history_json_def table_json_def demo_item_def Let_def)

text \<open>C6: the history is bounded and consistent in every reachable state: at most fifty items,
  distinct ids, and every listed image can be read back, whatever writes and removals failed and
  however often the store was reopened.\<close>

theorem history_bounded_and_readable:
  assumes "jsonl_law J" and "uuid_law X" and "history_reach X J st"
  shows "length (hs_items st) \<le> HISTORY_CAP \<and> distinct (map hi_id (hs_items st))
    \<and> (\<forall>x n. x \<in> set (hs_items st) \<longrightarrow> hi_kind x = KindImage n \<longrightarrow> is_ok (image_bytes (hi_id x) st))"
  using history_reach_inv [OF assms]
  by (auto simp: history_inv_def image_bytes_listed images_ok_def list_all_iff history_ok_def
      split: option.splits)

theorem history_bounded_and_readable_witness:
  "length (hs_items demo_history) \<le> HISTORY_CAP \<and> is_ok (image_bytes 1 demo_history)"
proof -
  have x: "demo_item 1 \<in> set (hs_items demo_history)"
    "hi_kind (demo_item 1) = KindImage (image_name demo_crates 1)" "hi_id (demo_item 1) = 1"
    by (simp_all add: demo_history_items demo_item_def new_item_def new_kind_def demo_new_def)
  have "jsonl_law demo_history_json" by (simp add: demo_history_json_def)
  from history_bounded_and_readable [OF this demo_laws(3) demo_history_reach] x show ?thesis by metis
qed

text \<open>C7: a restart finds the history the process had: reopening any reachable store gives the
  same items in the same order and the same image bytes for each, and afterwards no file listed
  in the image directory is left unreferenced.\<close>

theorem history_survives_restart:
  assumes "jsonl_law J" and "uuid_law X" and "history_reach X J st"
    and "history_new X J fails rf listing (hs_disk st) = (Inr st', d)"
  shows "hs_items st' = hs_items st \<and> image_bytes i st' = image_bytes i st
    \<and> (\<forall>n. (n, True) \<in> set listing \<longrightarrow> n \<notin> set (referenced_images (hs_items st)) \<longrightarrow>
          hd_images (hs_disk st') n = None)"
proof -
  have m: "metadata_ok X J st" using history_reach_inv [OF assms(1-3)] by (simp add: history_inv_def)
  have d: "hs_disk st' = d" using history_new_items(2) [OF assms(4)] by simp
  have items: "hs_items st' = hs_items st" by (rule reopen_items [OF m assms(4)])
  have "image_bytes i st' = image_bytes i st"
  proof (cases "find (\<lambda>item. hi_id item = i) (hs_items st)")
    case (Some x)
    then have "x \<in> set (hs_items st)" by (auto simp: find_Some_iff)
    then have "hi_kind x = KindImage n \<Longrightarrow> hd_images d n = hd_images (hs_disk st) n" for n
      using reopen_images [OF m assms(4), of n] by (force simp: set_referenced)
    with Some show ?thesis by (cases "hi_kind x") (simp_all add: image_bytes_def items d)
  qed (simp add: image_bytes_def items)
  moreover obtain l where l: "load_items X J False (hd_metadata (hs_disk st)) = Inr l"
      "hs_items st = keep_last HISTORY_CAP l"
    using metadata_ok_load [OF m] by blast
  ultimately show ?thesis
    using items d history_new_images(2) [OF assms(4) l(1)] by (simp add: l(2))
qed

theorem history_survives_restart_witness:
  "case history_new demo_crates demo_history_json (False, False) (\<lambda>_. False) [(''t'', True)]
      (hs_disk demo_history) of
     (Inr st, _) \<Rightarrow> hs_items st = [demo_item 1] \<and> hd_images (hs_disk st) ''t'' = None
   | (Inl _, _) \<Rightarrow> False"
proof -
  let ?new = "history_new demo_crates demo_history_json (False, False) (\<lambda>_. False) [(''t'', True)]
      (hs_disk demo_history)"
  obtain st d where new: "?new = (Inr st, d)" using history_new_succeeds by blast
  have t: "''t'' \<notin> set (referenced_images (hs_items demo_history))"
    by (simp add: demo_history_items referenced_images_def List.map_filter_def demo_item_def
        new_item_def new_kind_def demo_new_def image_name_def)
  have "jsonl_law demo_history_json" by (simp add: demo_history_json_def)
  from history_survives_restart [OF this demo_laws(3) demo_history_reach new] new t
  show ?thesis by (simp add: demo_history_items)
qed

text \<open>Adding a new item either changes nothing in the list and reports an error, or appends
  exactly the given item and evicts the oldest beyond fifty; an image is then readable with its
  bytes, and adding the same id again is a no-op.\<close>

theorem history_add_stores:
  assumes "jsonl_law J" and "uuid_law X" and "history_reach X J st" and "tmp_apart X hf"
    and "ni_id item \<notin> history_ids st" and "history_add X J hf item st = (r, st')"
  shows "hs_items st' = hs_items st \<and> \<not> is_ok r
    \<or> hs_items st' = keep_last HISTORY_CAP (hs_items st @ [new_item X item])
      \<and> (\<forall>bs. ni_content item = HImage bs \<longrightarrow> image_bytes (ni_id item) st' = Inr bs)
      \<and> history_add X J hf2 item st' = (Inr (), st')"
proof -
  have ok: "history_ok X st" using history_reach_inv [OF assms(1-3)] by (simp add: history_inv_def)
  have ok': "history_ok X st'" using history_add_ok [OF ok, of J hf item] assms(6) by simp
  from history_ok_cap [OF ok] assms(5,6) show ?thesis
  proof (cases rule: history_add_cases)
    case (kept e)
    then show ?thesis by simp
  next
    case (added bs)
    then have new: "new_item X item \<in> set (hs_items st')" by (simp add: HISTORY_CAP_def)
    have "image_bytes (ni_id item) st' = Inr img" if "ni_content item = HImage img" for img
      using history_add_new_image [OF assms(2,4) ok assms(5,6) new that]
        image_bytes_listed [OF ok' new] that
      by (simp add: new_item_def new_kind_def)
    then show ?thesis using added(1) pushed_present [OF added(1)] history_add_duplicate by simp
  qed
qed

theorem history_add_stores_witness:
  "case history_add demo_crates demo_history_json demo_faults (demo_new 2) demo_history of
     (r, st) \<Rightarrow> hs_items st = [demo_item 1] \<or> image_bytes 2 st = Inr [1, 2, 3]"
proof -
  obtain r st where run:
      "history_add demo_crates demo_history_json demo_faults (demo_new 2) demo_history = (r, st)"
    by fastforce
  have "jsonl_law demo_history_json" by (simp add: demo_history_json_def)
  moreover have "ni_id (demo_new 2) \<notin> history_ids demo_history"
    by (simp add: history_ids_def demo_history_items demo_item_def demo_new_def)
  ultimately show ?thesis
    using history_add_stores [OF _ demo_laws(3) demo_history_reach demo_tmp_apart _ run] run
    by (auto simp: demo_history_items demo_new_def)
qed

text \<open>Changing the source of an item can only promote a deferred remote item to remote: no
  other field and no other item changes, an unknown id is an error, and after an error the list
  is as before.\<close>

theorem set_source_only_promotes:
  assumes "jsonl_law J" and "uuid_law X" and "history_reach X J st"
    and "set_source J hf i source st = (r, st')"
  shows "hs_items st' = (if is_ok r \<and> source = Remote then promoted i (hs_items st) else hs_items st)
    \<and> (i \<notin> history_ids st \<longrightarrow> r = Inl (UnknownItem i))"
proof (cases "source = Remote")
  case True
  have "history_ok X st" using history_reach_inv [OF assms(1-3)] by (simp add: history_inv_def)
  from this assms(4) [unfolded True] show ?thesis
    by (cases rule: set_source_cases) (use True in auto)
next
  case False
  then have "\<not> source_transition s source" for s by (cases s; cases source) simp_all
  then show ?thesis using assms(4) False
    by (auto simp: set_source_def position_None history_ids_def split: option.splits
        dest!: position_Some)
qed

theorem set_source_only_promotes_witness:
  "case set_source demo_history_json demo_faults 1 Remote demo_history of
     (r, st) \<Rightarrow> is_ok r \<and> hs_items st = [(demo_item 1)\<lparr>hi_source := Remote\<rparr>]"
proof -
  obtain r st where run: "set_source demo_history_json demo_faults 1 Remote demo_history = (r, st)"
    by fastforce
  have item: "hi_id (demo_item 1) = 1" "hi_source (demo_item 1) = RemoteDeferred"
    by (simp_all add: demo_item_def new_item_def demo_new_def)
  then have "is_ok r" using run
    by (auto simp: set_source_def demo_history_items history_persist_def demo_history_json_def
        table_json_def demo_faults_def write_outcome_of_def Let_def)
  moreover have "jsonl_law demo_history_json" by (simp add: demo_history_json_def)
  ultimately show ?thesis
    using set_source_only_promotes [OF _ demo_laws(3) demo_history_reach run] run item
    by (simp add: demo_history_items promoted_def)
qed

end
