(* ===== verification/Pairing.thy ===== *)
theory Pairing
  imports Crypto
begin

text \<open>
  Pairing state and durable pairing metadata of crates/core/src/pairing.rs: the QR payload, the
  offerer and the claimer up to the safety-code confirmation, the pairing record and its file,
  and the identity reset.

  The directory of the \<open>PairingStore\<close> is a file map; operations take the failing step of
  each write, the random draws and the temporary names as arguments. The lemmas show: the two
  roles of one QR compute the same safety code and room; nothing is written before the exact
  code is confirmed, and what is confirmed is what a restart loads; every loaded record matches
  the identity on disk; a reset leaves the old or the complete new identity, and after it no
  older record loads.
\<close>

section \<open>Data\<close>

definition QR_NONCE_BYTES :: nat where "QR_NONCE_BYTES = 16"
definition IDENTITY_FILE :: string where "IDENTITY_FILE = ''identity.json''"
definition PAIRING_FILE :: string where "PAIRING_FILE = ''pairing.json''"

datatype pairing_error = InvalidServer | InvalidCode | PairSameIdentity | ServerMismatch
  | BundleMismatch | SasMismatch | StaleIdentity | InvalidRecord | GenerationOverflow
  | PairingIo | PairingCrypto crypto_error | PairingJson string

record qr_payload =
  qr_server :: string
  qr_code :: string
  qr_bundle :: pub_bundle
  qr_nonce_a :: bytes

text \<open>The JSON fields of \<open>QrPayload\<close> and of \<open>PairingRecord\<close>, as serde sees them.\<close>

record qr_json =
  qj_server :: string
  qj_code :: string
  qj_bundle :: pub_bundle_json
  qj_nonce_a :: string

record offerer =
  of_generation :: u64
  of_server :: string
  of_local_bundle :: pub_bundle
  of_nonce_a :: bytes

record claimer =
  cl_generation :: u64
  cl_pinned_server :: string
  cl_local_bundle :: pub_bundle
  cl_pinned_bundle :: pub_bundle
  cl_nonce_a :: bytes

record pairing_candidate =
  pc_generation :: u64
  pc_server :: string
  pc_local_bundle :: pub_bundle
  pc_peer_bundle :: pub_bundle

record pending_confirmation =
  pe_candidate :: pairing_candidate
  pe_nonce_a :: bytes

record pairing_record =
  pr_generation :: u64
  pr_server :: string
  pr_room_id :: string
  pr_local_bundle_fp :: string
  pr_peer_bundle :: pub_bundle
  pr_peer_bundle_fp :: string

record pairing_record_json =
  pj_generation :: u64
  pj_server :: string
  pj_room_id :: string
  pj_local_bundle_fp :: string
  pj_peer_bundle :: pub_bundle_json
  pj_peer_bundle_fp :: string

section \<open>QR content\<close>

fun strip_prefix :: "string \<Rightarrow> string \<Rightarrow> string option" where
  "strip_prefix [] s = Some s"
| "strip_prefix (p # ps) [] = None"
| "strip_prefix (p # ps) (c # cs) = (if p = c then strip_prefix ps cs else None)"

definition is_ascii_whitespace :: "char \<Rightarrow> bool" where
  "is_ascii_whitespace c \<longleftrightarrow> List.member [CHR '' '', CHR 0x09, CHR 0x0A, CHR 0x0C, CHR 0x0D] c"

definition is_ascii_control :: "char \<Rightarrow> bool" where
  "is_ascii_control c \<longleftrightarrow> c < CHR '' '' \<or> c = CHR 0x7F"

text \<open>\<open>debug\<close> is \<open>cfg!(debug_assertions)\<close>.\<close>

definition validate_server :: "bool \<Rightarrow> string \<Rightarrow> pairing_error + unit" where
  "validate_server debug server =
     (case (case strip_prefix ''wss://'' server of
              Some rest \<Rightarrow> Some rest
            | None \<Rightarrow> if debug then strip_prefix ''ws://'' server else None) of
        None \<Rightarrow> Inl InvalidServer
      | Some authority_and_path \<Rightarrow>
          (let authority = takeWhile (\<lambda>c. \<not> List.member [CHR ''/'', CHR ''?'', CHR ''#''] c) authority_and_path in
           if authority \<noteq> [] \<and> \<not> List.member authority (CHR ''@'') \<and> \<not> List.member server (CHR ''#'')
              \<and> list_all (\<lambda>c. \<not> is_ascii_whitespace c \<and> \<not> is_ascii_control c) server
           then Inr () else Inl InvalidServer))"

definition validate_code :: "string \<Rightarrow> pairing_error + unit" where
  "validate_code code =
     (if length code = 6 \<and> list_all (\<lambda>c. is_ascii_uppercase c \<or> is_ascii_digit c) code
      then Inr () else Inl InvalidCode)"

definition qr_new :: "bool \<Rightarrow> string \<Rightarrow> string \<Rightarrow> pub_bundle \<Rightarrow> bytes \<Rightarrow> pairing_error + qr_payload" where
  "qr_new debug server code bundle nonce_a =
     and_then (validate_server debug server) (\<lambda>_.
     and_then (validate_code code) (\<lambda>_.
       Inr \<lparr>qr_server = server, qr_code = code, qr_bundle = bundle, qr_nonce_a = nonce_a\<rparr>))"

definition serialize_nonce :: "crates \<Rightarrow> bytes \<Rightarrow> string" where
  "serialize_nonce X nonce = b64_encode X nonce"

definition deserialize_nonce :: "crates \<Rightarrow> string \<Rightarrow> string + bytes" where
  "deserialize_nonce X encoded =
     and_then (b64_decode X encoded) (\<lambda>decoded.
       if b64_encode X decoded \<noteq> encoded
       then Inl ''nonce_a must use canonical padded STANDARD base64''
       else if length decoded = QR_NONCE_BYTES then Inr decoded
       else Inl (''nonce_a must decode to 16 bytes, got '' @ show_nat (length decoded)))"

definition qr_to_json :: "crates \<Rightarrow> qr_json json \<Rightarrow> qr_payload \<Rightarrow> pairing_error + bytes" where
  "qr_to_json X J q = map_err PairingJson (to_json J
     \<lparr>qj_server = qr_server q, qj_code = qr_code q, qj_bundle = serialize_bundle X (qr_bundle q),
      qj_nonce_a = serialize_nonce X (qr_nonce_a q)\<rparr>)"

definition qr_parse :: "bool \<Rightarrow> crates \<Rightarrow> qr_json json \<Rightarrow> bytes \<Rightarrow> pairing_error + qr_payload" where
  "qr_parse debug X J encoded =
     and_then (map_err PairingJson (from_json J encoded)) (\<lambda>r.
     and_then (map_err PairingJson (deserialize_bundle X (qj_bundle r))) (\<lambda>bundle.
     and_then (map_err PairingJson (deserialize_nonce X (qj_nonce_a r))) (\<lambda>nonce.
     and_then (validate_server debug (qj_server r)) (\<lambda>_.
     and_then (validate_code (qj_code r)) (\<lambda>_.
       Inr \<lparr>qr_server = qj_server r, qr_code = qj_code r, qr_bundle = bundle, qr_nonce_a = nonce\<rparr>)))))"

section \<open>The two roles\<close>

definition offerer_start :: "bool \<Rightarrow> crates \<Rightarrow> identity \<Rightarrow> qr_payload \<Rightarrow> pairing_error + offerer" where
  "offerer_start debug X i qr =
     and_then (validate_server debug (qr_server qr)) (\<lambda>_.
     and_then (validate_code (qr_code qr)) (\<lambda>_.
       let local_bundle = public_bundle X i in
       if qr_bundle qr \<noteq> local_bundle then Inl BundleMismatch
       else Inr \<lparr>of_generation = id_generation i, of_server = qr_server qr,
                 of_local_bundle = local_bundle, of_nonce_a = qr_nonce_a qr\<rparr>))"

definition offerer_receive_peer :: "crates \<Rightarrow> offerer \<Rightarrow> pub_bundle \<Rightarrow> pairing_error + pending_confirmation" where
  "offerer_receive_peer X s peer_bundle =
     (if bundle_fp X (of_local_bundle s) = bundle_fp X peer_bundle then Inl PairSameIdentity
      else Inr \<lparr>pe_candidate = \<lparr>pc_generation = of_generation s, pc_server = of_server s,
                  pc_local_bundle = of_local_bundle s, pc_peer_bundle = peer_bundle\<rparr>,
                pe_nonce_a = of_nonce_a s\<rparr>)"

definition claimer_start :: "bool \<Rightarrow> crates \<Rightarrow> identity \<Rightarrow> qr_payload \<Rightarrow> pairing_error + claimer" where
  "claimer_start debug X i qr =
     and_then (validate_server debug (qr_server qr)) (\<lambda>_.
     and_then (validate_code (qr_code qr)) (\<lambda>_.
       let local_bundle = public_bundle X i in
       if bundle_fp X local_bundle = bundle_fp X (qr_bundle qr) then Inl PairSameIdentity
       else Inr \<lparr>cl_generation = id_generation i, cl_pinned_server = qr_server qr,
                 cl_local_bundle = local_bundle, cl_pinned_bundle = qr_bundle qr,
                 cl_nonce_a = qr_nonce_a qr\<rparr>))"

definition claimer_receive_peer ::
  "claimer \<Rightarrow> string \<Rightarrow> pub_bundle \<Rightarrow> pairing_error + pending_confirmation" where
  "claimer_receive_peer s server peer_bundle =
     (if server \<noteq> cl_pinned_server s then Inl ServerMismatch
      else if peer_bundle \<noteq> cl_pinned_bundle s then Inl BundleMismatch
      else Inr \<lparr>pe_candidate = \<lparr>pc_generation = cl_generation s, pc_server = cl_pinned_server s,
                  pc_local_bundle = cl_local_bundle s, pc_peer_bundle = cl_pinned_bundle s\<rparr>,
                pe_nonce_a = cl_nonce_a s\<rparr>)"

definition pending_sas :: "crates \<Rightarrow> pending_confirmation \<Rightarrow> string" where
  "pending_sas X p = sas_code X (pe_nonce_a p) (pc_local_bundle (pe_candidate p))
     (pc_peer_bundle (pe_candidate p))"

definition from_candidate :: "crates \<Rightarrow> pairing_candidate \<Rightarrow> pairing_record" where
  "from_candidate X c =
     \<lparr>pr_generation = pc_generation c, pr_server = pc_server c,
      pr_room_id = room_id X (pc_local_bundle c) (pc_peer_bundle c),
      pr_local_bundle_fp = bundle_fp X (pc_local_bundle c),
      pr_peer_bundle = pc_peer_bundle c,
      pr_peer_bundle_fp = bundle_fp X (pc_peer_bundle c)\<rparr>"

section \<open>The store\<close>

definition validate_record :: "bool \<Rightarrow> crates \<Rightarrow> pairing_record \<Rightarrow> identity \<Rightarrow> pairing_error + unit" where
  "validate_record debug X r i =
     (let local_bundle = public_bundle X i in
      if pr_generation r > 0 \<and> pr_generation r = id_generation i
         \<and> pr_local_bundle_fp r = bundle_fp X local_bundle
         \<and> pr_peer_bundle_fp r = bundle_fp X (pr_peer_bundle r)
         \<and> pr_local_bundle_fp r \<noteq> pr_peer_bundle_fp r
         \<and> pr_room_id r = room_id X local_bundle (pr_peer_bundle r)
         \<and> is_ok (validate_server debug (pr_server r))
      then Inr () else Inl InvalidRecord)"

definition record_to_json :: "crates \<Rightarrow> pairing_record \<Rightarrow> pairing_record_json" where
  "record_to_json X r =
     \<lparr>pj_generation = pr_generation r, pj_server = pr_server r, pj_room_id = pr_room_id r,
      pj_local_bundle_fp = pr_local_bundle_fp r,
      pj_peer_bundle = serialize_bundle X (pr_peer_bundle r),
      pj_peer_bundle_fp = pr_peer_bundle_fp r\<rparr>"

definition record_from_json :: "crates \<Rightarrow> pairing_record_json \<Rightarrow> string + pairing_record" where
  "record_from_json X j =
     and_then (deserialize_bundle X (pj_peer_bundle j)) (\<lambda>b. Inr
       \<lparr>pr_generation = pj_generation j, pr_server = pj_server j, pr_room_id = pj_room_id j,
        pr_local_bundle_fp = pj_local_bundle_fp j, pr_peer_bundle = b,
        pr_peer_bundle_fp = pj_peer_bundle_fp j\<rparr>)"

text \<open>What one call of \<open>load_identity\<close> may meet: a read error, the draws of a generated
  identity, the failing step of its write and the temporary name.\<close>

record identity_env =
  ie_read_fails :: bool
  ie_rng :: "bytes \<times> bytes"
  ie_fault :: "write_step option"
  ie_tmp :: string

definition load_identity ::
  "crates \<Rightarrow> identity_document json \<Rightarrow> identity_env \<Rightarrow> fs \<Rightarrow> (pairing_error + identity) \<times> fs" where
  "load_identity X JI env f =
     (case load_or_create X JI (ie_read_fails env) (ie_rng env) (ie_fault env) (ie_tmp env) IDENTITY_FILE f of
        (r, f') \<Rightarrow> (map_err PairingCrypto r, f'))"

definition load_pairing ::
  "bool \<Rightarrow> crates \<Rightarrow> identity_document json \<Rightarrow> pairing_record_json json \<Rightarrow> identity_env \<Rightarrow> bool \<Rightarrow> fs
   \<Rightarrow> (pairing_error + pairing_record option) \<times> fs" where
  "load_pairing debug X JI JP env read_fails f =
     (case load_identity X JI env f of
        (Inl e, f') \<Rightarrow> (Inl e, f')
      | (Inr i, f') \<Rightarrow>
          (if read_fails then Inl PairingIo
           else case f' PAIRING_FILE of
             None \<Rightarrow> Inr None
           | Some encoded \<Rightarrow>
               and_then (map_err PairingJson (and_then (from_json JP encoded) (record_from_json X))) (\<lambda>r.
                 if pr_generation r \<noteq> id_generation i then Inr None
                 else and_then (validate_record debug X r i) (\<lambda>_. Inr (Some r))), f'))"

definition pairing_atomic_write ::
  "write_step option \<Rightarrow> string \<Rightarrow> bytes \<Rightarrow> fs \<Rightarrow> (pairing_error + unit) \<times> fs" where
  "pairing_atomic_write fault tmp data f =
     (case atomic_write guarded_style fault tmp PAIRING_FILE data f of
        (ok, f') \<Rightarrow> (if ok then Inr () else Inl PairingIo, f'))"

definition persist_pairing ::
  "bool \<Rightarrow> crates \<Rightarrow> identity_document json \<Rightarrow> pairing_record_json json \<Rightarrow> identity_env
   \<Rightarrow> write_step option \<Rightarrow> string \<Rightarrow> pairing_record \<Rightarrow> fs \<Rightarrow> (pairing_error + unit) \<times> fs" where
  "persist_pairing debug X JI JP env fault tmp r f =
     (case load_identity X JI env f of
        (Inl e, f') \<Rightarrow> (Inl e, f')
      | (Inr i, f') \<Rightarrow>
          (if pr_generation r \<noteq> id_generation i \<or> pr_local_bundle_fp r \<noteq> id_bundle_fp X i
           then (Inl StaleIdentity, f')
           else case validate_record debug X r i of
             Inl e \<Rightarrow> (Inl e, f')
           | Inr _ \<Rightarrow> (case to_json JP (record_to_json X r) of
                 Inl e \<Rightarrow> (Inl (PairingJson e), f')
               | Inr data \<Rightarrow> pairing_atomic_write fault tmp data f')))"

definition confirm ::
  "bool \<Rightarrow> crates \<Rightarrow> identity_document json \<Rightarrow> pairing_record_json json \<Rightarrow> identity_env
   \<Rightarrow> write_step option \<Rightarrow> string \<Rightarrow> pending_confirmation \<Rightarrow> string \<Rightarrow> fs
   \<Rightarrow> (pairing_error + pairing_record) \<times> fs" where
  "confirm debug X JI JP env fault tmp p sas f =
     (if sas \<noteq> pending_sas X p then (Inl SasMismatch, f)
      else let r = from_candidate X (pe_candidate p) in
      case persist_pairing debug X JI JP env fault tmp r f of
        (Inl e, f') \<Rightarrow> (Inl e, f') | (Inr _, f') \<Rightarrow> (Inr r, f'))"

section \<open>Reset\<close>

datatype reset_stage = TempWritten | FileSynced | IdentityRenamed | IdentityDirectorySynced

fun is_write_fault :: "write_step option \<Rightarrow> bool" where
  "is_write_fault (Some (At_write _)) = True"
| "is_write_fault _ = False"

text \<open>\<open>obs\<close> is the stage at which the observer fails; the production observer never does.\<close>

definition reset_write ::
  "identity_document json \<Rightarrow> write_step option \<Rightarrow> reset_stage option \<Rightarrow> string \<Rightarrow> identity_document \<Rightarrow> fs
   \<Rightarrow> (pairing_error + unit) \<times> fs" where
  "reset_write JI fault obs tmp document f =
     (if fault = Some At_open \<or> f tmp \<noteq> None then (Inl PairingIo, f)
      else case to_json JI document of
        Inl e \<Rightarrow> (Inl (PairingJson e), f(tmp := None))
      | Inr data \<Rightarrow>
          (if is_write_fault fault \<or> obs = Some TempWritten \<or> fault = Some At_sync
              \<or> obs = Some FileSynced \<or> fault = Some At_rename
           then (Inl PairingIo, f(tmp := None))
           else (if obs = Some IdentityRenamed \<or> fault = Some At_dir_sync
                    \<or> obs = Some IdentityDirectorySynced then Inl PairingIo else Inr (),
                 f(tmp := None, IDENTITY_FILE \<mapsto> data))))"

definition cleanup_old_pairing_state :: "bool \<Rightarrow> fs \<Rightarrow> fs" where
  "cleanup_old_pairing_state remove_fails f = (if remove_fails then f else f(PAIRING_FILE := None))"

definition reset_with_observer ::
  "crates \<Rightarrow> identity_document json \<Rightarrow> identity_env \<Rightarrow> bytes \<times> bytes \<Rightarrow> write_step option \<Rightarrow> reset_stage option
   \<Rightarrow> string \<Rightarrow> bool \<Rightarrow> fs \<Rightarrow> (pairing_error + identity) \<times> fs" where
  "reset_with_observer X JI env rng fault obs tmp remove_fails f =
     (case load_identity X JI env f of
        (Inl e, f') \<Rightarrow> (Inl e, f')
      | (Inr current, f') \<Rightarrow>
          (if id_generation current = - 1 then (Inl GenerationOverflow, f')
           else let generation = id_generation current + 1 in
           case from_secret_bytes (fst rng) (snd rng) generation of
             Inl e \<Rightarrow> (Inl (PairingCrypto e), f')
           | Inr replacement \<Rightarrow>
               (let document = \<lparr>doc_generation = generation, doc_sign_sk = b64_encode X (fst rng),
                                doc_dh_sk = b64_encode X (snd rng)\<rparr> in
                case reset_write JI fault obs tmp document f' of
                  (Inl e, f'') \<Rightarrow> (Inl e, f'')
                | (Inr _, f'') \<Rightarrow> (Inr replacement, cleanup_old_pairing_state remove_fails f''))))"

definition reset_pairing_state_after_quiesce ::
  "crates \<Rightarrow> identity_document json \<Rightarrow> identity_env \<Rightarrow> bytes \<times> bytes \<Rightarrow> write_step option
   \<Rightarrow> string \<Rightarrow> bool \<Rightarrow> fs \<Rightarrow> (pairing_error + identity) \<times> fs" where
  "reset_pairing_state_after_quiesce X JI env rng fault tmp remove_fails f =
     reset_with_observer X JI env rng fault None tmp remove_fails f"

section \<open>Facts\<close>

definition disk_identity :: "crates \<Rightarrow> identity_document json \<Rightarrow> fs \<Rightarrow> identity option" where
  "disk_identity X JI f = Option.bind (f IDENTITY_FILE) (stored_identity X JI)"

definition disk_record :: "crates \<Rightarrow> pairing_record_json json \<Rightarrow> fs \<Rightarrow> pairing_record option" where
  "disk_record X JP f = Option.bind (f PAIRING_FILE) (\<lambda>bs.
     case and_then (from_json JP bs) (record_from_json X) of Inl _ \<Rightarrow> None | Inr r \<Rightarrow> Some r)"

definition env_ok :: "identity_env \<Rightarrow> bool" where
  "env_ok env \<longleftrightarrow> length (fst (ie_rng env)) = 32 \<and> length (snd (ie_rng env)) = 32
     \<and> ie_tmp env \<noteq> IDENTITY_FILE \<and> ie_tmp env \<noteq> PAIRING_FILE"

lemma file_names [simp]: "IDENTITY_FILE \<noteq> PAIRING_FILE" "PAIRING_FILE \<noteq> IDENTITY_FILE"
  by (simp_all add: IDENTITY_FILE_def PAIRING_FILE_def)

lemma load_or_create_frame:
  assumes "load_or_create X J rf rng fault tmp path f = (r, f')" "tmp \<noteq> path" "p \<noteq> tmp" "p \<noteq> path"
  shows "f' p = f p"
proof (cases "rf \<or> f path \<noteq> None")
  case True
  with assms(1) show ?thesis by (cases rf) (auto simp: load_or_create_def)
next
  case False
  obtain q g where g: "identity_persist X J fault tmp path (generate_identity (fst rng) (snd rng)) f = (q, g)"
    by fastforce
  have "f' = g" using assms(1) False g by (auto simp: load_or_create_def Let_def split: sum.splits)
  then show ?thesis using identity_persist_target(4) [OF assms(2) g assms(3,4)] by simp
qed

lemma load_identity_disk:
  assumes "json_law JI" "b64_law X" "env_ok env" and run: "load_identity X JI env f = (r, f')"
  shows "f' PAIRING_FILE = f PAIRING_FILE" and "r = Inr i \<Longrightarrow> disk_identity X JI f' = Some i"
    and "disk_identity X JI f = Some j \<Longrightarrow> f' = f \<and> (r = Inr j \<or> ie_read_fails env)"
proof -
  obtain q where q: "load_or_create X JI (ie_read_fails env) (ie_rng env) (ie_fault env) (ie_tmp env)
      IDENTITY_FILE f = (q, f')" and r: "r = map_err PairingCrypto q"
    using run by (auto simp: load_identity_def split: prod.splits)
  have e: "length (fst (ie_rng env)) = 32" "length (snd (ie_rng env)) = 32" "ie_tmp env \<noteq> IDENTITY_FILE"
    "ie_tmp env \<noteq> PAIRING_FILE" using assms(3) by (simp_all add: env_ok_def)
  show "f' PAIRING_FILE = f PAIRING_FILE"
    using load_or_create_frame [OF q e(3)] e(4) by (simp add: not_sym)
  show "r = Inr i \<Longrightarrow> disk_identity X JI f' = Some i"
    using load_or_create_file(2) [OF assms(1,2) e(1-3) q] r by (auto simp: disk_identity_def)
  assume "disk_identity X JI f = Some j"
  then obtain bs where bs: "f IDENTITY_FILE = Some bs" "stored_identity X JI bs = Some j"
    by (auto simp: disk_identity_def bind_eq_Some_conv)
  show "f' = f \<and> (r = Inr j \<or> ie_read_fails env)"
  proof (cases "ie_read_fails env")
    case True
    with q show ?thesis by (simp add: load_or_create_def)
  next
    case False
    with q load_existing [where f = f and path = IDENTITY_FILE, OF bs] r show ?thesis by simp
  qed
qed

lemma deserialize_serialize:
  "b64_law X \<Longrightarrow> wf_bundle b \<Longrightarrow> deserialize_bundle X (serialize_bundle X b) = Inr b"
  by (simp add: bundle_codec_iff)

lemma disk_record_eq:
  "disk_record X JP f = Some r \<longleftrightarrow>
     (\<exists>bs. f PAIRING_FILE = Some bs \<and> and_then (from_json JP bs) (record_from_json X) = Inr r)"
  by (cases "f PAIRING_FILE") (auto simp: disk_record_def split: sum.splits)

lemma disk_record_persisted:
  assumes "json_law JP" "b64_law X" "wf_bundle (pr_peer_bundle r)"
    and "to_json JP (record_to_json X r) = Inr data" "f PAIRING_FILE = Some data"
  shows "disk_record X JP f = Some r"
  using assms deserialize_serialize [OF assms(2,3)]
  by (simp add: disk_record_eq json_law_def record_from_json_def record_to_json_def)

lemma load_pairing_disk:
  assumes "json_law JI" "b64_law X" "env_ok env"
    and run: "load_pairing debug X JI JP env rf f = (Inr (Some r), f')"
  shows "\<exists>i. disk_identity X JI f' = Some i \<and> validate_record debug X r i = Inr ()
    \<and> disk_record X JP f' = Some r"
proof -
  obtain q g where q: "load_identity X JI env f = (q, g)" by fastforce
  with run obtain i where i: "q = Inr i" "f' = g" by (cases q) (auto simp: load_pairing_def)
  note d = load_identity_disk [OF assms(1-3) q]
  from run q i obtain bs where bs: "g PAIRING_FILE = Some bs"
    by (auto simp: load_pairing_def split: if_splits option.splits)
  then have "and_then (from_json JP bs) (record_from_json X) = Inr r"
      and "validate_record debug X r i = Inr ()"
    using run q i
    by (auto simp: load_pairing_def and_then_eq_Inr split: if_splits)
  then show ?thesis using d(2) [OF i(1)] i bs by (auto simp: disk_record_eq)
qed

lemma load_pairing_stored:
  assumes "json_law JI" "b64_law X" "env_ok env" "\<not> ie_read_fails env"
    and "disk_identity X JI f = Some i" "disk_record X JP f = Some r"
  shows "load_pairing debug X JI JP env False f =
    (if pr_generation r \<noteq> id_generation i then Inr None
     else and_then (validate_record debug X r i) (\<lambda>_. Inr (Some r)), f)"
proof -
  obtain q g where q: "load_identity X JI env f = (q, g)" by fastforce
  from load_identity_disk(3) [OF assms(1-3) q assms(5)] assms(4) have "q = Inr i" "g = f" by auto
  with q assms(6) show ?thesis by (auto simp: load_pairing_def disk_record_eq)
qed

lemma pairing_atomic_write_target:
  assumes "pairing_atomic_write fault tmp data f = (r, f')" "tmp \<noteq> PAIRING_FILE" "tmp \<noteq> IDENTITY_FILE"
  shows "f' IDENTITY_FILE = f IDENTITY_FILE"
    and "f' PAIRING_FILE = f PAIRING_FILE \<or> f' PAIRING_FILE = Some data"
    and "is_ok r \<Longrightarrow> f' PAIRING_FILE = Some data"
proof -
  obtain ok where w: "atomic_write guarded_style fault tmp PAIRING_FILE data f = (ok, f')"
    and r: "r = (if ok then Inr () else Inl PairingIo)"
    using assms(1) by (auto simp: pairing_atomic_write_def split: prod.splits)
  note t = atomic_write_outcome [OF assms(2) w refl]
  show "f' IDENTITY_FILE = f IDENTITY_FILE" using atomic_write_frame [OF w] assms(3) by simp
  show "f' PAIRING_FILE = f PAIRING_FILE \<or> f' PAIRING_FILE = Some data" unfolding t(2) by (rule after_write_cases)
  show "is_ok r \<Longrightarrow> f' PAIRING_FILE = Some data" using r t by (auto split: if_splits)
qed

lemma disk_identity_cong: "f IDENTITY_FILE = g IDENTITY_FILE \<Longrightarrow> disk_identity X JI f = disk_identity X JI g"
  by (simp add: disk_identity_def)

lemma disk_record_cong: "f PAIRING_FILE = g PAIRING_FILE \<Longrightarrow> disk_record X JP f = disk_record X JP g"
  by (simp add: disk_record_def)

lemma persist_pairing_disk:
  assumes laws: "json_law JI" "json_law JP" "b64_law X" and "env_ok env"
    and "tmp \<noteq> PAIRING_FILE" "tmp \<noteq> IDENTITY_FILE" and wf: "wf_bundle (pr_peer_bundle r)"
    and run: "persist_pairing debug X JI JP env fault tmp r f = (q, f')"
  shows "f' PAIRING_FILE = f PAIRING_FILE \<or> disk_record X JP f' = Some r"
    and "q = Inr () \<Longrightarrow> disk_record X JP f' = Some r
      \<and> (\<exists>i. disk_identity X JI f' = Some i \<and> validate_record debug X r i = Inr ())"
proof -
  obtain p g where p: "load_identity X JI env f = (p, g)" by fastforce
  note d = load_identity_disk [OF laws(1,3) assms(4) p]
  have "f' = g \<and> q \<noteq> Inr () \<or> (\<exists>i data. p = Inr i \<and> validate_record debug X r i = Inr ()
      \<and> to_json JP (record_to_json X r) = Inr data \<and> pairing_atomic_write fault tmp data g = (q, f'))"
    using run p by (auto simp: persist_pairing_def split: sum.splits if_splits)
  then consider "f' = g" "q \<noteq> Inr ()" | i data where "p = Inr i" "validate_record debug X r i = Inr ()"
      "to_json JP (record_to_json X r) = Inr data" "pairing_atomic_write fault tmp data g = (q, f')"
    by blast
  note c = this
  show "f' PAIRING_FILE = f PAIRING_FILE \<or> disk_record X JP f' = Some r"
    using c
  proof cases
    case (2 i data)
    from pairing_atomic_write_target(2) [OF 2(4) assms(5,6)]
      disk_record_persisted [OF laws(2,3) wf 2(3)] d(1)
    show ?thesis by auto
  qed (use d(1) in simp)
  show "q = Inr () \<Longrightarrow> disk_record X JP f' = Some r
      \<and> (\<exists>i. disk_identity X JI f' = Some i \<and> validate_record debug X r i = Inr ())"
    using c
  proof cases
    case (2 i data)
    note w = pairing_atomic_write_target [OF 2(4) assms(5,6)]
    assume "q = Inr ()"
    with w(3) disk_record_persisted [OF laws(2,3) wf 2(3)] have "disk_record X JP f' = Some r" by simp
    moreover have "disk_identity X JI f' = Some i"
      using d(2) [OF 2(1)] disk_identity_cong [of f' g X JI, OF w(1)] by simp
    ultimately show ?thesis using 2(2) by blast
  qed simp
qed

lemma validate_record_generation:
  "validate_record debug X r i = Inr () \<Longrightarrow> pr_generation r = id_generation i"
  by (auto simp: validate_record_def Let_def split: if_splits)

lemma reset_write_disk:
  assumes "json_law JI" "b64_law X" "wf_identity i" "tmp \<noteq> IDENTITY_FILE" "tmp \<noteq> PAIRING_FILE"
    and "reset_write JI fault obs tmp (identity_document_of X i) f = (r, f')"
  shows "f' IDENTITY_FILE = f IDENTITY_FILE \<or> disk_identity X JI f' = Some i"
    and "r = Inr () \<Longrightarrow> disk_identity X JI f' = Some i" and "f' PAIRING_FILE = f PAIRING_FILE"
  using assms stored_identity_persisted [OF assms(1-3)]
  by (auto simp: reset_write_def disk_identity_def split: if_splits sum.splits)

lemma reset_disk:
  assumes "json_law JI" "b64_law X" "env_ok env" "length (fst rng) = 32" "length (snd rng) = 32"
    and "tmp \<noteq> IDENTITY_FILE" "tmp \<noteq> PAIRING_FILE" and old: "disk_identity X JI f = Some old"
    and run: "reset_with_observer X JI env rng fault obs tmp rmf f = (r, f')"
  defines "new \<equiv> \<lparr>id_sign = fst rng, id_dh = snd rng, id_generation = id_generation old + 1\<rparr>"
  shows "r = Inr i \<Longrightarrow> i = new \<and> disk_identity X JI f' = Some new \<and> id_generation old \<noteq> - 1"
    and "disk_identity X JI f' = Some old \<or> id_generation old \<noteq> - 1 \<and> disk_identity X JI f' = Some new"
    and "f' PAIRING_FILE = f PAIRING_FILE \<or> f' PAIRING_FILE = None"
proof -
  obtain p g where p: "load_identity X JI env f = (p, g)" by fastforce
  note l = load_identity_disk(3) [OF assms(1-3) p old]
  have g: "g = f" using l by simp
  have *: "(r = Inr i \<longrightarrow> i = new \<and> disk_identity X JI f' = Some new \<and> id_generation old \<noteq> - 1)
     \<and> (disk_identity X JI f' = Some old \<or> id_generation old \<noteq> - 1 \<and> disk_identity X JI f' = Some new)
     \<and> (f' PAIRING_FILE = f PAIRING_FILE \<or> f' PAIRING_FILE = None)"
  proof (cases "p = Inr old \<and> id_generation old \<noteq> - 1")
    case False
    with l p run g have "f' = f \<and> \<not> is_ok r"
      by (auto simp: reset_with_observer_def load_identity_def load_or_create_def split: prod.splits)
    with old show ?thesis by (auto simp: is_ok_iff)
  next
    case True
    have nz: "id_generation old + 1 \<noteq> 0" using True by (metis add.right_inverse add_left_imp_eq add.commute)
    then have wf: "wf_identity new" using assms(4,5) by (simp add: wf_identity_def new_def)
    have doc: "identity_document_of X new = \<lparr>doc_generation = id_generation old + 1,
        doc_sign_sk = b64_encode X (fst rng), doc_dh_sk = b64_encode X (snd rng)\<rparr>"
      by (simp add: identity_document_of_def new_def)
    obtain w h where w: "reset_write JI fault obs tmp (identity_document_of X new) f = (w, h)" by fastforce
    note d = reset_write_disk [OF assms(1,2) wf assms(6,7) w]
    have run': "(r, f') = (case w of Inl e \<Rightarrow> (Inl e, h) | Inr _ \<Rightarrow> (Inr new, cleanup_old_pairing_state rmf h))"
      using run p True g nz w doc
      by (auto simp: reset_with_observer_def from_secret_bytes_def new_def Let_def split: sum.splits)
    have "disk_identity X JI (cleanup_old_pairing_state rmf h) = disk_identity X JI h"
      by (simp add: disk_identity_def cleanup_old_pairing_state_def)
    with run' d True old show ?thesis
      by (cases w) (auto simp: cleanup_old_pairing_state_def disk_identity_def)
  qed
  from * show "r = Inr i \<Longrightarrow> i = new \<and> disk_identity X JI f' = Some new \<and> id_generation old \<noteq> - 1" by simp
  from * show "disk_identity X JI f' = Some old \<or> id_generation old \<noteq> - 1 \<and> disk_identity X JI f' = Some new" by simp
  from * show "f' PAIRING_FILE = f PAIRING_FILE \<or> f' PAIRING_FILE = None" by simp
qed

section \<open>Properties\<close>

definition demo_env :: identity_env where
  "demo_env = \<lparr>ie_read_fails = False, ie_rng = (replicate 32 1, replicate 32 1), ie_fault = None, ie_tmp = ''t''\<rparr>"

definition demo_qr :: qr_payload where
  "demo_qr = \<lparr>qr_server = ''wss://r'', qr_code = ''AB23CD'',
     qr_bundle = public_bundle demo_crates (demo_identity 1), qr_nonce_a = replicate 16 7\<rparr>"

definition demo_pending :: pending_confirmation where
  "demo_pending = \<lparr>pe_candidate = \<lparr>pc_generation = 1, pc_server = ''wss://r'',
     pc_local_bundle = public_bundle demo_crates (demo_identity 1),
     pc_peer_bundle = public_bundle demo_crates (demo_identity 2)\<rparr>, pe_nonce_a = replicate 16 7\<rparr>"

definition demo_record :: pairing_record where
  "demo_record = from_candidate demo_crates (pe_candidate demo_pending)"

definition demo_record_json :: "pairing_record_json json" where
  "demo_record_json = table_json [record_to_json demo_crates demo_record]"

definition demo_documents :: "identity_document json" where
  "demo_documents = table_json [identity_document_of demo_crates (demo_identity 1),
     identity_document_of demo_crates ((demo_identity 3)\<lparr>id_generation := 2\<rparr>)]"

definition demo_fs :: fs where
  "demo_fs = [IDENTITY_FILE \<mapsto> [2], PAIRING_FILE \<mapsto> [2]]"

lemma demo_env_ok [simp]: "env_ok demo_env"
  by (simp add: env_ok_def demo_env_def IDENTITY_FILE_def PAIRING_FILE_def)

lemma demo_json_laws [simp]: "json_law demo_documents" "json_law demo_record_json"
  by (simp_all add: demo_documents_def demo_record_json_def)

lemma demo_disk_identity: "disk_identity demo_crates demo_documents demo_fs = Some (demo_identity 1)"
  by (simp add: disk_identity_def demo_fs_def stored_identity_def demo_documents_def table_json_def
      from_document_of wf_identity_def demo_identity_def)

lemma demo_wf: "wf_bundle (public_bundle demo_crates i)"
  by (simp add: wf_public_bundle)

lemma demo_disk_record: "disk_record demo_crates demo_record_json demo_fs = Some demo_record"
proof (rule disk_record_persisted)
  show "to_json demo_record_json (record_to_json demo_crates demo_record) = Inr [2]"
    by (simp add: demo_record_json_def table_json_def)
qed (simp_all add: demo_fs_def demo_record_def from_candidate_def demo_pending_def demo_wf)

lemma demo_record_valid: "validate_record False demo_crates demo_record (demo_identity 1) = Inr ()"
  by code_simp

text \<open>C16: the two devices that share a QR agree. The offerer with the claimer's bundle and the
  claimer with the relay's answer show the same safety code, derive the same room on the same
  server with crossed fingerprints, and the claimer accepts no bundle but the one in the QR.\<close>

theorem roles_agree:
  assumes "offerer_start debug X a qr = Inr s" and "offerer_receive_peer X s (public_bundle X b) = Inr p"
    and "claimer_start debug X b qr = Inr c" and "claimer_receive_peer c server answer = Inr q"
  shows "pending_sas X p = pending_sas X q \<and> answer = public_bundle X a
    \<and> pr_room_id (from_candidate X (pe_candidate p)) = pr_room_id (from_candidate X (pe_candidate q))
    \<and> pr_server (from_candidate X (pe_candidate p)) = pr_server (from_candidate X (pe_candidate q))
    \<and> pr_local_bundle_fp (from_candidate X (pe_candidate p)) = pr_peer_bundle_fp (from_candidate X (pe_candidate q))
    \<and> pr_peer_bundle_fp (from_candidate X (pe_candidate p)) = pr_local_bundle_fp (from_candidate X (pe_candidate q))"
  using assms sas_code_sym [of X "qr_nonce_a qr"] room_id_sym [of X]
  by (auto simp: offerer_start_def offerer_receive_peer_def claimer_start_def claimer_receive_peer_def
      pending_sas_def from_candidate_def and_then_eq_Inr Let_def split: if_splits)

theorem roles_agree_witness:
  "case and_then (offerer_start False demo_crates (demo_identity 1) demo_qr)
      (\<lambda>s. offerer_receive_peer demo_crates s (public_bundle demo_crates (demo_identity 2))) of
     Inl _ \<Rightarrow> False
   | Inr p \<Rightarrow> (case and_then (claimer_start False demo_crates (demo_identity 2) demo_qr)
        (\<lambda>c. claimer_receive_peer c ''wss://r'' (public_bundle demo_crates (demo_identity 1))) of
       Inl _ \<Rightarrow> False
     | Inr q \<Rightarrow> pending_sas demo_crates p = pending_sas demo_crates q)"
proof -
  let ?X = demo_crates
  have "is_ok (and_then (offerer_start False ?X (demo_identity 1) demo_qr)
      (\<lambda>s. offerer_receive_peer ?X s (public_bundle ?X (demo_identity 2))))"
    "is_ok (and_then (claimer_start False ?X (demo_identity 2) demo_qr)
      (\<lambda>c. claimer_receive_peer c ''wss://r'' (public_bundle ?X (demo_identity 1))))"
    by code_simp+
  then obtain s p c q where
    r: "offerer_start False ?X (demo_identity 1) demo_qr = Inr s"
       "offerer_receive_peer ?X s (public_bundle ?X (demo_identity 2)) = Inr p"
       "claimer_start False ?X (demo_identity 2) demo_qr = Inr c"
       "claimer_receive_peer c ''wss://r'' (public_bundle ?X (demo_identity 1)) = Inr q"
    by (auto simp: is_ok_iff and_then_eq_Inr)
  from roles_agree [OF r] r show ?thesis by simp
qed

text \<open>C17: pairing becomes durable only through the exact safety code. A different code changes no
  file; with the code, the record file is unchanged or holds the confirmed record; and after a
  success a restart loads exactly the record that was confirmed.\<close>

theorem confirm_is_durable:
  assumes "json_law JI" "json_law JP" "b64_law X" "env_ok env" "tmp \<noteq> PAIRING_FILE" "tmp \<noteq> IDENTITY_FILE"
    and "wf_bundle (pc_peer_bundle (pe_candidate p))"
    and run: "confirm debug X JI JP env fault tmp p sas f = (r, f')"
  shows "(sas \<noteq> pending_sas X p \<longrightarrow> r = Inl SasMismatch \<and> f' = f)
    \<and> (f' PAIRING_FILE = f PAIRING_FILE \<or> disk_record X JP f' = Some (from_candidate X (pe_candidate p)))
    \<and> (\<forall>rec env2. r = Inr rec \<longrightarrow> env_ok env2 \<longrightarrow> \<not> ie_read_fails env2 \<longrightarrow>
         rec = from_candidate X (pe_candidate p)
         \<and> load_pairing debug X JI JP env2 False f' = (Inr (Some rec), f'))"
proof (cases "sas = pending_sas X p")
  case False
  with run show ?thesis by (auto simp: confirm_def)
next
  case True
  let ?r = "from_candidate X (pe_candidate p)"
  obtain q g where q: "persist_pairing debug X JI JP env fault tmp ?r f = (q, g)" by fastforce
  have wf: "wf_bundle (pr_peer_bundle ?r)" using assms(7) by (simp add: from_candidate_def)
  note d = persist_pairing_disk [OF assms(1-6) wf q]
  have f': "f' = g" and r: "r = (case q of Inl e \<Rightarrow> Inl e | Inr _ \<Rightarrow> Inr ?r)"
    using run True q by (auto simp: confirm_def Let_def split: sum.splits)
  have "load_pairing debug X JI JP env2 False f' = (Inr (Some ?r), f')"
    if "r = Inr rec" "env_ok env2" "\<not> ie_read_fails env2" for rec env2
  proof -
    have "q = Inr ()" using that(1) r by (cases q) auto
    from d(2) [OF this] obtain i where "disk_record X JP g = Some ?r" "disk_identity X JI g = Some i"
      "validate_record debug X ?r i = Inr ()" by blast
    then show ?thesis using f' load_pairing_stored [OF assms(1,3) that(2,3)] validate_record_generation
      by simp
  qed
  then show ?thesis using True d(1) f' r by (auto split: sum.splits)
qed

theorem confirm_is_durable_witness:
  "case confirm False demo_crates demo_documents demo_record_json demo_env None ''u'' demo_pending
      (pending_sas demo_crates demo_pending) [IDENTITY_FILE \<mapsto> [2]] of
     (Inr rec, f) \<Rightarrow> load_pairing False demo_crates demo_documents demo_record_json demo_env False f
        = (Inr (Some rec), f)
   | _ \<Rightarrow> False"
proof -
  let ?f = "[IDENTITY_FILE \<mapsto> [2]]"
  obtain r f where run: "confirm False demo_crates demo_documents demo_record_json demo_env None ''u''
      demo_pending (pending_sas demo_crates demo_pending) ?f = (r, f)" by fastforce
  have d: "disk_identity demo_crates demo_documents ?f = Some (demo_identity 1)"
    using demo_disk_identity by (simp add: disk_identity_def demo_fs_def)
  obtain q g where q: "load_identity demo_crates demo_documents demo_env ?f = (q, g)" by fastforce
  from load_identity_disk(3) [OF demo_json_laws(1) demo_laws(1) demo_env_ok q d] q
  have li: "load_identity demo_crates demo_documents demo_env ?f = (Inr (demo_identity 1), ?f)"
    by (simp add: demo_env_def)
  have v: "pr_generation demo_record = id_generation (demo_identity 1)"
    "pr_local_bundle_fp demo_record = id_bundle_fp demo_crates (demo_identity 1)"
    by (simp_all add: demo_record_def from_candidate_def demo_pending_def demo_identity_def id_bundle_fp_def)
  have "r = Inr demo_record"
    using run li v demo_record_valid
    by (simp add: confirm_def persist_pairing_def demo_record_def [symmetric] pairing_atomic_write_def
        demo_record_json_def table_json_def atomic_write_unfold guarded_style_def Let_def
        IDENTITY_FILE_def PAIRING_FILE_def)
  moreover have "\<not> ie_read_fails demo_env" by (simp add: demo_env_def)
  ultimately show ?thesis
    using confirm_is_durable [OF demo_json_laws demo_laws(1) demo_env_ok _ _ _ run] run
    by (simp add: IDENTITY_FILE_def PAIRING_FILE_def demo_pending_def demo_wf)
qed

text \<open>A record that loads always belongs to the identity on disk: same generation, the
  identity's own fingerprint, a distinct peer whose fingerprint and room are recomputed from its
  bundle, and an acceptable server.\<close>

theorem loaded_record_matches_identity:
  assumes "json_law JI" "b64_law X" "env_ok env"
    and "load_pairing debug X JI JP env rf f = (Inr (Some r), f')"
  shows "\<exists>i. disk_identity X JI f' = Some i \<and> pr_generation r = id_generation i
    \<and> pr_local_bundle_fp r = id_bundle_fp X i \<and> pr_peer_bundle_fp r = bundle_fp X (pr_peer_bundle r)
    \<and> pr_peer_bundle_fp r \<noteq> pr_local_bundle_fp r
    \<and> pr_room_id r = room_id X (public_bundle X i) (pr_peer_bundle r)
    \<and> is_ok (validate_server debug (pr_server r))"
proof -
  from load_pairing_disk [OF assms] obtain i where
    "disk_identity X JI f' = Some i" "validate_record debug X r i = Inr ()" by blast
  then show ?thesis by (auto simp: validate_record_def id_bundle_fp_def Let_def split: if_splits)
qed

lemma demo_load: "load_pairing False demo_crates demo_documents demo_record_json demo_env False demo_fs
    = (Inr (Some demo_record), demo_fs)"
  using load_pairing_stored [OF demo_json_laws(1) demo_laws(1) demo_env_ok _ demo_disk_identity demo_disk_record,
      of False] demo_record_valid validate_record_generation [OF demo_record_valid]
  by (simp add: demo_env_def)

theorem loaded_record_matches_identity_witness:
  "load_pairing False demo_crates demo_documents demo_record_json demo_env False demo_fs
     = (Inr (Some demo_record), demo_fs)
   \<and> pr_peer_bundle_fp demo_record \<noteq> pr_local_bundle_fp demo_record"
  using demo_load loaded_record_matches_identity [OF demo_json_laws(1) demo_laws(1) demo_env_ok demo_load] by blast

text \<open>C18: resetting the pairing rotates the identity atomically. Wherever the reset fails or is
  interrupted, the identity on disk is the old one or the complete replacement of the next
  generation; a reset that returns has made the replacement current; and once the replacement is
  current, the record of the old generation no longer loads, even if its file could not be
  removed.\<close>

theorem reset_rotates_identity:
  assumes "json_law JI" "b64_law X" "env_ok env" "length (fst rng) = 32" "length (snd rng) = 32"
    and "tmp \<noteq> IDENTITY_FILE" "tmp \<noteq> PAIRING_FILE" and "disk_identity X JI f = Some old"
    and "reset_with_observer X JI env rng fault obs tmp remove_fails f = (r, f')"
  shows "(disk_identity X JI f' = Some old
      \<or> (\<exists>new. disk_identity X JI f' = Some new \<and> unat (id_generation new) = Suc (unat (id_generation old))
           \<and> (\<forall>env2 rec g. env_ok env2 \<longrightarrow> pr_generation rec = id_generation old
                \<longrightarrow> load_pairing debug X JI JP env2 False f' \<noteq> (Inr (Some rec), g))))
    \<and> (\<forall>i. r = Inr i \<longrightarrow> disk_identity X JI f' = Some i \<and> id_generation i = id_generation old + 1)"
proof -
  note d = reset_disk [OF assms]
  have "\<forall>i. r = Inr i \<longrightarrow> disk_identity X JI f' = Some i \<and> id_generation i = id_generation old + 1"
    using d(1) by auto
  moreover let ?new = "\<lparr>id_sign = fst rng, id_dh = snd rng, id_generation = id_generation old + 1\<rparr>"
  have "disk_identity X JI f' = Some old
      \<or> (\<exists>new. disk_identity X JI f' = Some new \<and> unat (id_generation new) = Suc (unat (id_generation old))
           \<and> (\<forall>env2 rec g. env_ok env2 \<longrightarrow> pr_generation rec = id_generation old
                \<longrightarrow> load_pairing debug X JI JP env2 False f' \<noteq> (Inr (Some rec), g)))"
    using d(2)
  proof
    assume n: "id_generation old \<noteq> - 1 \<and> disk_identity X JI f' = Some ?new"
    have "id_generation old + 1 \<noteq> 0" using n by (metis add.right_inverse add_left_imp_eq add.commute)
    then have "unat (id_generation old + 1) = Suc (unat (id_generation old))"
      by (metis add.commute unatSuc)
    moreover have "load_pairing debug X JI JP env2 False f' \<noteq> (Inr (Some rec), g)"
      if "env_ok env2" "pr_generation rec = id_generation old" for env2 rec g
    proof
      assume ld: "load_pairing debug X JI JP env2 False f' = (Inr (Some rec), g)"
      obtain q h where q: "load_identity X JI env2 f' = (q, h)" by fastforce
      have "h = f'" using load_identity_disk(3) [OF assms(1,2) that(1) q] n by blast
      moreover have "g = h" using ld q by (cases q) (auto simp: load_pairing_def)
      ultimately have "pr_generation rec = id_generation old + 1"
        using load_pairing_disk [OF assms(1,2) that(1) ld] n validate_record_generation [of debug X rec] by auto
      with that(2) show False by simp
    qed
    ultimately show ?thesis using n by auto
  qed simp
  ultimately show ?thesis by blast
qed

theorem reset_rotates_identity_witness:
  "case reset_with_observer demo_crates demo_documents demo_env (replicate 32 3, replicate 32 3) None
      None ''u'' True demo_fs of
     (Inr i, f) \<Rightarrow> disk_identity demo_crates demo_documents f = Some i \<and> id_generation i = 2
   | _ \<Rightarrow> False"
proof -
  let ?rng = "(replicate 32 3, replicate 32 3) :: bytes \<times> bytes"
  obtain r f where run: "reset_with_observer demo_crates demo_documents demo_env ?rng None
      None ''u'' True demo_fs = (r, f)" by fastforce
  obtain q g where q: "load_identity demo_crates demo_documents demo_env demo_fs = (q, g)" by fastforce
  from load_identity_disk(3) [OF demo_json_laws(1) demo_laws(1) demo_env_ok q demo_disk_identity] q
  have li: "load_identity demo_crates demo_documents demo_env demo_fs = (Inr (demo_identity 1), demo_fs)"
    by (simp add: demo_env_def)
  have t: "demo_fs ''u'' = None" by (simp add: demo_fs_def IDENTITY_FILE_def PAIRING_FILE_def)
  have doc: "identity_document_of demo_crates ((demo_identity 3)\<lparr>id_generation := 2\<rparr>)
      = \<lparr>doc_generation = 2, doc_sign_sk = b64_encode demo_crates (replicate 32 3),
         doc_dh_sk = b64_encode demo_crates (replicate 32 3)\<rparr>"
    by (simp add: identity_document_of_def demo_identity_def)
  have "id_generation (demo_identity 1) = 1" by (simp add: demo_identity_def)
  then have "is_ok r"
    using run li t doc
    by (auto simp: reset_with_observer_def reset_write_def from_secret_bytes_def Let_def demo_documents_def
        table_json_def)
  then obtain i where i: "r = Inr i" by (auto simp: is_ok_iff)
  have "length (fst ?rng) = 32" "length (snd ?rng) = 32" "''u'' \<noteq> IDENTITY_FILE" "''u'' \<noteq> PAIRING_FILE"
    by (simp_all add: IDENTITY_FILE_def PAIRING_FILE_def)
  from reset_rotates_identity [OF demo_json_laws(1) demo_laws(1) demo_env_ok this demo_disk_identity run] i run
  show ?thesis by (simp add: demo_identity_def)
qed

text \<open>QR content survives the camera: what \<open>QrPayload::new\<close> accepted and printed is read
  back unchanged, and whatever \<open>parse\<close> accepts has a six-character code of upper-case
  letters and digits, a 16-byte nonce and a well-formed bundle.\<close>

theorem qr_round_trip:
  assumes "json_law J" and "b64_law X"
  shows "(qr_new debug server code bundle nonce = Inr q \<and> wf_bundle bundle \<and> length nonce = QR_NONCE_BYTES
      \<and> qr_to_json X J q = Inr bs \<longrightarrow> qr_parse debug X J bs = Inr q)
    \<and> (qr_parse debug X J raw = Inr p \<longrightarrow> length (qr_code p) = 6
        \<and> list_all (\<lambda>c. is_ascii_uppercase c \<or> is_ascii_digit c) (qr_code p)
        \<and> length (qr_nonce_a p) = QR_NONCE_BYTES \<and> wf_bundle (qr_bundle p))"
proof -
  have nonce: "length n = QR_NONCE_BYTES \<Longrightarrow> deserialize_nonce X (serialize_nonce X n) = Inr n" for n
    using assms(2) by (simp add: deserialize_nonce_def serialize_nonce_def)
  have nonce': "deserialize_nonce X s = Inr n \<Longrightarrow> length n = QR_NONCE_BYTES" for s n
    by (auto simp: deserialize_nonce_def and_then_eq_Inr split: if_splits)
  have code: "validate_code c = Inr () \<longleftrightarrow>
      length c = 6 \<and> list_all (\<lambda>c. is_ascii_uppercase c \<or> is_ascii_digit c) c" for c
    by (simp add: validate_code_def)
  have "qr_parse debug X J bs = Inr q" if "qr_new debug server code bundle nonce = Inr q" "wf_bundle bundle"
    "length nonce = QR_NONCE_BYTES" "qr_to_json X J q = Inr bs"
    using that assms(1) nonce deserialize_serialize [OF assms(2)]
    by (auto simp: qr_new_def qr_to_json_def qr_parse_def and_then_eq_Inr json_law_def)
  moreover have "length (qr_code p) = 6 \<and> list_all (\<lambda>c. is_ascii_uppercase c \<or> is_ascii_digit c) (qr_code p)
      \<and> length (qr_nonce_a p) = QR_NONCE_BYTES \<and> wf_bundle (qr_bundle p)" if "qr_parse debug X J raw = Inr p"
    using that nonce' bundle_codec_iff [OF assms(2)]
    by (auto simp: qr_parse_def and_then_eq_Inr code)
  ultimately show ?thesis by blast
qed

definition demo_qr_json :: "qr_json json" where
  "demo_qr_json = table_json [\<lparr>qj_server = qr_server demo_qr, qj_code = qr_code demo_qr,
     qj_bundle = serialize_bundle demo_crates (qr_bundle demo_qr),
     qj_nonce_a = serialize_nonce demo_crates (qr_nonce_a demo_qr)\<rparr>]"

theorem qr_round_trip_witness:
  "qr_to_json demo_crates demo_qr_json demo_qr = Inr [2] \<and> qr_parse False demo_crates demo_qr_json [2] = Inr demo_qr"
proof -
  have j: "qr_to_json demo_crates demo_qr_json demo_qr = Inr [2]"
    by (simp add: qr_to_json_def demo_qr_json_def table_json_def)
  have "qr_new False (qr_server demo_qr) (qr_code demo_qr) (qr_bundle demo_qr) (qr_nonce_a demo_qr) = Inr demo_qr"
    by code_simp
  moreover have "json_law demo_qr_json" by (simp add: demo_qr_json_def)
  ultimately show ?thesis
    using j qr_round_trip [OF _ demo_laws(1), of demo_qr_json False "qr_server demo_qr" "qr_code demo_qr"
        "qr_bundle demo_qr" "qr_nonce_a demo_qr" demo_qr "[2]"]
    by (simp add: demo_qr_def demo_wf QR_NONCE_BYTES_def)
qed

end
