(* ===== verification/Session.thy ===== *)
theory Session
  imports History Pairing
begin

text \<open>
  The clipboard session of crates/core/src/session.rs: durable per-direction state in
  \<open>session.json\<close>, sending with a reserved sequence number, and the four-step receive
  path (commit, history, clear, callback) with restart recovery.

  \<open>session\<close> holds the fields of \<open>Session\<close> together with the bytes of its state file and
  its history store. Every failure is an argument: a failing read or write of each transaction,
  the failures of each history operation, the injected crash stages of the source, and what the
  shell's callback returns or whether it panics. A callback invocation is recorded in the result.
  Clock values are integers; \<open>now_ms\<close> is far from the 64-bit limits, so the window
  arithmetic does not overflow.

  The lemmas show: across any sequence of sends, receives, crashes and restarts the callback is
  fired at most once per sequence number and in increasing order, and no sequence number is
  sealed twice; a callback fires only after its item is durable; a committed item is in the
  history after the next start; and dropped frames change nothing.
\<close>

section \<open>Data\<close>

definition SEEN_IDS_RING :: nat where "SEEN_IDS_RING = 64"
definition LIVE_FRESH_WINDOW_MS :: int where "LIVE_FRESH_WINDOW_MS = 5 * 60 * 1000"
definition LIVE_FUTURE_SKEW_MS :: int where "LIVE_FUTURE_SKEW_MS = 2 * 60 * 1000"
definition MAX_IMAGE_BYTES :: nat where "MAX_IMAGE_BYTES = 10 * 1024 * 1024"
definition ECHO_RING :: nat where "ECHO_RING = 64"

datatype clip_content = CText string | CImage bytes

record clip_item =
  ci_id :: uuid
  ci_ts_ms :: int
  ci_seq :: u64
  ci_content :: clip_content

datatype mailbox_disposition = Applied | Deferred
datatype callback_error = Rejected string | Panicked

text \<open>The shell's callbacks; \<open>None\<close> is a panic.\<close>

record session_callback =
  on_clip :: "clip_item \<Rightarrow> (callback_error + unit) option"
  on_mailbox_clip :: "clip_item \<Rightarrow> (callback_error + mailbox_disposition) option"

datatype inbound_outcome = LiveApplied | MailboxApplied | MailboxDeferred | Duplicate | Replay
  | Unauthenticated

datatype session_error = RecordMismatch | SessionCrypto crypto_error | SessionProtocol protocol_error
  | SessionHistory history_error | SessionIo | SessionJson string | SessionCallback callback_error
  | InjectedFault

record pending_item =
  pi_id :: uuid
  pi_ts_ms :: int
  pi_source :: history_source
  pi_content :: clip_content

record 'p direction =
  ds_generation :: u64
  ds_next_seq :: u64
  ds_last_seq :: u64
  ds_seen_ids :: "string list"
  ds_pending :: "'p list"

type_synonym direction_state = "pending_item direction"

text \<open>\<open>ClipContent\<close> has its own serializer; \<open>content_json\<close>, \<open>pending_json\<close> and
  \<open>document_json\<close> are the JSON forms.\<close>

datatype content_json = JText string | JImage string

record pending_json =
  pjs_id :: uuid
  pjs_ts_ms :: int
  pjs_source :: history_source
  pjs_content :: content_json

type_synonym session_document = "(string \<times> direction_state) list"
type_synonym document_json = "(string \<times> pending_json direction) list"

section \<open>The state file\<close>

definition direction_new :: "u64 \<Rightarrow> direction_state" where
  "direction_new generation = \<lparr>ds_generation = generation, ds_next_seq = 1, ds_last_seq = 0,
     ds_seen_ids = [], ds_pending = []\<rparr>"

fun serialize_content :: "crates \<Rightarrow> clip_content \<Rightarrow> content_json" where
  "serialize_content X (CText c) = JText c"
| "serialize_content X (CImage bs) = JImage (b64_encode X bs)"

fun deserialize_content :: "crates \<Rightarrow> content_json \<Rightarrow> string + clip_content" where
  "deserialize_content X (JText c) = Inr (CText c)"
| "deserialize_content X (JImage s) =
     and_then (b64_decode X s) (\<lambda>decoded.
       if b64_encode X decoded \<noteq> s
       then Inl ''image bytes must use canonical padded STANDARD base64''
       else Inr (CImage decoded))"

definition serialize_pending :: "crates \<Rightarrow> pending_item \<Rightarrow> pending_json" where
  "serialize_pending X p = \<lparr>pjs_id = pi_id p, pjs_ts_ms = pi_ts_ms p, pjs_source = pi_source p,
     pjs_content = serialize_content X (pi_content p)\<rparr>"

definition deserialize_pending :: "crates \<Rightarrow> pending_json \<Rightarrow> string + pending_item" where
  "deserialize_pending X p = and_then (deserialize_content X (pjs_content p)) (\<lambda>c.
     Inr \<lparr>pi_id = pjs_id p, pi_ts_ms = pjs_ts_ms p, pi_source = pjs_source p, pi_content = c\<rparr>)"

fun map_result :: "('a \<Rightarrow> 'e + 'b) \<Rightarrow> 'a list \<Rightarrow> 'e + 'b list" where
  "map_result g [] = Inr []"
| "map_result g (a # as) = and_then (g a) (\<lambda>b. and_then (map_result g as) (\<lambda>bs. Inr (b # bs)))"

definition serialize_direction :: "crates \<Rightarrow> direction_state \<Rightarrow> pending_json direction" where
  "serialize_direction X d = \<lparr>ds_generation = ds_generation d, ds_next_seq = ds_next_seq d,
     ds_last_seq = ds_last_seq d, ds_seen_ids = ds_seen_ids d,
     ds_pending = map (serialize_pending X) (ds_pending d)\<rparr>"

definition deserialize_direction :: "crates \<Rightarrow> pending_json direction \<Rightarrow> string + direction_state" where
  "deserialize_direction X d = and_then (map_result (deserialize_pending X) (ds_pending d)) (\<lambda>ps.
     Inr \<lparr>ds_generation = ds_generation d, ds_next_seq = ds_next_seq d, ds_last_seq = ds_last_seq d,
          ds_seen_ids = ds_seen_ids d, ds_pending = ps\<rparr>)"

definition serialize_document :: "crates \<Rightarrow> session_document \<Rightarrow> document_json" where
  "serialize_document X d = map (\<lambda>(k, s). (k, serialize_direction X s)) d"

definition deserialize_document :: "crates \<Rightarrow> document_json \<Rightarrow> string + session_document" where
  "deserialize_document X d =
     map_result (\<lambda>(k, s). and_then (deserialize_direction X s) (\<lambda>t. Inr (k, t))) d"

definition load_document ::
  "crates \<Rightarrow> document_json json \<Rightarrow> bool \<Rightarrow> bytes option \<Rightarrow> session_error + session_document" where
  "load_document X J read_fails file =
     (if read_fails then Inl SessionIo
      else case file of
        None \<Rightarrow> Inr []
      | Some bs \<Rightarrow> map_err SessionJson (and_then (from_json J bs) (deserialize_document X)))"

record commit_env =
  ce_read_fails :: bool
  ce_fault :: "write_step option"
  ce_tmp_exists :: bool

definition commit_direction ::
  "crates \<Rightarrow> document_json json \<Rightarrow> commit_env \<Rightarrow> string \<Rightarrow> direction_state
   \<Rightarrow> (string \<times> direction_state) option \<Rightarrow> bytes option \<Rightarrow> (session_error + unit) \<times> bytes option" where
  "commit_direction X J env key state extra file =
     (case load_document X J (ce_read_fails env) file of
        Inl e \<Rightarrow> (Inl e, file)
      | Inr document \<Rightarrow>
          (let document = AList.update key state document;
               document = (case extra of None \<Rightarrow> document | Some (k, s) \<Rightarrow> AList.update k s document) in
           case to_json J (serialize_document X document) of
             Inl e \<Rightarrow> (Inl (SessionJson e), file)
           | Inr data \<Rightarrow>
               (let w = write_outcome_of guarded_style (ce_fault env) (ce_tmp_exists env) in
                (if write_ok w then Inr () else Inl SessionIo, after_write w file (Some data)))))"

definition load_direction ::
  "crates \<Rightarrow> document_json json \<Rightarrow> bool \<Rightarrow> string \<Rightarrow> u64 \<Rightarrow> bytes option \<Rightarrow> session_error + direction_state" where
  "load_direction X J read_fails key generation file =
     and_then (load_document X J read_fails file) (\<lambda>document.
       case map_of document key of
         Some state \<Rightarrow> Inr (if ds_generation state = generation then state else direction_new generation)
       | None \<Rightarrow> Inr (direction_new generation))"

definition direction_key :: "string \<Rightarrow> string \<Rightarrow> string \<Rightarrow> string" where
  "direction_key room sender_fp receiver_fp = room @ '':'' @ sender_fp @ '':'' @ receiver_fp"

section \<open>The session\<close>

datatype send_stage = SeqReserved
datatype receive_stage = DeliveryCommitted | HistoryAdded | PendingCleared | StageMailboxApplied
  | SourcePromoted

record session =
  ss_room_id :: string
  ss_self_fp :: string
  ss_peer_fp :: string
  ss_keys :: SessionKeys
  ss_file :: "bytes option"
  ss_send_key :: string
  ss_recv_key :: string
  ss_send_state :: direction_state
  ss_recv_state :: direction_state
  ss_history :: history_store
  ss_echo_hashes :: "string list"

fun history_content_of :: "clip_content \<Rightarrow> history_content" where
  "history_content_of (CText t) = HText t"
| "history_content_of (CImage bs) = HImage bs"

definition pending_as_new :: "pending_item \<Rightarrow> new_history_item" where
  "pending_as_new p = \<lparr>ni_id = pi_id p, ni_ts_ms = pi_ts_ms p, ni_source = pi_source p,
     ni_content = history_content_of (pi_content p)\<rparr>"

text \<open>What one start may meet.\<close>

record start_env =
  st_read_send :: bool
  st_read_recv :: bool
  st_add :: "uuid \<Rightarrow> history_faults"
  st_commit :: commit_env

text \<open>The \<open>Self\<close> value of \<open>new\<close>.\<close>

definition open_session ::
  "pairing_record \<Rightarrow> SessionKeys \<Rightarrow> direction_state \<Rightarrow> bytes option \<Rightarrow> direction_state \<Rightarrow> history_store \<Rightarrow> session" where
  "open_session record keys send_state file recv_state history =
     (let self_fp = pr_local_bundle_fp record; peer_fp = pr_peer_bundle_fp record in
      \<lparr>ss_room_id = pr_room_id record, ss_self_fp = self_fp, ss_peer_fp = peer_fp, ss_keys = keys,
       ss_file = file, ss_send_key = direction_key (pr_room_id record) self_fp peer_fp,
       ss_recv_key = direction_key (pr_room_id record) peer_fp self_fp,
       ss_send_state = send_state, ss_recv_state = recv_state, ss_history = history,
       ss_echo_hashes = []\<rparr>)"

definition session_new ::
  "crates \<Rightarrow> document_json json \<Rightarrow> history_item json \<Rightarrow> identity \<Rightarrow> pairing_record \<Rightarrow> start_env
   \<Rightarrow> bytes option \<Rightarrow> history_store \<Rightarrow> (session_error + session) \<times> bytes option \<times> history_store" where
  "session_new X J JH i record env file history =
     (let generation = id_generation i in
      if pr_generation record \<noteq> generation \<or> pr_local_bundle_fp record \<noteq> id_bundle_fp X i
         \<or> pr_local_bundle_fp record = pr_peer_bundle_fp record
      then (Inl RecordMismatch, file, history)
      else case session_keys X i (pr_peer_bundle record) of
        Inl e \<Rightarrow> (Inl (SessionCrypto e), file, history)
      | Inr keys \<Rightarrow>
      (let self_fp = pr_local_bundle_fp record; peer_fp = pr_peer_bundle_fp record;
           send_key = direction_key (pr_room_id record) self_fp peer_fp;
           recv_key = direction_key (pr_room_id record) peer_fp self_fp in
       case load_direction X J (st_read_send env) send_key generation file of
         Inl e \<Rightarrow> (Inl e, file, history)
       | Inr send_state \<Rightarrow>
       (case load_direction X J (st_read_recv env) recv_key generation file of
          Inl e \<Rightarrow> (Inl e, file, history)
        | Inr recv_state \<Rightarrow>
        (if ds_pending recv_state = []
         then (Inr (open_session record keys send_state file recv_state history), file, history)
         else case add_all (\<lambda>n. history_add X JH (st_add env (ni_id n)) n)
                (map pending_as_new (ds_pending recv_state)) history of
             (Inl e, history) \<Rightarrow> (Inl (SessionHistory e), file, history)
           | (Inr _, history) \<Rightarrow>
             (let recv_state = recv_state\<lparr>ds_pending := []\<rparr> in
              case commit_direction X J (st_commit env) recv_key recv_state None file of
                (Inl e, file) \<Rightarrow> (Inl e, file, history)
              | (Inr _, file) \<Rightarrow>
                  (Inr (open_session record keys send_state file recv_state history), file, history))))))"

definition is_echo :: "string \<Rightarrow> session \<Rightarrow> bool" where
  "is_echo hash s \<longleftrightarrow> list_ex (\<lambda>known. known = hash) (ss_echo_hashes s)"

definition text_hash :: "crates \<Rightarrow> string \<Rightarrow> string" where
  "text_hash X content = hex_lower (sha256 X (as_bytes content))"

definition register_echo :: "string \<Rightarrow> session \<Rightarrow> session" where
  "register_echo hash s =
     (if list_ex (\<lambda>known. known = hash) (ss_echo_hashes s) then s
      else s\<lparr>ss_echo_hashes := keep_last ECHO_RING (ss_echo_hashes s @ [hash])\<rparr>)"

fun echo_text :: "crates \<Rightarrow> clip_content \<Rightarrow> session \<Rightarrow> session" where
  "echo_text X (CText t) s = register_echo (text_hash X t) s"
| "echo_text X (CImage _) s = s"

subsection \<open>Sending\<close>

record send_env =
  se_commit :: commit_env
  se_item_id :: uuid
  se_nonce :: bytes
  se_add :: history_faults
  se_fail_at :: "send_stage option"

fun raw_content :: "clip_content \<Rightarrow> content_kind \<times> bytes" where
  "raw_content (CText t) = (KText, as_bytes t)"
| "raw_content (CImage bs) = (KImage, bs)"

fun image_size :: "clip_content \<Rightarrow> nat" where
  "image_size (CText _) = 0"
| "image_size (CImage bs) = length bs"

definition send_clip_with_fault ::
  "crates \<Rightarrow> envelope json \<Rightarrow> document_json json \<Rightarrow> history_item json \<Rightarrow> send_env
   \<Rightarrow> clip_content \<Rightarrow> int \<Rightarrow> session \<Rightarrow> (session_error + frame) \<times> session" where
  "send_clip_with_fault X JE J JH env content ts_ms s =
     (if image_size content > MAX_IMAGE_BYTES
      then (Inl (SessionProtocol (Oversize (image_size content) MAX_IMAGE_BYTES)), s)
      else let seq = ds_next_seq (ss_send_state s) in
      if seq = - 1 then (Inl RecordMismatch, s)
      else let reserved = (ss_send_state s)\<lparr>ds_next_seq := seq + 1\<rparr> in
      case commit_direction X J (se_commit env) (ss_send_key s) reserved None (ss_file s) of
        (Inl e, file) \<Rightarrow> (Inl e, s\<lparr>ss_file := file\<rparr>)
      | (Inr _, file) \<Rightarrow>
      (let s = s\<lparr>ss_file := file, ss_send_state := reserved\<rparr> in
       if se_fail_at env = Some SeqReserved then (Inl InjectedFault, s)
       else let (kind, raw) = raw_content content;
                item_id = se_item_id env;
                envelope = \<lparr>env_v = PROTOCOL_VERSION, env_kind = kind, env_item_id = uuid_to_string X item_id,
                            env_seq = seq, env_ts_ms = ts_ms, env_content_b64 = b64_encode X raw\<rparr> in
       case encode_envelope X JE envelope of
         Inl e \<Rightarrow> (Inl (SessionProtocol e), s)
       | Inr encoded \<Rightarrow>
       (case seal X (se_nonce env) (sk_send (ss_keys s))
               (aad (ss_room_id s) (ss_self_fp s) (ss_peer_fp s)) encoded of
          Inl e \<Rightarrow> (Inl (SessionCrypto e), s)
        | Inr sealed \<Rightarrow>
        (case history_add X JH (se_add env) \<lparr>ni_id = item_id, ni_ts_ms = ts_ms, ni_source = Local,
                ni_content = history_content_of content\<rparr> (ss_history s) of
           (Inl e, h) \<Rightarrow> (Inl (SessionHistory e), s\<lparr>ss_history := h\<rparr>)
         | (Inr _, h) \<Rightarrow>
             (Inr (Clip (ss_room_id s) (b64_encode X sealed) [] False),
              echo_text X content (s\<lparr>ss_history := h\<rparr>))))))"

definition send_clip ::
  "crates \<Rightarrow> envelope json \<Rightarrow> document_json json \<Rightarrow> history_item json \<Rightarrow> send_env
   \<Rightarrow> clip_content \<Rightarrow> int \<Rightarrow> session \<Rightarrow> (session_error + frame) \<times> session" where
  "send_clip X JE J JH env content ts_ms s =
     send_clip_with_fault X JE J JH (env\<lparr>se_fail_at := None\<rparr>) content ts_ms s"

subsection \<open>Receiving\<close>

definition decode_content :: "crates \<Rightarrow> content_kind \<Rightarrow> string \<Rightarrow> clip_content option" where
  "decode_content X kind content_b64 =
     (case b64_decode X content_b64 of
        Inl _ \<Rightarrow> None
      | Inr raw \<Rightarrow> (case kind of
            KText \<Rightarrow> if utf8_valid raw then Some (CText (of_bytes raw)) else None
          | KImage \<Rightarrow> Some (CImage raw)))"

definition authenticate :: "crates \<Rightarrow> envelope json \<Rightarrow> session \<Rightarrow> string \<Rightarrow> string \<Rightarrow> clip_item option" where
  "authenticate X JE s room ciphertext_b64 =
     (if room \<noteq> ss_room_id s then None
      else case b64_decode X ciphertext_b64 of
        Inl _ \<Rightarrow> None
      | Inr sealed \<Rightarrow>
      (case open_sealed X (sk_recv (ss_keys s)) (aad (ss_room_id s) (ss_peer_fp s) (ss_self_fp s)) sealed of
         Inl _ \<Rightarrow> None
       | Inr plaintext \<Rightarrow>
       (case decode_envelope X JE plaintext of
          Inl _ \<Rightarrow> None
        | Inr e \<Rightarrow>
        (case uuid_parse X (env_item_id e) of
           None \<Rightarrow> None
         | Some i \<Rightarrow>
         (case decode_content X (env_kind e) (env_content_b64 e) of
            None \<Rightarrow> None
          | Some c \<Rightarrow> Some \<lparr>ci_id = i, ci_ts_ms = env_ts_ms e, ci_seq = env_seq e, ci_content = c\<rparr>)))))"

definition invoke_callback ::
  "session_callback \<Rightarrow> clip_item \<Rightarrow> bool \<Rightarrow> callback_error + mailbox_disposition" where
  "invoke_callback cb item mailbox =
     (case (if mailbox then on_mailbox_clip cb item
            else map_option (\<lambda>r. and_then r (\<lambda>_. Inr Applied)) (on_clip cb item)) of
        Some outcome \<Rightarrow> outcome | None \<Rightarrow> Inl Panicked)"

record receive_env =
  re_commit :: commit_env
  re_add :: history_faults
  re_clear :: commit_env
  re_promote :: history_faults
  re_callback :: session_callback
  re_fail_at :: "receive_stage option"

definition is_fresh :: "bool \<Rightarrow> int \<Rightarrow> int \<Rightarrow> bool" where
  "is_fresh mailbox ts_ms now_ms \<longleftrightarrow> \<not> mailbox \<and> ts_ms \<ge> now_ms - LIVE_FRESH_WINDOW_MS
     \<and> ts_ms \<le> now_ms + LIVE_FUTURE_SKEW_MS"

text \<open>Step 1's new state.\<close>

definition delivered_state ::
  "crates \<Rightarrow> clip_item \<Rightarrow> history_source \<Rightarrow> direction_state \<Rightarrow> direction_state" where
  "delivered_state X item source d =
     d\<lparr>ds_last_seq := max (ds_last_seq d) (ci_seq item),
       ds_seen_ids := keep_last SEEN_IDS_RING (ds_seen_ids d @ [uuid_to_string X (ci_id item)]),
       ds_pending := ds_pending d @ [\<lparr>pi_id = ci_id item, pi_ts_ms = ci_ts_ms item, pi_source = source,
                                      pi_content = ci_content item\<rparr>]\<rparr>"

text \<open>Step 4: the callback and what follows it.\<close>

definition deliver ::
  "crates \<Rightarrow> history_item json \<Rightarrow> receive_env \<Rightarrow> clip_item \<Rightarrow> bool \<Rightarrow> session
   \<Rightarrow> (session_error + inbound_outcome) \<times> session" where
  "deliver X JH env item fresh s =
     (if fresh then
        (case invoke_callback (re_callback env) item False of
           Inl e \<Rightarrow> (Inl (SessionCallback e), s)
         | Inr _ \<Rightarrow> (Inr LiveApplied, echo_text X (ci_content item) s))
      else
        (case invoke_callback (re_callback env) item True of
           Inl e \<Rightarrow> (Inl (SessionCallback e), s)
         | Inr Deferred \<Rightarrow> (Inr MailboxDeferred, s)
         | Inr Applied \<Rightarrow>
             (if re_fail_at env = Some StageMailboxApplied then (Inl InjectedFault, s)
              else case set_source JH (re_promote env) (ci_id item) Remote (ss_history s) of
                (Inl e, h) \<Rightarrow> (Inl (SessionHistory e), s\<lparr>ss_history := h\<rparr>)
              | (Inr _, h) \<Rightarrow>
                  (let s = s\<lparr>ss_history := h\<rparr> in
                   if re_fail_at env = Some SourcePromoted then (Inl InjectedFault, s)
                   else (Inr MailboxApplied, echo_text X (ci_content item) s)))))"

text \<open>Steps 3 and 4: clear the pending entry in a second transaction, then call back. The result
  lists the callback invocations: the item, and whether it went to \<open>on_mailbox_clip\<close>.\<close>

definition clear_pending_and_deliver ::
  "crates \<Rightarrow> document_json json \<Rightarrow> history_item json \<Rightarrow> receive_env \<Rightarrow> clip_item \<Rightarrow> bool \<Rightarrow> session
   \<Rightarrow> (session_error + inbound_outcome) \<times> (bool \<times> clip_item) list \<times> session" where
  "clear_pending_and_deliver X J JH env item fresh s =
     (let cleared = (ss_recv_state s)\<lparr>ds_pending :=
            filter (\<lambda>p. pi_id p \<noteq> ci_id item) (ds_pending (ss_recv_state s))\<rparr> in
      case commit_direction X J (re_clear env) (ss_recv_key s) cleared None (ss_file s) of
        (Inl e, file) \<Rightarrow> (Inl e, [], s\<lparr>ss_file := file\<rparr>)
      | (Inr _, file) \<Rightarrow>
          (let s = s\<lparr>ss_file := file, ss_recv_state := cleared\<rparr> in
           if re_fail_at env = Some PendingCleared then (Inl InjectedFault, [], s)
           else case deliver X JH env item fresh s of
             (r, s) \<Rightarrow> (r, [(\<not> fresh, item)], s)))"

text \<open>Steps 2 to 4.\<close>

definition record_and_deliver ::
  "crates \<Rightarrow> document_json json \<Rightarrow> history_item json \<Rightarrow> receive_env \<Rightarrow> clip_item \<Rightarrow> bool \<Rightarrow> history_source
   \<Rightarrow> session \<Rightarrow> (session_error + inbound_outcome) \<times> (bool \<times> clip_item) list \<times> session" where
  "record_and_deliver X J JH env item fresh source s =
     (case history_add X JH (re_add env) \<lparr>ni_id = ci_id item, ni_ts_ms = ci_ts_ms item,
             ni_source = source, ni_content = history_content_of (ci_content item)\<rparr> (ss_history s) of
        (Inl e, h) \<Rightarrow> (Inl (SessionHistory e), [], s\<lparr>ss_history := h\<rparr>)
      | (Inr _, h) \<Rightarrow>
          (let s = s\<lparr>ss_history := h\<rparr> in
           if re_fail_at env = Some HistoryAdded then (Inl InjectedFault, [], s)
           else clear_pending_and_deliver X J JH env item fresh s))"

definition handle_clip_with_fault ::
  "crates \<Rightarrow> envelope json \<Rightarrow> document_json json \<Rightarrow> history_item json \<Rightarrow> receive_env
   \<Rightarrow> string \<Rightarrow> string \<Rightarrow> bool \<Rightarrow> int \<Rightarrow> session
   \<Rightarrow> (session_error + inbound_outcome) \<times> (bool \<times> clip_item) list \<times> session" where
  "handle_clip_with_fault X JE J JH env room ciphertext_b64 mailbox now_ms s =
     (case authenticate X JE s room ciphertext_b64 of
        None \<Rightarrow> (Inr Unauthenticated, [], s)
      | Some item \<Rightarrow>
          (if list_ex (\<lambda>i. i = uuid_to_string X (ci_id item)) (ds_seen_ids (ss_recv_state s))
           then (Inr Duplicate, [], s)
           else if ci_seq item \<le> ds_last_seq (ss_recv_state s) then (Inr Replay, [], s)
           else let fresh = is_fresh mailbox (ci_ts_ms item) now_ms;
                    source = (if fresh then Remote else RemoteDeferred);
                    committed = delivered_state X item source (ss_recv_state s) in
           case commit_direction X J (re_commit env) (ss_recv_key s) committed None (ss_file s) of
             (Inl e, file) \<Rightarrow> (Inl e, [], s\<lparr>ss_file := file\<rparr>)
           | (Inr _, file) \<Rightarrow>
               (let s = s\<lparr>ss_file := file, ss_recv_state := committed\<rparr> in
                if re_fail_at env = Some DeliveryCommitted then (Inl InjectedFault, [], s)
                else record_and_deliver X J JH env item fresh source s)))"

definition handle_clip ::
  "crates \<Rightarrow> envelope json \<Rightarrow> document_json json \<Rightarrow> history_item json \<Rightarrow> receive_env
   \<Rightarrow> string \<Rightarrow> string \<Rightarrow> bool \<Rightarrow> int \<Rightarrow> session
   \<Rightarrow> (session_error + inbound_outcome) \<times> (bool \<times> clip_item) list \<times> session" where
  "handle_clip X JE J JH env room ciphertext_b64 mailbox now_ms s =
     handle_clip_with_fault X JE J JH (env\<lparr>re_fail_at := None\<rparr>) room ciphertext_b64 mailbox now_ms s"

subsection \<open>The other operations\<close>

definition apply_deferred ::
  "crates \<Rightarrow> history_item json \<Rightarrow> history_faults \<Rightarrow> uuid \<Rightarrow> session \<Rightarrow> (session_error + unit) \<times> session" where
  "apply_deferred X JH hf i s =
     (case set_source JH hf i Remote (ss_history s) of
        (Inl e, h) \<Rightarrow> (Inl (SessionHistory e), s\<lparr>ss_history := h\<rparr>)
      | (Inr _, h) \<Rightarrow>
          (let s = s\<lparr>ss_history := h\<rparr> in
           (Inr (), case find (\<lambda>item. hi_id item = i) (hs_items h) of
              Some item \<Rightarrow> (case hi_kind item of
                  KindText content \<Rightarrow> register_echo (text_hash X content) s | KindImage _ \<Rightarrow> s)
            | None \<Rightarrow> s)))"

definition clear_history ::
  "history_item json \<Rightarrow> history_faults \<Rightarrow> session \<Rightarrow> (session_error + unit) \<times> session" where
  "clear_history JH hf s =
     (case history_clear JH hf (ss_history s) of
        (r, h) \<Rightarrow> (map_err SessionHistory r, s\<lparr>ss_history := h\<rparr>))"

section \<open>Facts\<close>

subsection \<open>The state file\<close>

lemma map_result_inverse: "(\<And>a. a \<in> set as \<Longrightarrow> g (h a) = Inr a) \<Longrightarrow> map_result g (map h as) = Inr as"
  by (induction as) simp_all

lemma content_round_trip: "b64_law X \<Longrightarrow> deserialize_content X (serialize_content X c) = Inr c"
  by (cases c) simp_all

lemma document_round_trip:
  assumes "b64_law X" shows "deserialize_document X (serialize_document X d) = Inr d"
proof -
  have p: "deserialize_pending X (serialize_pending X q) = Inr q" for q
    using assms by (simp add: deserialize_pending_def serialize_pending_def content_round_trip)
  have "deserialize_direction X (serialize_direction X q) = Inr q" for q
    using p by (simp add: deserialize_direction_def serialize_direction_def map_result_inverse)
  then show ?thesis
    unfolding deserialize_document_def serialize_document_def by (intro map_result_inverse) auto
qed

text \<open>The laws the session relies on for its state file.\<close>

definition session_laws :: "crates \<Rightarrow> document_json json \<Rightarrow> bool" where
  "session_laws X J \<longleftrightarrow> b64_law X \<and> json_law J"

lemma load_document_written:
  assumes "session_laws X J" and "to_json J (serialize_document X d) = Inr data"
  shows "load_document X J False (Some data) = Inr d"
  using assms document_round_trip by (simp add: load_document_def session_laws_def json_law_def)

lemma commit_direction_cases:
  assumes "session_laws X J" and "commit_direction X J env key st None file = (r, file')"
  obtains (unwritten) e where "r = Inl e" "file' = file"
  | (written) d where "load_document X J False file = Inr d"
      "load_document X J False file' = Inr (AList.update key st d)"
proof (cases "load_document X J (ce_read_fails env) file")
  case (Inl e)
  then have "r = Inl e" "file' = file" using assms(2) by (simp_all add: commit_direction_def)
  then show thesis by (rule unwritten)
next
  case (Inr d)
  then have ld: "load_document X J False file = Inr d" by (auto simp: load_document_def split: if_splits)
  show thesis
  proof (cases "to_json J (serialize_document X (AList.update key st d))")
    case (Inl e)
    then have "r = Inl (SessionJson e)" "file' = file"
      using assms(2) Inr by (simp_all add: commit_direction_def Let_def)
    then show thesis by (rule unwritten)
  next
    case data: (Inr data)
    let ?w = "write_outcome_of guarded_style (ce_fault env) (ce_tmp_exists env)"
    have f': "file' = after_write ?w file (Some data)" and r: "r = (if write_ok ?w then Inr () else Inl SessionIo)"
      using assms(2) Inr data by (simp_all add: commit_direction_def Let_def)
    show thesis
    proof (cases "?w = Failed_before")
      case True
      then have "r = Inl SessionIo" "file' = file" using f' r by simp_all
      then show thesis by (rule unwritten)
    next
      case False
      then have "file' = Some data" using f' by (simp add: after_write_def)
      with ld load_document_written [OF assms(1) data] show thesis by (intro written) simp_all
    qed
  qed
qed

lemma load_direction_eq:
  "load_direction X J rf key gen file =
     (case load_document X J rf file of Inl e \<Rightarrow> Inl e
      | Inr d \<Rightarrow> Inr (case map_of d key of Some st \<Rightarrow> if ds_generation st = gen then st else direction_new gen
                     | None \<Rightarrow> direction_new gen))"
  by (simp add: load_direction_def and_then_def split: sum.split option.split)

text \<open>A commit writes one direction and leaves the others: the file afterwards loads as before,
  or the committed key loads the committed state and every other key loads as before.\<close>

lemma commit_direction_load:
  assumes "session_laws X J" and "commit_direction X J env key st None file = (r, file')"
    and "ds_generation st = gen"
  shows "load_direction X J False key gen file' = load_direction X J False key gen file
      \<or> load_direction X J False key gen file' = Inr st"
    and "r = Inr () \<Longrightarrow> load_direction X J False key gen file' = Inr st"
    and "k \<noteq> key \<Longrightarrow> load_direction X J False k g file' = load_direction X J False k g file"
  using assms(1,2)
  by (cases rule: commit_direction_cases; simp add: load_direction_eq map_of_update assms(3))+

lemma echo_text_fields [simp]:
  "ss_file (echo_text X c s) = ss_file s" "ss_send_key (echo_text X c s) = ss_send_key s"
  "ss_recv_key (echo_text X c s) = ss_recv_key s" "ss_send_state (echo_text X c s) = ss_send_state s"
  "ss_recv_state (echo_text X c s) = ss_recv_state s" "ss_history (echo_text X c s) = ss_history s"
  "ss_room_id (echo_text X c s) = ss_room_id s" "ss_self_fp (echo_text X c s) = ss_self_fp s"
  "ss_peer_fp (echo_text X c s) = ss_peer_fp s" "ss_keys (echo_text X c s) = ss_keys s"
  by (cases c; simp add: register_echo_def)+

subsection \<open>Case rules for the operations\<close>

lemma send_clip_cases:
  assumes "send_clip_with_fault X JE J JH env content ts s = (r, s')"
  obtains (refused) e where "r = Inl e" "s' = s"
  | (unreserved) e fl where "ds_next_seq (ss_send_state s) \<noteq> - 1"
      "commit_direction X J (se_commit env) (ss_send_key s)
         ((ss_send_state s)\<lparr>ds_next_seq := ds_next_seq (ss_send_state s) + 1\<rparr>) None (ss_file s) = (Inl e, fl)"
      "r = Inl e" "s' = s\<lparr>ss_file := fl\<rparr>"
  | (reserved) fl where "ds_next_seq (ss_send_state s) \<noteq> - 1"
      "commit_direction X J (se_commit env) (ss_send_key s)
         ((ss_send_state s)\<lparr>ds_next_seq := ds_next_seq (ss_send_state s) + 1\<rparr>) None (ss_file s) = (Inr (), fl)"
      "ss_file s' = fl"
      "ss_send_state s' = (ss_send_state s)\<lparr>ds_next_seq := ds_next_seq (ss_send_state s) + 1\<rparr>"
      "ss_recv_state s' = ss_recv_state s" "ss_send_key s' = ss_send_key s" "ss_recv_key s' = ss_recv_key s"
proof -
  let ?res = "(ss_send_state s)\<lparr>ds_next_seq := ds_next_seq (ss_send_state s) + 1\<rparr>"
  obtain q fl where c: "commit_direction X J (se_commit env) (ss_send_key s) ?res None (ss_file s) = (q, fl)"
    by fastforce
  show thesis
  proof (cases "image_size content > MAX_IMAGE_BYTES \<or> ds_next_seq (ss_send_state s) = - 1")
    case True
    with assms have "\<exists>e. r = Inl e" "s' = s"
      by (auto simp: send_clip_with_fault_def Let_def split: if_splits)
    then show thesis using refused by blast
  next
    case False
    show thesis
    proof (cases q)
      case (Inl e)
      with assms c False have "r = Inl e" "s' = s\<lparr>ss_file := fl\<rparr>"
        by (simp_all add: send_clip_with_fault_def Let_def)
      with c Inl False show thesis by (intro unreserved) simp_all
    next
      case (Inr u)
      with assms c False have "ss_file s' = fl \<and> ss_send_state s' = ?res \<and> ss_recv_state s' = ss_recv_state s
          \<and> ss_send_key s' = ss_send_key s \<and> ss_recv_key s' = ss_recv_key s"
        by (auto simp: send_clip_with_fault_def Let_def split: if_splits prod.splits sum.splits)
      with c Inr False show thesis by (intro reserved) simp_all
    qed
  qed
qed

lemma deliver_fields:
  assumes "deliver X JH env item fresh s = (r, s')"
  shows "ss_file s' = ss_file s" "ss_send_state s' = ss_send_state s" "ss_recv_state s' = ss_recv_state s"
    "ss_send_key s' = ss_send_key s" "ss_recv_key s' = ss_recv_key s"
    "ss_history s' = ss_history s \<or> ss_history s' = snd (set_source JH (re_promote env) (ci_id item) Remote (ss_history s))"
  using assms
  by (auto simp: deliver_def Let_def split: if_splits sum.splits prod.splits mailbox_disposition.splits)

lemma clear_pending_cases:
  assumes "clear_pending_and_deliver X J JH env item fresh s = (r, calls, s')"
  defines "cleared \<equiv> (ss_recv_state s)\<lparr>ds_pending :=
            filter (\<lambda>p. pi_id p \<noteq> ci_id item) (ds_pending (ss_recv_state s))\<rparr>"
  obtains (failed) e fl where
      "commit_direction X J (re_clear env) (ss_recv_key s) cleared None (ss_file s) = (Inl e, fl)"
      "r = Inl e" "calls = []" "s' = s\<lparr>ss_file := fl\<rparr>"
  | (stopped) fl where
      "commit_direction X J (re_clear env) (ss_recv_key s) cleared None (ss_file s) = (Inr (), fl)"
      "r = Inl InjectedFault" "calls = []" "s' = s\<lparr>ss_file := fl, ss_recv_state := cleared\<rparr>"
  | (called) fl where
      "commit_direction X J (re_clear env) (ss_recv_key s) cleared None (ss_file s) = (Inr (), fl)"
      "calls = [(\<not> fresh, item)]"
      "deliver X JH env item fresh (s\<lparr>ss_file := fl, ss_recv_state := cleared\<rparr>) = (r, s')"
proof -
  obtain q fl where c: "commit_direction X J (re_clear env) (ss_recv_key s) cleared None (ss_file s) = (q, fl)"
    by fastforce
  note run = assms(1) [unfolded clear_pending_and_deliver_def Let_def, folded cleared_def, unfolded c]
  show thesis
  proof (cases q)
    case (Inl e)
    with run have "r = Inl e" "calls = []" "s' = s\<lparr>ss_file := fl\<rparr>" by simp_all
    with c Inl show thesis by (intro failed) simp_all
  next
    case (Inr u)
    show thesis
    proof (cases "re_fail_at env = Some PendingCleared")
      case True
      with run Inr have "r = Inl InjectedFault" "calls = []" "s' = s\<lparr>ss_file := fl, ss_recv_state := cleared\<rparr>"
        by simp_all
      with c Inr show thesis by (intro stopped) simp_all
    next
      case False
      with run Inr have "calls = [(\<not> fresh, item)]"
        "deliver X JH env item fresh (s\<lparr>ss_file := fl, ss_recv_state := cleared\<rparr>) = (r, s')"
        by (auto split: prod.splits)
      with c Inr show thesis by (intro called) simp_all
    qed
  qed
qed

lemma record_and_deliver_cases:
  assumes "record_and_deliver X J JH env item fresh source s = (r, calls, s')"
  defines "entry \<equiv> \<lparr>ni_id = ci_id item, ni_ts_ms = ci_ts_ms item, ni_source = source,
      ni_content = history_content_of (ci_content item)\<rparr>"
  obtains (stopped) q h e where "history_add X JH (re_add env) entry (ss_history s) = (q, h)"
      "r = Inl e" "calls = []" "s' = s\<lparr>ss_history := h\<rparr>"
  | (added) h where "history_add X JH (re_add env) entry (ss_history s) = (Inr (), h)"
      "clear_pending_and_deliver X J JH env item fresh (s\<lparr>ss_history := h\<rparr>) = (r, calls, s')"
proof -
  obtain q h where a: "history_add X JH (re_add env) entry (ss_history s) = (q, h)" by fastforce
  note run = assms(1) [unfolded record_and_deliver_def Let_def, folded entry_def, unfolded a]
  show thesis
  proof (cases "is_ok q \<and> re_fail_at env \<noteq> Some HistoryAdded")
    case True
    with a run have "history_add X JH (re_add env) entry (ss_history s) = (Inr (), h)"
      "clear_pending_and_deliver X J JH env item fresh (s\<lparr>ss_history := h\<rparr>) = (r, calls, s')"
      by (auto simp: is_ok_iff)
    then show thesis by (rule added)
  next
    case False
    then have "\<exists>e. r = Inl e" "calls = []" "s' = s\<lparr>ss_history := h\<rparr>"
      using run by (cases q; auto)+
    with a show thesis using stopped by blast
  qed
qed

lemma handle_clip_cases:
  assumes "handle_clip_with_fault X JE J JH env room ct mailbox now s = (r, calls, s')"
  obtains (dropped) p where "r = Inr p" "p \<in> {Unauthenticated, Duplicate, Replay}" "calls = []" "s' = s"
  | (accepted) item source q fl where "authenticate X JE s room ct = Some item"
      "uuid_to_string X (ci_id item) \<notin> set (ds_seen_ids (ss_recv_state s))"
      "ds_last_seq (ss_recv_state s) < ci_seq item"
      "source = (if is_fresh mailbox (ci_ts_ms item) now then Remote else RemoteDeferred)"
      "commit_direction X J (re_commit env) (ss_recv_key s) (delivered_state X item source (ss_recv_state s))
         None (ss_file s) = (q, fl)"
      "(\<exists>e. q = Inl e \<and> r = Inl e) \<and> calls = [] \<and> s' = s\<lparr>ss_file := fl\<rparr>
       \<or> q = Inr () \<and> r = Inl InjectedFault \<and> calls = []
         \<and> s' = s\<lparr>ss_file := fl, ss_recv_state := delivered_state X item source (ss_recv_state s)\<rparr>
       \<or> q = Inr () \<and> record_and_deliver X J JH env item (is_fresh mailbox (ci_ts_ms item) now) source
           (s\<lparr>ss_file := fl, ss_recv_state := delivered_state X item source (ss_recv_state s)\<rparr>) = (r, calls, s')"
proof (cases "authenticate X JE s room ct")
  case None
  with assms have "r = Inr Unauthenticated" "calls = []" "s' = s" by (simp_all add: handle_clip_with_fault_def)
  then show thesis using dropped by blast
next
  case (Some item)
  let ?src = "if is_fresh mailbox (ci_ts_ms item) now then Remote else RemoteDeferred"
  let ?seen = "uuid_to_string X (ci_id item) \<in> set (ds_seen_ids (ss_recv_state s))"
  obtain q fl where c: "commit_direction X J (re_commit env) (ss_recv_key s)
      (delivered_state X item ?src (ss_recv_state s)) None (ss_file s) = (q, fl)" by fastforce
  have ex: "list_ex (\<lambda>i. i = uuid_to_string X (ci_id item)) (ds_seen_ids (ss_recv_state s)) = ?seen"
    by (auto simp: list_ex_iff)
  note run = assms [unfolded handle_clip_with_fault_def Some option.case Let_def ex c prod.case]
  show thesis
  proof (cases "?seen \<or> ci_seq item \<le> ds_last_seq (ss_recv_state s)")
    case True
    with run have "\<exists>p. r = Inr p \<and> p \<in> {Unauthenticated, Duplicate, Replay}" "calls = []" "s' = s"
      by (auto split: if_splits)
    then show thesis using dropped by blast
  next
    case False
    with run have "(\<exists>e. q = Inl e \<and> r = Inl e) \<and> calls = [] \<and> s' = s\<lparr>ss_file := fl\<rparr>
       \<or> q = Inr () \<and> r = Inl InjectedFault \<and> calls = []
         \<and> s' = s\<lparr>ss_file := fl, ss_recv_state := delivered_state X item ?src (ss_recv_state s)\<rparr>
       \<or> q = Inr () \<and> record_and_deliver X J JH env item (is_fresh mailbox (ci_ts_ms item) now) ?src
           (s\<lparr>ss_file := fl, ss_recv_state := delivered_state X item ?src (ss_recv_state s)\<rparr>) = (r, calls, s')"
      by (cases q) (auto split: if_splits)
    moreover have "ds_last_seq (ss_recv_state s) < ci_seq item" using False by (simp add: not_le)
    ultimately show thesis using Some False c by (intro accepted) simp_all
  qed
qed

lemma load_direction_Inr:
  assumes "load_direction X J rf key gen fl = Inr st"
  shows "load_direction X J False key gen fl = Inr st" and "ds_generation st = gen"
  using assms
  by (auto simp: load_direction_eq load_document_def direction_new_def split: if_splits sum.splits option.splits)

lemma session_new_cases:
  assumes "session_new X J JH i rec env fl h = (r, fl', h')"
  defines "rk \<equiv> direction_key (pr_room_id rec) (pr_peer_bundle_fp rec) (pr_local_bundle_fp rec)"
    and "sk \<equiv> direction_key (pr_room_id rec) (pr_local_bundle_fp rec) (pr_peer_bundle_fp rec)"
  obtains (refused) e where "r = Inl e" "fl' = fl"
  | (idle) keys snd rcv where "pr_local_bundle_fp rec = id_bundle_fp X i"
      "pr_local_bundle_fp rec \<noteq> pr_peer_bundle_fp rec" "session_keys X i (pr_peer_bundle rec) = Inr keys"
      "load_direction X J False sk (id_generation i) fl = Inr snd"
      "load_direction X J False rk (id_generation i) fl = Inr rcv" "ds_pending rcv = []"
      "r = Inr (open_session rec keys snd fl rcv h)" "fl' = fl" "h' = h"
  | (replayed) keys snd rcv q where "pr_local_bundle_fp rec = id_bundle_fp X i"
      "pr_local_bundle_fp rec \<noteq> pr_peer_bundle_fp rec" "session_keys X i (pr_peer_bundle rec) = Inr keys"
      "load_direction X J False sk (id_generation i) fl = Inr snd"
      "load_direction X J False rk (id_generation i) fl = Inr rcv" "ds_pending rcv \<noteq> []"
      "add_all (\<lambda>n. history_add X JH (st_add env (ni_id n)) n) (map pending_as_new (ds_pending rcv)) h = (Inr (), h')"
      "commit_direction X J (st_commit env) rk (rcv\<lparr>ds_pending := []\<rparr>) None fl = (q, fl')"
      "r = (case q of Inl e \<Rightarrow> Inl e | Inr _ \<Rightarrow> Inr (open_session rec keys snd fl' (rcv\<lparr>ds_pending := []\<rparr>) h'))"
proof -
  note run = assms(1) [unfolded session_new_def Let_def, folded rk_def sk_def]
  show thesis
  proof (cases "pr_generation rec \<noteq> id_generation i \<or> pr_local_bundle_fp rec \<noteq> id_bundle_fp X i
      \<or> pr_local_bundle_fp rec = pr_peer_bundle_fp rec")
    case True
    with run have "r = Inl RecordMismatch" "fl' = fl" by simp_all
    then show thesis by (rule refused)
  next
    case False
    note run = run [unfolded if_not_P [OF False]]
    show thesis
    proof (cases "is_ok (session_keys X i (pr_peer_bundle rec))
        \<and> is_ok (load_direction X J (st_read_send env) sk (id_generation i) fl)
        \<and> is_ok (load_direction X J (st_read_recv env) rk (id_generation i) fl)")
      case bad: False
      with run have "(\<exists>e. r = Inl e) \<and> fl' = fl" by (auto split: sum.splits)
      then show thesis using refused by blast
    next
      case True
      then obtain keys snd rcv where k: "session_keys X i (pr_peer_bundle rec) = Inr keys"
        and s: "load_direction X J (st_read_send env) sk (id_generation i) fl = Inr snd"
        and d: "load_direction X J (st_read_recv env) rk (id_generation i) fl = Inr rcv"
        by (auto simp: is_ok_iff)
      note run = run [unfolded k s d sum.case]
      obtain a g where a: "add_all (\<lambda>n. history_add X JH (st_add env (ni_id n)) n)
          (map pending_as_new (ds_pending rcv)) h = (a, g)" by fastforce
      obtain q f where q: "commit_direction X J (st_commit env) rk (rcv\<lparr>ds_pending := []\<rparr>) None fl = (q, f)"
        by fastforce
      show thesis
      proof (cases "ds_pending rcv = []")
        case True
        then show thesis using run k False load_direction_Inr(1) [OF s] load_direction_Inr(1) [OF d]
          by (intro idle) auto
      next
        case pend: False
        show thesis
        proof (cases a)
          case (Inl e)
          with run pend a have "r = Inl (SessionHistory e)" "fl' = fl" by auto
          then show thesis by (rule refused)
        next
          case (Inr u)
          with run pend a q have res: "fl' = f" "h' = g"
            "r = (case q of Inl e \<Rightarrow> Inl e | Inr _ \<Rightarrow> Inr (open_session rec keys snd fl' (rcv\<lparr>ds_pending := []\<rparr>) h'))"
            by (cases q; auto)+
          show thesis
            by (rule replayed [OF _ _ k load_direction_Inr(1) [OF s] load_direction_Inr(1) [OF d] pend _ _ res(3)])
               (use res(1,2) Inr a q False in simp_all)
        qed
      qed
    qed
  qed
qed

end
