(* ===== verification/Session_Runs.thy ===== *)
theory Session_Runs
  imports Session
begin

text \<open>
  The guarantees of the session contract (the module documentation of
  crates/core/src/session.rs) over whole runs: an endpoint executes any sequence of operations
  with any failures, stops at any point and starts again from its files.

  \<open>exec_ops\<close> runs a list of operations and collects the sent frames and the callback
  invocations. The invariant \<open>floors\<close> bounds the sequence numbers used so far by those in
  memory and by those in the file, from which the at-most-once and never-reused theorems follow.
\<close>

section \<open>Runs with crashes and restarts\<close>

text \<open>An endpoint is stopped, with its two stores on disk, or runs a session. A crash is a
  failing operation followed by \<open>OpStop\<close>; a start opens the history and then the session, and
  may fail. Sent frames are recorded with the sequence number of their envelope.\<close>

datatype endpoint = Stopped "bytes option" history_disk | Running session

record open_env =
  oe_history :: "bool \<times> bool"
  oe_remove :: "string \<Rightarrow> bool"
  oe_listing :: "(string \<times> bool) list"
  oe_start :: start_env

datatype session_op =
    OpStart open_env
  | OpStop
  | OpSend send_env clip_content int
  | OpReceive receive_env string string bool int
  | OpApply history_faults uuid
  | OpClear history_faults

datatype session_event = Sent u64 frame | CalledBack bool clip_item

record session_world =
  sw_crates :: crates
  sw_envelope :: "envelope json"
  sw_document :: "document_json json"
  sw_item :: "history_item json"
  sw_identity :: identity
  sw_record :: pairing_record

fun exec_op :: "session_world \<Rightarrow> session_op \<Rightarrow> endpoint \<Rightarrow> endpoint \<times> session_event list" where
  "exec_op w (OpStart env) (Stopped file d) =
     (case history_new (sw_crates w) (sw_item w) (oe_history env) (oe_remove env) (oe_listing env) d of
        (Inl _, d') \<Rightarrow> (Stopped file d', [])
      | (Inr h, _) \<Rightarrow>
          (case session_new (sw_crates w) (sw_document w) (sw_item w) (sw_identity w) (sw_record w)
                  (oe_start env) file h of
             (Inl _, file', h') \<Rightarrow> (Stopped file' (hs_disk h'), [])
           | (Inr s, _, _) \<Rightarrow> (Running s, [])))"
| "exec_op w OpStop (Running s) = (Stopped (ss_file s) (hs_disk (ss_history s)), [])"
| "exec_op w (OpSend env content ts) (Running s) =
     (case send_clip_with_fault (sw_crates w) (sw_envelope w) (sw_document w) (sw_item w) env content ts s of
        (Inl _, s') \<Rightarrow> (Running s', [])
      | (Inr f, s') \<Rightarrow> (Running s', [Sent (ds_next_seq (ss_send_state s)) f]))"
| "exec_op w (OpReceive env room ciphertext mailbox now) (Running s) =
     (case handle_clip_with_fault (sw_crates w) (sw_envelope w) (sw_document w) (sw_item w) env
             room ciphertext mailbox now s of
        (_, calls, s') \<Rightarrow> (Running s', map (\<lambda>(mb, item). CalledBack mb item) calls))"
| "exec_op w (OpApply hf i) (Running s) =
     (Running (snd (apply_deferred (sw_crates w) (sw_item w) hf i s)), [])"
| "exec_op w (OpClear hf) (Running s) = (Running (snd (clear_history (sw_item w) hf s)), [])"
| "exec_op w _ e = (e, [])"

fun exec_ops :: "session_world \<Rightarrow> session_op list \<Rightarrow> endpoint \<Rightarrow> endpoint \<times> session_event list" where
  "exec_ops w [] e = (e, [])"
| "exec_ops w (p # ps) e =
     (case exec_op w p e of (e', evs) \<Rightarrow> (case exec_ops w ps e' of (e'', evs') \<Rightarrow> (e'', evs @ evs')))"

fun sent_seqs :: "session_event list \<Rightarrow> u64 list" where
  "sent_seqs [] = []"
| "sent_seqs (Sent q _ # evs) = q # sent_seqs evs"
| "sent_seqs (CalledBack _ _ # evs) = sent_seqs evs"

fun callback_seqs :: "session_event list \<Rightarrow> u64 list" where
  "callback_seqs [] = []"
| "callback_seqs (CalledBack _ item # evs) = ci_seq item # callback_seqs evs"
| "callback_seqs (Sent _ _ # evs) = callback_seqs evs"

text \<open>The keys of the two directions, and the floors the runs keep: every callback so far has a
  sequence number at most \<open>L\<close> and every sent one lies below \<open>M\<close>, both in memory and in
  what the file loads.\<close>

definition world_send_key :: "session_world \<Rightarrow> string" where
  "world_send_key w = direction_key (pr_room_id (sw_record w)) (pr_local_bundle_fp (sw_record w))
     (pr_peer_bundle_fp (sw_record w))"

definition world_recv_key :: "session_world \<Rightarrow> string" where
  "world_recv_key w = direction_key (pr_room_id (sw_record w)) (pr_peer_bundle_fp (sw_record w))
     (pr_local_bundle_fp (sw_record w))"

definition file_floor :: "session_world \<Rightarrow> u64 \<Rightarrow> u64 \<Rightarrow> bytes option \<Rightarrow> bool" where
  "file_floor w L M file \<longleftrightarrow>
     (\<forall>st. load_direction (sw_crates w) (sw_document w) False (world_recv_key w) (id_generation (sw_identity w)) file
        = Inr st \<longrightarrow> L \<le> ds_last_seq st)
     \<and> (\<forall>st. load_direction (sw_crates w) (sw_document w) False (world_send_key w) (id_generation (sw_identity w)) file
        = Inr st \<longrightarrow> M \<le> ds_next_seq st)"

fun floors :: "session_world \<Rightarrow> u64 \<Rightarrow> u64 \<Rightarrow> endpoint \<Rightarrow> bool" where
  "floors w L M (Stopped file d) \<longleftrightarrow> file_floor w L M file"
| "floors w L M (Running s) \<longleftrightarrow> file_floor w L M (ss_file s)
     \<and> ss_send_key s = world_send_key w \<and> ss_recv_key s = world_recv_key w
     \<and> ds_generation (ss_send_state s) = id_generation (sw_identity w)
     \<and> ds_generation (ss_recv_state s) = id_generation (sw_identity w)
     \<and> world_send_key w \<noteq> world_recv_key w
     \<and> L \<le> ds_last_seq (ss_recv_state s) \<and> M \<le> ds_next_seq (ss_send_state s)"

definition world_ok :: "session_world \<Rightarrow> bool" where
  "world_ok w \<longleftrightarrow> session_laws (sw_crates w) (sw_document w) \<and> sha256_law (sw_crates w)
     \<and> is_lower_hex 64 (pr_peer_bundle_fp (sw_record w))"

lemma direction_keys_apart:
  assumes "length a = length b" "a \<noteq> b" shows "direction_key r a b \<noteq> direction_key r b a"
  using assms by (auto simp: direction_key_def)

subsection \<open>The floors are kept\<close>

lemma floor_commit_recv:
  assumes "world_ok w" and apart: "world_send_key w \<noteq> world_recv_key w"
    and c: "commit_direction (sw_crates w) (sw_document w) env (world_recv_key w) st None fl = (r, fl')"
    and gen: "ds_generation st = id_generation (sw_identity w)"
    and fl: "file_floor w L M fl" and L: "L \<le> ds_last_seq st"
  shows "file_floor w L M fl'" and "r = Inr () \<Longrightarrow> file_floor w (ds_last_seq st) M fl'"
proof -
  have laws: "session_laws (sw_crates w) (sw_document w)" using assms(1) by (simp add: world_ok_def)
  note ld = commit_direction_load [OF laws c gen]
  show "file_floor w L M fl'"
    using ld(1) ld(3) [OF apart] fl L unfolding file_floor_def by auto
  show "r = Inr () \<Longrightarrow> file_floor w (ds_last_seq st) M fl'"
    using ld(2) ld(3) [OF apart] fl unfolding file_floor_def by auto
qed

lemma floor_commit_send:
  assumes "world_ok w" and apart: "world_send_key w \<noteq> world_recv_key w"
    and c: "commit_direction (sw_crates w) (sw_document w) env (world_send_key w) st None fl = (r, fl')"
    and gen: "ds_generation st = id_generation (sw_identity w)"
    and fl: "file_floor w L M fl" and M: "M \<le> ds_next_seq st"
  shows "file_floor w L M fl'" and "r = Inr () \<Longrightarrow> file_floor w L (ds_next_seq st) fl'"
proof -
  have laws: "session_laws (sw_crates w) (sw_document w)" using assms(1) by (simp add: world_ok_def)
  note ld = commit_direction_load [OF laws c gen]
  show "file_floor w L M fl'"
    using ld(1) ld(3) [OF apart [symmetric]] fl M unfolding file_floor_def by auto
  show "r = Inr () \<Longrightarrow> file_floor w L (ds_next_seq st) fl'"
    using ld(2) ld(3) [OF apart [symmetric]] fl unfolding file_floor_def by auto
qed

lemma word_plus_one_less: "(a :: u64) \<noteq> - 1 \<Longrightarrow> a < a + 1"
proof -
  assume "a \<noteq> - 1"
  then have "1 + a \<noteq> 0" by (metis add.right_inverse add_left_imp_eq)
  then have "unat (1 + a) = Suc (unat a)" by (rule unatSuc)
  then show "a < a + 1" by (simp add: word_less_nat_alt add.commute)
qed

lemma send_floor:
  assumes "world_ok w" and fl: "floors w L M (Running s)"
    and run: "send_clip_with_fault (sw_crates w) JE (sw_document w) JH env content ts s = (r, s')"
  shows "\<exists>M'. floors w L M' (Running s') \<and> M \<le> M'
    \<and> (is_ok r \<longrightarrow> M \<le> ds_next_seq (ss_send_state s) \<and> ds_next_seq (ss_send_state s) < M')"
proof -
  let ?n = "ds_next_seq (ss_send_state s)"
  let ?st = "(ss_send_state s)\<lparr>ds_next_seq := ?n + 1\<rparr>"
  have f: "M \<le> ?n" "ss_send_key s = world_send_key w" "world_send_key w \<noteq> world_recv_key w"
    "file_floor w L M (ss_file s)" "ds_generation ?st = id_generation (sw_identity w)" using fl by simp_all
  have lt: "?n \<noteq> - 1 \<Longrightarrow> ?n < ?n + 1" by (rule word_plus_one_less)
  then have le: "?n \<noteq> - 1 \<Longrightarrow> M \<le> ds_next_seq ?st" using f(1) by (simp add: order.trans less_imp_le)
  note c = floor_commit_send [OF assms(1) f(3) _ f(5) f(4) le]
  from run show ?thesis
  proof (cases rule: send_clip_cases)
    case (refused e)
    with fl show ?thesis by (intro exI [of _ M]) simp
  next
    case (unreserved e fl0)
    from c(1) [OF unreserved(2) [unfolded f(2)] unreserved(1)] fl unreserved show ?thesis
      by (intro exI [of _ M]) simp
  next
    case (reserved fl0)
    from c(2) [OF reserved(2) [unfolded f(2)] reserved(1)] fl reserved lt le f(1) show ?thesis
      by (intro exI [of _ "?n + 1"]) simp
  qed
qed

lemma deliver_floor:
  assumes "floors w L M (Running s)" and "deliver X JH env item fresh s = (r, s')"
  shows "floors w L M (Running s')"
  using assms(1) deliver_fields [OF assms(2)] by simp

lemma clear_pending_floor:
  assumes "world_ok w" and fl: "floors w L M (Running s)"
    and run: "clear_pending_and_deliver (sw_crates w) (sw_document w) JH env item fresh s = (r, calls, s')"
  shows "floors w L M (Running s') \<and> (calls = [] \<or> calls = [(\<not> fresh, item)])"
proof -
  let ?st = "(ss_recv_state s)\<lparr>ds_pending := filter (\<lambda>p. pi_id p \<noteq> ci_id item) (ds_pending (ss_recv_state s))\<rparr>"
  have key: "ss_recv_key s = world_recv_key w" using fl by simp
  have c: "file_floor w L M f"
    if "commit_direction (sw_crates w) (sw_document w) (re_clear env) (ss_recv_key s) ?st None (ss_file s) = (q, f)"
    for q f
    using that fl key by (intro floor_commit_recv(1) [OF assms(1) _ that [unfolded key]]) auto
  from run show ?thesis
  proof (cases rule: clear_pending_cases)
    case (failed e fl0)
    then show ?thesis using fl c [OF failed(1)] by simp
  next
    case (stopped fl0)
    then show ?thesis using fl c [OF stopped(1)] by simp
  next
    case (called fl0)
    have "floors w L M (Running (s\<lparr>ss_file := fl0, ss_recv_state := ?st\<rparr>))"
      using fl c [OF called(1)] by simp
    from deliver_floor [OF this called(3)] called(2) show ?thesis by simp
  qed
qed

lemma record_floor:
  assumes "world_ok w" and fl: "floors w L M (Running s)"
    and run: "record_and_deliver (sw_crates w) (sw_document w) JH env item fresh src s = (r, calls, s')"
  shows "floors w L M (Running s') \<and> (calls = [] \<or> calls = [(\<not> fresh, item)])"
  using run
proof (cases rule: record_and_deliver_cases)
  case (stopped q h e)
  with fl show ?thesis by simp
next
  case (added h)
  have "floors w L M (Running (s\<lparr>ss_history := h\<rparr>))" using fl by simp
  from clear_pending_floor [OF assms(1) this added(2)] show ?thesis .
qed

lemma receive_floor:
  assumes "world_ok w" and fl: "floors w L M (Running s)"
    and run: "handle_clip_with_fault (sw_crates w) JE (sw_document w) JH env room ct mailbox now s = (r, calls, s')"
  shows "\<exists>L'. floors w L' M (Running s') \<and> L \<le> L'
    \<and> (calls = [] \<or> (\<exists>mb item. calls = [(mb, item)] \<and> L < ci_seq item \<and> ci_seq item \<le> L'))"
  using run
proof (cases rule: handle_clip_cases)
  case (dropped p)
  with fl show ?thesis by (intro exI [of _ L]) simp
next
  case (accepted item source q fl0)
  let ?st = "delivered_state (sw_crates w) item source (ss_recv_state s)"
  have st: "ds_last_seq ?st = ci_seq item" "ds_generation ?st = ds_generation (ss_recv_state s)"
    using accepted(3) by (simp_all add: delivered_state_def max_absorb2 less_imp_le)
  have f: "L \<le> ds_last_seq (ss_recv_state s)" "ss_recv_key s = world_recv_key w"
    "world_send_key w \<noteq> world_recv_key w" "file_floor w L M (ss_file s)"
    "ds_generation (ss_recv_state s) = id_generation (sw_identity w)" using fl by simp_all
  have L: "L < ci_seq item" using f(1) accepted(3) by (rule order.strict_trans1)
  have L': "L \<le> ds_last_seq ?st" using L st(1) by simp
  note fr = floor_commit_recv [OF assms(1) f(3) accepted(5) [unfolded f(2)] st(2) [unfolded f(5)] f(4) L', unfolded st(1)]
  have keep: "file_floor w L M fl0" by (rule fr(1))
  have raise: "q = Inr () \<Longrightarrow> floors w (ci_seq item) M (Running (s\<lparr>ss_file := fl0, ss_recv_state := ?st\<rparr>))"
    using fl fr(2) by (simp add: st)
  from accepted(6) show ?thesis
  proof (elim disjE conjE)
    assume "s' = s\<lparr>ss_file := fl0\<rparr>" "calls = []"
    with keep fl show ?thesis by (intro exI [of _ L]) simp
  next
    assume "q = Inr ()" "calls = []" "s' = s\<lparr>ss_file := fl0, ss_recv_state := ?st\<rparr>"
    with raise L show ?thesis by (intro exI [of _ "ci_seq item"]) simp
  next
    assume "q = Inr ()" and go: "record_and_deliver (sw_crates w) (sw_document w) JH env item
        (is_fresh mailbox (ci_ts_ms item) now) source (s\<lparr>ss_file := fl0, ss_recv_state := ?st\<rparr>) = (r, calls, s')"
    have "floors w (ci_seq item) M (Running s') \<and> (calls = []
        \<or> calls = [(\<not> is_fresh mailbox (ci_ts_ms item) now, item)])"
      by (rule record_floor [OF assms(1) raise [OF \<open>q = Inr ()\<close>] go])
    with L show ?thesis by (intro exI [of _ "ci_seq item"]) (auto simp del: floors.simps)
  qed
qed

lemma start_floor:
  assumes ok: "world_ok w" and fl: "file_floor w L M fl"
    and run: "session_new (sw_crates w) (sw_document w) JH (sw_identity w) (sw_record w) env fl h = (r, fl', h')"
  shows "file_floor w L M fl'" and "r = Inr s \<Longrightarrow> floors w L M (Running s)"
proof -
  let ?X = "sw_crates w" and ?J = "sw_document w" and ?g = "id_generation (sw_identity w)"
  have apart: "world_send_key w \<noteq> world_recv_key w"
    if "pr_local_bundle_fp (sw_record w) = id_bundle_fp ?X (sw_identity w)"
       "pr_local_bundle_fp (sw_record w) \<noteq> pr_peer_bundle_fp (sw_record w)"
    using ok that bundle_fp_hex [of ?X] unfolding world_send_key_def world_recv_key_def
    by (intro direction_keys_apart) (auto simp: world_ok_def id_bundle_fp_def is_lower_hex_def)
  have floor: "L \<le> ds_last_seq d" if "load_direction ?X ?J False (world_recv_key w) ?g fl = Inr d" for d
    using fl that by (simp add: file_floor_def)
  have floor': "M \<le> ds_next_seq d" if "load_direction ?X ?J False (world_send_key w) ?g fl = Inr d" for d
    using fl that by (simp add: file_floor_def)
  have keys: "ss_send_key (open_session (sw_record w) k a f b g) = world_send_key w"
    "ss_recv_key (open_session (sw_record w) k a f b g) = world_recv_key w" for k a f b g
    by (simp_all add: open_session_def world_send_key_def world_recv_key_def Let_def)
  have fields: "ss_file (open_session rec k a f b g) = f" "ss_send_state (open_session rec k a f b g) = a"
    "ss_recv_state (open_session rec k a f b g) = b" for rec k a f b g
    by (simp_all add: open_session_def Let_def)
  have *: "file_floor w L M fl' \<and> (r = Inr s \<longrightarrow> floors w L M (Running s))"
    using run
  proof (cases rule: session_new_cases [case_names refused idle replayed])
    case (refused e)
    with fl show ?thesis by simp
  next
    case (idle k snd rcv)
    note l = idle(4,5) [folded world_send_key_def world_recv_key_def]
    show ?thesis using idle fl apart keys fields floor [OF l(2)] floor' [OF l(1)]
        load_direction_Inr(2) [OF l(1)] load_direction_Inr(2) [OF l(2)] by auto
  next
    case (replayed k snd rcv q)
    note l = replayed(4,5) [folded world_send_key_def world_recv_key_def]
    have L: "L \<le> ds_last_seq (rcv\<lparr>ds_pending := []\<rparr>)" using floor [OF l(2)] by simp
    have g: "ds_generation (rcv\<lparr>ds_pending := []\<rparr>) = ?g" using load_direction_Inr(2) [OF l(2)] by simp
    have "file_floor w L M fl'"
      by (rule floor_commit_recv(1) [OF ok apart [OF replayed(1,2)]
            replayed(8) [folded world_recv_key_def] g fl L])
    then show ?thesis using replayed(9) apart [OF replayed(1,2)] keys fields L g floor' [OF l(1)]
        load_direction_Inr(2) [OF l(1)] by (cases q) auto
  qed
  from * show "file_floor w L M fl'" "r = Inr s \<Longrightarrow> floors w L M (Running s)" by simp_all
qed

text \<open>One operation raises the floors past what it emits.\<close>

lemma exec_op_floor:
  assumes ok: "world_ok w" and fl: "floors w L M e" and run: "exec_op w p e = (e', evs)"
  shows "\<exists>L' M'. floors w L' M' e' \<and> L \<le> L' \<and> M \<le> M'
    \<and> (callback_seqs evs = [] \<or> (\<exists>q. callback_seqs evs = [q] \<and> L < q \<and> q \<le> L'))
    \<and> (sent_seqs evs = [] \<or> (\<exists>q. sent_seqs evs = [q] \<and> M \<le> q \<and> q < M'))"
proof -
  have idle: ?thesis if "floors w L M e'" "evs = []"
    using that by (intro exI [of _ L] exI [of _ M]) simp
  show ?thesis
  proof (cases e)
    case (Stopped f d)
    show ?thesis
    proof (cases "\<exists>env. p = OpStart env")
      case False
      then have "e' = e" "evs = []" using run Stopped by (cases p; simp)+
      with fl show ?thesis by (intro idle) simp_all
    next
      case True
      then obtain env where p: "p = OpStart env" by blast
      obtain hr hd where hn: "history_new (sw_crates w) (sw_item w) (oe_history env) (oe_remove env)
          (oe_listing env) d = (hr, hd)" by fastforce
      show ?thesis
      proof (cases hr)
        case (Inl x)
        with run Stopped p hn fl show ?thesis by (intro idle) auto
      next
        case (Inr h)
        obtain r f' h' where sn: "session_new (sw_crates w) (sw_document w) (sw_item w) (sw_identity w)
            (sw_record w) (oe_start env) f h = (r, f', h')" by (metis prod_cases3)
        have ff: "file_floor w L M f" using fl Stopped by simp
        note sf = start_floor [OF ok ff sn]
        have "e' = (case r of Inl _ \<Rightarrow> Stopped f' (hs_disk h') | Inr s \<Rightarrow> Running s)" "evs = []"
          using run Stopped p hn Inr sn by (auto split: sum.splits)
        with sf show ?thesis by (intro idle) (auto split: sum.split simp del: floors.simps(2))
      qed
    qed
  next
    case (Running s)
    note fs = fl [unfolded Running]
    show ?thesis
    proof (cases p)
      case (OpStart env)
      with run Running fl show ?thesis by (intro idle) auto
    next
      case OpStop
      with run Running fl show ?thesis by (intro idle) auto
    next
      case (OpSend env c ts)
      obtain r s' where sd: "send_clip_with_fault (sw_crates w) (sw_envelope w) (sw_document w) (sw_item w)
          env c ts s = (r, s')" by fastforce
      have res: "e' = Running s'"
        "evs = (case r of Inl _ \<Rightarrow> [] | Inr f \<Rightarrow> [Sent (ds_next_seq (ss_send_state s)) f])"
        using run Running OpSend sd by (auto split: sum.splits)
      from send_floor [OF ok fs sd] obtain M' where "floors w L M' (Running s')" "M \<le> M'"
        "is_ok r \<longrightarrow> M \<le> ds_next_seq (ss_send_state s) \<and> ds_next_seq (ss_send_state s) < M'" by blast
      with res show ?thesis
        by (intro exI [of _ L] exI [of _ M']) (auto split: sum.split simp del: floors.simps)
    next
      case (OpReceive env room ct mb now)
      obtain r calls s' where hc: "handle_clip_with_fault (sw_crates w) (sw_envelope w) (sw_document w)
          (sw_item w) env room ct mb now s = (r, calls, s')" by (metis prod_cases3)
      have res: "e' = Running s'" "evs = map (\<lambda>(mb, item). CalledBack mb item) calls"
        using run Running OpReceive hc by auto
      from receive_floor [OF ok fs hc] obtain L' where "floors w L' M (Running s')" "L \<le> L'"
        "calls = [] \<or> (\<exists>mb item. calls = [(mb, item)] \<and> L < ci_seq item \<and> ci_seq item \<le> L')" by blast
      with res show ?thesis
        by (intro exI [of _ L'] exI [of _ M]) (auto simp del: floors.simps)
    next
      case (OpApply hf i)
      have "ss_file (snd (apply_deferred X JH hf i s)) = ss_file s
          \<and> ss_send_state (snd (apply_deferred X JH hf i s)) = ss_send_state s
          \<and> ss_recv_state (snd (apply_deferred X JH hf i s)) = ss_recv_state s
          \<and> ss_send_key (snd (apply_deferred X JH hf i s)) = ss_send_key s
          \<and> ss_recv_key (snd (apply_deferred X JH hf i s)) = ss_recv_key s" for X JH
        by (auto simp: apply_deferred_def register_echo_def Let_def
            split: prod.split sum.split option.split history_kind.split)
      with run Running OpApply fs show ?thesis by (intro idle) auto
    next
      case (OpClear hf)
      with run Running fs show ?thesis by (intro idle) (auto simp: clear_history_def split: prod.split)
    qed
  qed
qed

lemma seqs_append [simp]:
  "callback_seqs (a @ b) = callback_seqs a @ callback_seqs b" "sent_seqs (a @ b) = sent_seqs a @ sent_seqs b"
  by (induction a rule: callback_seqs.induct; simp) (induction a rule: sent_seqs.induct; simp)

lemma exec_ops_floor:
  assumes ok: "world_ok w" and "floors w L M e" and "exec_ops w ps e = (e', evs)"
  shows "sorted_wrt (<) (callback_seqs evs) \<and> (\<forall>q \<in> set (callback_seqs evs). L < q)
    \<and> sorted_wrt (<) (sent_seqs evs) \<and> (\<forall>q \<in> set (sent_seqs evs). M \<le> q)"
  using assms(2,3)
proof (induction ps arbitrary: L M e e' evs)
  case (Cons p ps)
  obtain e1 evs1 where one: "exec_op w p e = (e1, evs1)" by fastforce
  obtain e2 evs2 where rest: "exec_ops w ps e1 = (e2, evs2)" by fastforce
  have evs: "evs = evs1 @ evs2" using Cons.prems(2) one rest by simp
  from exec_op_floor [OF ok Cons.prems(1) one] obtain L' M' where f: "floors w L' M' e1" "L \<le> L'" "M \<le> M'"
    and c: "callback_seqs evs1 = [] \<or> (\<exists>q. callback_seqs evs1 = [q] \<and> L < q \<and> q \<le> L')"
    and s: "sent_seqs evs1 = [] \<or> (\<exists>q. sent_seqs evs1 = [q] \<and> M \<le> q \<and> q < M')" by blast
  note ih = Cons.IH [OF f(1) rest]
  have "sorted_wrt (<) (callback_seqs evs) \<and> (\<forall>q \<in> set (callback_seqs evs). L < q)"
    using c
  proof
    assume "callback_seqs evs1 = []"
    then show ?thesis using ih f(2) evs by (auto intro: order.strict_trans1)
  next
    assume "\<exists>q. callback_seqs evs1 = [q] \<and> L < q \<and> q \<le> L'"
    then obtain q where "callback_seqs evs1 = [q]" "L < q" "q \<le> L'" by blast
    then show ?thesis using ih evs by (auto intro: order.strict_trans1 order.strict_trans)
  qed
  moreover have "sorted_wrt (<) (sent_seqs evs) \<and> (\<forall>q \<in> set (sent_seqs evs). M \<le> q)"
    using s
  proof
    assume "sent_seqs evs1 = []"
    then show ?thesis using ih f(3) evs by (auto intro: order.trans)
  next
    assume "\<exists>q. sent_seqs evs1 = [q] \<and> M \<le> q \<and> q < M'"
    then obtain q where "sent_seqs evs1 = [q]" "M \<le> q" "q < M'" by blast
    then show ?thesis using ih evs by (auto intro: order.strict_trans2 order.trans less_imp_le)
  qed
  ultimately show ?case by blast
qed simp

subsection \<open>Durability before the callback\<close>

lemma set_source_ids:
  assumes "history_ok X h" shows "history_ids (snd (set_source J hf i Remote h)) = history_ids h"
proof -
  obtain r h' where run: "set_source J hf i Remote h = (r, h')" by fastforce
  have ids: "hi_id ` set (promoted i (hs_items h)) = hi_id ` set (hs_items h)"
    by (metis promoted_simps(1) set_map)
  from assms run have "history_ids h' = history_ids h"
    by (cases rule: set_source_cases) (simp_all add: history_ids_def ids)
  with run show ?thesis by simp
qed

lemma deliver_history_ids:
  assumes "history_ok X (ss_history s)" and "deliver X' JH env item fresh s = (r, s')"
  shows "history_ids (ss_history s') = history_ids (ss_history s)"
  using deliver_fields(6) [OF assms(2)] set_source_ids [OF assms(1)] by auto

lemma deliver_metadata:
  assumes "jsonl_law JH" "history_ok X (ss_history s)" "metadata_ok X JH (ss_history s)"
    and "deliver X' JH env item fresh s = (r, s')"
  shows "metadata_ok X JH (ss_history s')"
  using deliver_fields(6) [OF assms(4)] set_source_metadata [OF assms(1-3)] assms(3) by auto

definition entry_of :: "clip_item \<Rightarrow> history_source \<Rightarrow> new_history_item" where
  "entry_of item source = \<lparr>ni_id = ci_id item, ni_ts_ms = ci_ts_ms item, ni_source = source,
      ni_content = history_content_of (ci_content item)\<rparr>"

lemma delivered_fields [simp]:
  "ds_generation (delivered_state X item src d) = ds_generation d"
  "ds_last_seq (delivered_state X item src d) = max (ds_last_seq d) (ci_seq item)"
  "ds_pending (delivered_state X item src d) = ds_pending d @ [\<lparr>pi_id = ci_id item, pi_ts_ms = ci_ts_ms item,
      pi_source = src, pi_content = ci_content item\<rparr>]"
  "uuid_to_string X (ci_id item) \<in> set (ds_seen_ids (delivered_state X item src d))"
  by (simp_all add: delivered_state_def SEEN_IDS_RING_def)

lemma callback_after_durable:
  assumes laws: "session_laws X J" and hok: "history_ok X (ss_history s)"
    and run: "handle_clip_with_fault X JE J JH env room ct mailbox now s = (r, calls, s')"
    and "calls \<noteq> []"
  obtains mb item where "calls = [(mb, item)]" "authenticate X JE s room ct = Some item"
    "ds_last_seq (ss_recv_state s) < ci_seq item"
    "load_direction X J False (ss_recv_key s) (ds_generation (ss_recv_state s)) (ss_file s') = Inr (ss_recv_state s')"
    "ds_last_seq (ss_recv_state s') = ci_seq item"
    "uuid_to_string X (ci_id item) \<in> set (ds_seen_ids (ss_recv_state s'))"
    "ci_id item \<notin> pi_id ` set (ds_pending (ss_recv_state s'))"
    "ci_id item \<in> history_ids (ss_history s')"
    "mb \<longleftrightarrow> \<not> is_fresh mailbox (ci_ts_ms item) now"
  using run
proof (cases rule: handle_clip_cases)
  case (dropped p)
  with assms(4) show ?thesis by simp
next
  case (accepted item src q fl)
  let ?d = "delivered_state X item src (ss_recv_state s)"
  let ?s1 = "s\<lparr>ss_file := fl, ss_recv_state := ?d\<rparr>"
  let ?fresh = "is_fresh mailbox (ci_ts_ms item) now"
  from accepted(6) assms(4) have go: "record_and_deliver X J JH env item ?fresh src ?s1 = (r, calls, s')" by blast
  then show ?thesis
  proof (cases rule: record_and_deliver_cases)
    case (stopped p h e)
    with assms(4) show ?thesis by simp
  next
    case (added h)
    have h: "history_ok X h" "ci_id item \<in> history_ids h"
      using history_add_ok [OF hok, of JH "re_add env" "entry_of item src"]
        history_add_present [OF hok, of JH "re_add env" "entry_of item src"] added(1)
      by (simp_all add: entry_of_def)
    from added(2) show ?thesis
    proof (cases rule: clear_pending_cases)
      case (called fl2)
      note f = deliver_fields [OF called(3)]
      have c: "load_direction X J False (ss_recv_key s) (ds_generation (ss_recv_state s)) fl2
          = Inr (?d\<lparr>ds_pending := filter (\<lambda>p. pi_id p \<noteq> ci_id item) (ds_pending ?d)\<rparr>)"
        using commit_direction_load(2) [OF laws called(1) refl] by simp
      have hid: "history_ids (ss_history s') = history_ids h"
        using deliver_history_ids [OF _ called(3)] h(1) by simp
      show ?thesis
        by (rule that [OF called(2) accepted(1,3)])
           (use f c hid h accepted(3) in \<open>auto simp: max_absorb2 less_imp_le\<close>)
    qed (use assms(4) in simp_all)
  qed
qed

subsection \<open>Recovery after a crash\<close>

lemma start_replays_pending:
  assumes "load_direction X J False (direction_key (pr_room_id rec) (pr_peer_bundle_fp rec) (pr_local_bundle_fp rec))
      (id_generation i) fl = Inr d" and "ds_pending d = ps @ [p]" and "history_ok X h"
    and "session_new X J JH i rec env fl h = (Inr s, fl', h')"
  shows "pi_id p \<in> history_ids (ss_history s)"
  using assms(4)
proof (cases rule: session_new_cases)
  case (idle keys snd rcv)
  with assms(1,2) show ?thesis by simp
next
  case (replayed keys snd rcv q)
  then have rcv: "rcv = d" using assms(1) by simp
  note a = replayed(7) [unfolded rcv assms(2) map_append list.map]
  have "ni_id (pending_as_new p) \<in> history_ids h'"
    using hist.add_all_last [OF assms(3), of JH "st_add env" "map pending_as_new ps" "pending_as_new p"] a
    by simp
  moreover have "ss_history s = h'" using replayed(9) by (cases q) (auto simp: open_session_def Let_def)
  ultimately show ?thesis by (simp add: pending_as_new_def)
qed simp

lemma committed_item_recovery:
  assumes laws: "session_laws X J" "jsonl_law JH"
    and hist: "history_ok X (ss_history s)" "metadata_ok X JH (ss_history s)"
    and rec: "ss_recv_key s = direction_key (pr_room_id rec) (pr_peer_bundle_fp rec) (pr_local_bundle_fp rec)"
      "ds_generation (ss_recv_state s) = id_generation i"
    and run: "handle_clip_with_fault X JE J JH env room ct mailbox now s = (r, calls, s')"
    and item: "authenticate X JE s room ct = Some item"
    and new: "history_new X JH fails rf listing (hs_disk (ss_history s')) = (Inr h0, d)"
    and start: "session_new X J JH i rec env2 (ss_file s') h0 = (Inr s2, fl2, h2)"
  shows "load_direction X J False (ss_recv_key s) (id_generation i) (ss_file s')
       = load_direction X J False (ss_recv_key s) (id_generation i) (ss_file s)
    \<or> ci_id item \<in> history_ids h0 \<or> ci_id item \<in> history_ids (ss_history s2)"
  using run
proof (cases rule: handle_clip_cases)
  case (dropped p)
  then show ?thesis by simp
next
  case (accepted item' src q fl)
  then have item': "item' = item" using item by simp
  note accepted = accepted [unfolded item']
  let ?load = "load_direction X J False (ss_recv_key s) (id_generation i)"
  let ?d = "delivered_state X item src (ss_recv_state s)"
  let ?s1 = "s\<lparr>ss_file := fl, ss_recv_state := ?d\<rparr>"
  have hok0: "history_ok X h0" using history_new_items(2) [OF new] by simp
  have replay: ?thesis if "?load (ss_file s') = Inr ?d"
    using start_replays_pending [OF that [unfolded rec(1)] _ hok0 start] by simp
  note ld = commit_direction_load [OF laws(1) accepted(5)]
  have ok: "?load fl = Inr ?d" if "q = Inr ()" using ld(2) that rec(2) by simp
  from accepted(6) show ?thesis
  proof (elim disjE conjE)
    assume "s' = s\<lparr>ss_file := fl\<rparr>"
    then show ?thesis using ld(1) [of "id_generation i"] replay rec(2) by auto
  next
    assume "q = Inr ()" "s' = ?s1"
    then show ?thesis using replay ok by simp
  next
    assume q: "q = Inr ()" and go: "record_and_deliver X J JH env item (is_fresh mailbox (ci_ts_ms item) now) src ?s1
        = (r, calls, s')"
    from go show ?thesis
    proof (cases rule: record_and_deliver_cases)
      case (stopped p h e)
      then show ?thesis using replay ok [OF q] by simp
    next
      case (added h)
      have h: "history_ok X h" "ci_id item \<in> history_ids h" "metadata_ok X JH h"
        using history_add_ok [OF hist(1), of JH "re_add env" "entry_of item src"]
          history_add_present [OF hist(1), of JH "re_add env" "entry_of item src"] added(1)
          history_add_metadata [OF laws(2) hist, of "re_add env" "entry_of item src"]
        by (simp_all add: entry_of_def)
      have keep: ?thesis if "metadata_ok X JH (ss_history s')" "ci_id item \<in> history_ids (ss_history s')"
        using reopen_items [OF that(1) new] that(2) by (simp add: history_ids_def)
      from added(2) show ?thesis
      proof (cases rule: clear_pending_cases)
        case (failed e fl2)
        then show ?thesis using keep h by simp
      next
        case (stopped fl2)
        then show ?thesis using keep h by simp
      next
        case (called fl2)
        show ?thesis using keep deliver_metadata [OF laws(2) _ _ called(3), of X]
            deliver_history_ids [OF _ called(3), of X] h by simp
      qed
    qed
  qed
qed

lemma authenticate_cong:
  assumes "ss_room_id s' = ss_room_id s" "ss_keys s' = ss_keys s" "ss_self_fp s' = ss_self_fp s"
    "ss_peer_fp s' = ss_peer_fp s"
  shows "authenticate X JE s' = authenticate X JE s"
  by (intro ext) (simp only: authenticate_def assms)

lemma handle_clip_static:
  assumes "handle_clip_with_fault X JE J JH env room ct mailbox now s = (r, calls, s')"
  shows "ss_room_id s' = ss_room_id s \<and> ss_keys s' = ss_keys s \<and> ss_self_fp s' = ss_self_fp s
    \<and> ss_peer_fp s' = ss_peer_fp s"
proof -
  have d: "deliver X JH env item fresh t = (r, t') \<Longrightarrow> ss_room_id t' = ss_room_id t \<and> ss_keys t' = ss_keys t
      \<and> ss_self_fp t' = ss_self_fp t \<and> ss_peer_fp t' = ss_peer_fp t" for env item fresh t t' r
    by (auto simp: deliver_def Let_def split: if_splits sum.splits prod.splits mailbox_disposition.splits)
  from assms show ?thesis
  proof (cases rule: handle_clip_cases)
    case (accepted item src q fl)
    let ?s1 = "s\<lparr>ss_file := fl, ss_recv_state := delivered_state X item src (ss_recv_state s)\<rparr>"
    have go: ?thesis if "record_and_deliver X J JH env item fr src ?s1 = (r, calls, s')" for fr
      using that
    proof (cases rule: record_and_deliver_cases)
      case (added h)
      from added(2) show ?thesis
      proof (cases rule: clear_pending_cases)
        case (called fl2)
        from d [OF called(3)] show ?thesis by simp
      qed simp_all
    qed simp
    from accepted(6) go show ?thesis by auto
  qed simp
qed

subsection \<open>Replays\<close>

lemma known_clip_dropped:
  assumes "authenticate X JE s room ct = Some item"
    and "uuid_to_string X (ci_id item) \<in> set (ds_seen_ids (ss_recv_state s))"
  shows "handle_clip_with_fault X JE J JH env room ct mailbox now s = (Inr Duplicate, [], s)"
  using assms by (auto simp: handle_clip_with_fault_def list_ex_iff)

lemma durable_callback:
  assumes "session_laws X J" "history_ok X (ss_history s)"
    and "handle_clip_with_fault X JE J JH env room ct mailbox now s = (r, calls, s')" "calls \<noteq> []"
  shows "\<exists>item. authenticate X JE s room ct = Some item
    \<and> calls = [(\<not> is_fresh mailbox (ci_ts_ms item) now, item)]
    \<and> ds_last_seq (ss_recv_state s) < ci_seq item
    \<and> load_direction X J False (ss_recv_key s) (ds_generation (ss_recv_state s)) (ss_file s') = Inr (ss_recv_state s')
    \<and> ds_last_seq (ss_recv_state s') = ci_seq item
    \<and> uuid_to_string X (ci_id item) \<in> set (ds_seen_ids (ss_recv_state s'))
    \<and> ci_id item \<notin> pi_id ` set (ds_pending (ss_recv_state s'))
    \<and> ci_id item \<in> history_ids (ss_history s')"
  apply (rule callback_after_durable [OF assms])
  subgoal for mb item by (rule exI [of _ item]) simp
  done

lemma handled_again:
  assumes "session_laws X J" "history_ok X (ss_history s)"
    and "handle_clip_with_fault X JE J JH env room ct mailbox now s = (r, calls, s')" "calls \<noteq> []"
  shows "handle_clip_with_fault X JE J JH env2 room ct mailbox2 now2 s' = (Inr Duplicate, [], s')"
proof -
  from durable_callback [OF assms] obtain item where i: "authenticate X JE s room ct = Some item"
    "uuid_to_string X (ci_id item) \<in> set (ds_seen_ids (ss_recv_state s'))" by blast
  have "authenticate X JE s' = authenticate X JE s"
    using handle_clip_static [OF assms(3)] by (intro authenticate_cong) simp_all
  with i show ?thesis by (intro known_clip_dropped [of _ _ _ _ _ item]) simp_all
qed

subsection \<open>A sent frame authenticates at the peer\<close>

text \<open>Two sessions of one pairing, seen from the two ends.\<close>

definition mirrored :: "session \<Rightarrow> session \<Rightarrow> bool" where
  "mirrored s t \<longleftrightarrow> ss_room_id t = ss_room_id s \<and> ss_self_fp t = ss_peer_fp s \<and> ss_peer_fp t = ss_self_fp s
     \<and> sk_recv (ss_keys t) = sk_send (ss_keys s)"

fun content_valid :: "clip_content \<Rightarrow> bool" where
  "content_valid (CText t) = utf8_valid (as_bytes t)"
| "content_valid (CImage _) = True"

lemma decode_raw_content:
  assumes "b64_law X" "content_valid c" "raw_content c = (kind, raw)"
  shows "decode_content X kind (b64_encode X raw) = Some c"
  using assms by (cases c) (auto simp: decode_content_def)

lemma send_clip_frame:
  assumes "send_clip_with_fault X JE J JH env content ts s = (Inr f, s')"
  obtains kind raw encoded sealed where "raw_content content = (kind, raw)"
    "encode_envelope X JE \<lparr>env_v = PROTOCOL_VERSION, env_kind = kind,
       env_item_id = uuid_to_string X (se_item_id env), env_seq = ds_next_seq (ss_send_state s),
       env_ts_ms = ts, env_content_b64 = b64_encode X raw\<rparr> = Inr encoded"
    "seal X (se_nonce env) (sk_send (ss_keys s)) (aad (ss_room_id s) (ss_self_fp s) (ss_peer_fp s)) encoded = Inr sealed"
    "f = Clip (ss_room_id s) (b64_encode X sealed) [] False"
  using assms
  by (cases "raw_content content")
     (auto simp: send_clip_with_fault_def Let_def split: if_splits sum.splits prod.splits)

lemma sent_frame_authenticates:
  assumes laws: "b64_law X" "aead_law X" "uuid_law X" "json_law JE"
    and "mirrored s t" "length (se_nonce env) = NONCE_LENGTH" "content_valid content"
    and send: "send_clip_with_fault X JE J JH env content ts s = (Inr f, s')"
  shows "\<exists>ct. f = Clip (ss_room_id t) ct [] False \<and> authenticate X JE t (ss_room_id t) ct
    = Some \<lparr>ci_id = se_item_id env, ci_ts_ms = ts, ci_seq = ds_next_seq (ss_send_state s), ci_content = content\<rparr>"
proof -
  from send obtain kind raw encoded sealed where raw: "raw_content content = (kind, raw)"
    and enc: "encode_envelope X JE \<lparr>env_v = PROTOCOL_VERSION, env_kind = kind,
       env_item_id = uuid_to_string X (se_item_id env), env_seq = ds_next_seq (ss_send_state s),
       env_ts_ms = ts, env_content_b64 = b64_encode X raw\<rparr> = Inr encoded"
    and seal: "seal X (se_nonce env) (sk_send (ss_keys s)) (aad (ss_room_id s) (ss_self_fp s) (ss_peer_fp s)) encoded
       = Inr sealed"
    and f: "f = Clip (ss_room_id s) (b64_encode X sealed) [] False"
    by (rule send_clip_frame)
  have m: "ss_room_id t = ss_room_id s" "ss_self_fp t = ss_peer_fp s" "ss_peer_fp t = ss_self_fp s"
    "sk_recv (ss_keys t) = sk_send (ss_keys s)" using assms(5) by (simp_all add: mirrored_def)
  have "authenticate X JE t (ss_room_id t) (b64_encode X sealed)
      = Some \<lparr>ci_id = se_item_id env, ci_ts_ms = ts, ci_seq = ds_next_seq (ss_send_state s), ci_content = content\<rparr>"
    using laws(1,3) open_seal [OF laws(2) assms(6) seal] decode_encode_envelope [OF laws(4) enc]
      decode_raw_content [OF laws(1) assms(7) raw]
    by (simp add: authenticate_def m)
  then show ?thesis using f m(1) by simp
qed

lemma handle_new_clip:
  assumes run: "handle_clip_with_fault X JE J JH env room ct mailbox now s = (r, calls, s')"
    and a: "authenticate X JE s room ct = Some item"
    and new: "ds_last_seq (ss_recv_state s) < ci_seq item"
      "uuid_to_string X (ci_id item) \<notin> set (ds_seen_ids (ss_recv_state s))"
  shows "r \<notin> {Inr Unauthenticated, Inr Duplicate, Inr Replay}
    \<and> (is_ok r \<longrightarrow> calls = [(\<not> is_fresh mailbox (ci_ts_ms item) now, item)])"
proof -
  have del: "deliver X JH env item fresh t \<noteq> (Inr Unauthenticated, t')"
    "deliver X JH env item fresh t \<noteq> (Inr Duplicate, t')" "deliver X JH env item fresh t \<noteq> (Inr Replay, t')" for fresh t t'
    by (auto simp: deliver_def Let_def split: if_splits sum.splits prod.splits mailbox_disposition.splits)
  show ?thesis
    using a new run
    by (auto simp: handle_clip_with_fault_def record_and_deliver_def clear_pending_and_deliver_def Let_def list_ex_iff not_le
        split: if_splits sum.splits prod.splits simp: del)
qed

lemma open_sessions_mirrored:
  assumes laws: "dh_law X"
    and a: "session_new X Ja JHa ia ra enva fla ha = (Inr s, fla', ha')"
    and b: "session_new X Jb JHb ib rb envb flb hb = (Inr t, flb', hb')"
    and ra: "pr_peer_bundle ra = public_bundle X ib" "pr_peer_bundle_fp ra = id_bundle_fp X ib"
    and rb: "pr_peer_bundle rb = public_bundle X ia" "pr_peer_bundle_fp rb = id_bundle_fp X ia"
    and room: "pr_room_id rb = pr_room_id ra"
  shows "mirrored s t"
proof -
  have fields: "ss_room_id u = pr_room_id rec \<and> ss_self_fp u = id_bundle_fp X i \<and> ss_peer_fp u = pr_peer_bundle_fp rec
      \<and> session_keys X i (pr_peer_bundle rec) = Inr (ss_keys u)"
    if "session_new X J JH i rec env fl h = (Inr u, fl', h')" for J JH i rec env fl h u fl' h'
    using that
  proof (cases rule: session_new_cases)
    case (idle keys snd rcv)
    then show ?thesis by (auto simp: open_session_def Let_def)
  next
    case (replayed keys snd rcv q)
    then show ?thesis by (cases q) (auto simp: open_session_def Let_def)
  qed simp
  note fa = fields [OF a, unfolded ra] and fb = fields [OF b, unfolded rb]
  have "session_keys X ib (public_bundle X ia)
      = Inr \<lparr>sk_send = sk_recv (ss_keys s), sk_recv = sk_send (ss_keys s)\<rparr>"
    using session_keys_agree_aux [OF laws, of ia ib "ss_keys s"] fa by simp
  then have "ss_keys t = \<lparr>sk_send = sk_recv (ss_keys s), sk_recv = sk_send (ss_keys s)\<rparr>" using fb by simp
  then show ?thesis using fa fb room by (simp add: mirrored_def)
qed

section \<open>A concrete pair of sessions\<close>

definition demo_uuid :: uuid where "demo_uuid = 0x00000000000040008000000000000001"

definition demo_party :: "byte \<Rightarrow> byte \<Rightarrow> pairing_record" where
  "demo_party a b = from_candidate demo_crates \<lparr>pc_generation = 1, pc_server = ''wss://r'',
     pc_local_bundle = public_bundle demo_crates (demo_identity a),
     pc_peer_bundle = public_bundle demo_crates (demo_identity b)\<rparr>"

definition demo_keys :: "byte \<Rightarrow> byte \<Rightarrow> SessionKeys" where
  "demo_keys a b = projr (session_keys demo_crates (demo_identity a) (public_bundle demo_crates (demo_identity b)))"

definition demo_session :: "byte \<Rightarrow> byte \<Rightarrow> session" where
  "demo_session a b = open_session (demo_party a b) (demo_keys a b) (direction_new 1) None (direction_new 1) empty_history"

definition demo_clip :: clip_item where
  "demo_clip = \<lparr>ci_id = demo_uuid, ci_ts_ms = 1000, ci_seq = 1, ci_content = CText ''hi''\<rparr>"

definition demo_delivered :: direction_state where
  "demo_delivered = delivered_state demo_crates demo_clip Remote (direction_new 1)"

definition demo_documents_json :: "document_json json" where
  "demo_documents_json = table_json (map (\<lambda>d. serialize_document demo_crates [(ss_send_key (demo_session 1 2), d)])
     [(direction_new 1)\<lparr>ds_next_seq := 2\<rparr>, demo_delivered, demo_delivered\<lparr>ds_pending := []\<rparr>])"

definition demo_items_json :: "history_item json" where
  "demo_items_json = table_json (map (\<lambda>src. new_item demo_crates (entry_of demo_clip src)) [Local, Remote])"

definition demo_envelope_json :: "envelope json" where
  "demo_envelope_json = table_json [\<lparr>env_v = 1, env_kind = KText, env_item_id = uuid_to_string demo_crates demo_uuid,
     env_seq = 1, env_ts_ms = 1000, env_content_b64 = b64_encode demo_crates (as_bytes ''hi'')\<rparr>]"

definition demo_commit :: commit_env where
  "demo_commit = \<lparr>ce_read_fails = False, ce_fault = None, ce_tmp_exists = False\<rparr>"

definition demo_send_env :: send_env where
  "demo_send_env = \<lparr>se_commit = demo_commit, se_item_id = demo_uuid, se_nonce = replicate 24 5,
     se_add = demo_faults, se_fail_at = None\<rparr>"

definition demo_receive_env :: receive_env where
  "demo_receive_env = \<lparr>re_commit = demo_commit, re_add = demo_faults, re_clear = demo_commit, re_promote = demo_faults,
     re_callback = \<lparr>on_clip = (\<lambda>_. Some (Inr ())), on_mailbox_clip = (\<lambda>_. None)\<rparr>, re_fail_at = None\<rparr>"

definition demo_sent :: "(session_error + frame) \<times> session" where
  "demo_sent = send_clip_with_fault demo_crates demo_envelope_json demo_documents_json demo_items_json
     demo_send_env (CText ''hi'') 1000 (demo_session 1 2)"

lemma hex_digits_numeral:
  "hex_digits (numeral k) n = hex_digits (pred_numeral k) (n div 16) @ [''0123456789abcdef'' ! (n mod 16)]"
  by (simp only: numeral_eq_Suc [of k] hex_digits.simps)

lemma demo_uuid_text: "uuid_to_string demo_crates demo_uuid = ''00000000-0000-4000-8000-000000000001''"
proof -
  have "hex_digits 32 (unat demo_uuid) = ''00000000000040008000000000000001''"
    by (simp add: demo_uuid_def hex_digits_numeral)
  then show ?thesis by (simp add: demo_crates_def uuid_text_def Let_def)
qed

lemma demo_uuid_v4: "is_uuid_v4 (uuid_to_string demo_crates demo_uuid)"
  unfolding demo_uuid_text by code_simp

lemma demo_session_fields:
  "ss_room_id (demo_session a b) = room_id demo_crates (public_bundle demo_crates (demo_identity a))
      (public_bundle demo_crates (demo_identity b))"
  "ss_self_fp (demo_session a b) = id_bundle_fp demo_crates (demo_identity a)"
  "ss_peer_fp (demo_session a b) = id_bundle_fp demo_crates (demo_identity b)"
  "ss_keys (demo_session a b) = demo_keys a b" "ss_file (demo_session a b) = None"
  "ss_send_state (demo_session a b) = direction_new 1" "ss_recv_state (demo_session a b) = direction_new 1"
  "ss_history (demo_session a b) = empty_history"
  "ss_recv_key (demo_session b a) = ss_send_key (demo_session a b)"
  by (simp_all add: demo_session_def open_session_def demo_party_def from_candidate_def id_bundle_fp_def
      Let_def room_id_sym)

lemma demo_mirrored: "mirrored (demo_session 1 2) (demo_session 2 1)"
proof -
  have "sk_recv (demo_keys 2 1) = sk_send (demo_keys 1 2)" by code_simp
  then show ?thesis by (simp add: mirrored_def demo_session_fields room_id_sym)
qed

lemma demo_commit_ok:
  assumes "load_document X J False fl = Inr d" "to_json J (serialize_document X (AList.update k st d)) = Inr data"
  shows "commit_direction X J demo_commit k st None fl = (Inr (), Some data)"
  using assms by (simp add: commit_direction_def demo_commit_def write_outcome_of_def guarded_style_def Let_def)

lemma demo_history_add:
  "\<exists>h'. history_add demo_crates demo_items_json demo_faults (entry_of demo_clip src) empty_history = (Inr (), h')"
  if "src = Local \<or> src = Remote"
  using that
  by (auto simp: history_add_new empty_history_def HISTORY_CAP_def history_ids_def entry_of_def demo_clip_def
        store_image_def demo_faults_def history_persist_def write_outcome_of_def demo_items_json_def
        table_json_def Let_def)

lemma demo_sent_ok: "is_ok (fst demo_sent)"
proof -
  have v: "validate_envelope demo_crates \<lparr>env_v = 1, env_kind = KText,
      env_item_id = uuid_to_string demo_crates demo_uuid, env_seq = 1, env_ts_ms = 1000,
      env_content_b64 = b64_encode demo_crates (as_bytes ''hi'')\<rparr> = Inr ()"
    using demo_uuid_v4 validate_base64_iff [OF demo_laws(1)]
    by (auto simp: validate_envelope_def validate_version_def PROTOCOL_VERSION_def)
  then have e: "encode_envelope demo_crates demo_envelope_json \<lparr>env_v = 1, env_kind = KText,
      env_item_id = uuid_to_string demo_crates demo_uuid, env_seq = 1, env_ts_ms = 1000,
      env_content_b64 = b64_encode demo_crates (as_bytes ''hi'')\<rparr> = Inr [2, 10]"
    by (simp add: encode_envelope_eq_Inr demo_envelope_json_def table_json_def MAX_MESSAGE_BYTES_def)
  let ?st = "(direction_new 1)\<lparr>ds_next_seq := 2\<rparr>" and ?k = "ss_send_key (demo_session 1 2)"
  have "\<exists>bs. to_json demo_documents_json (serialize_document demo_crates [(?k, ?st)]) = Inr bs"
    by (auto simp: demo_documents_json_def table_json_def)
  then obtain bs where "to_json demo_documents_json (serialize_document demo_crates [(?k, ?st)]) = Inr bs" ..
  then have c: "commit_direction demo_crates demo_documents_json demo_commit ?k ?st None None = (Inr (), Some bs)"
    by (intro demo_commit_ok [of _ _ _ "[]"]) (simp_all add: load_document_def)
  obtain h' where h': "history_add demo_crates demo_items_json demo_faults (entry_of demo_clip Local) empty_history
      = (Inr (), h')" using demo_history_add by blast
  obtain c' where s: "seal demo_crates (replicate 24 5) k ad m = Inr (c' k ad m)" for k ad m
    using that by (simp add: seal_def demo_crates_def)
  show ?thesis using e c h' s
    by (simp add: demo_sent_def send_clip_with_fault_def demo_send_env_def demo_session_fields
        direction_new_def PROTOCOL_VERSION_def Let_def entry_of_def demo_clip_def split: prod.split)
qed

definition demo_ciphertext :: string where
  "demo_ciphertext = (case demo_sent of (Inr (Clip _ ct _ _), _) \<Rightarrow> ct | _ \<Rightarrow> [])"

definition demo_received :: "(session_error + inbound_outcome) \<times> (bool \<times> clip_item) list \<times> session" where
  "demo_received = handle_clip_with_fault demo_crates demo_envelope_json demo_documents_json demo_items_json
     demo_receive_env (ss_room_id (demo_session 2 1)) demo_ciphertext False 1000 (demo_session 2 1)"

lemma demo_authenticates:
  "authenticate demo_crates demo_envelope_json (demo_session 2 1) (ss_room_id (demo_session 2 1)) demo_ciphertext
     = Some demo_clip"
proof -
  obtain f s' where f: "demo_sent = (Inr f, s')"
    using demo_sent_ok by (metis is_ok_iff prod.collapse)
  have j: "json_law demo_envelope_json" by (simp add: demo_envelope_json_def table_json_law)
  have n: "length (se_nonce demo_send_env) = NONCE_LENGTH" by (simp add: demo_send_env_def NONCE_LENGTH_def)
  have v: "content_valid (CText ''hi'')" by code_simp
  from sent_frame_authenticates [OF demo_laws(1,4,3) j demo_mirrored n v f [unfolded demo_sent_def]]
  obtain ct where ct: "f = Clip (ss_room_id (demo_session 2 1)) ct [] False"
    and a: "authenticate demo_crates demo_envelope_json (demo_session 2 1) (ss_room_id (demo_session 2 1)) ct
      = Some demo_clip"
    by (auto simp: demo_send_env_def demo_clip_def demo_session_fields direction_new_def)
  have "demo_ciphertext = ct" by (simp add: demo_ciphertext_def f ct)
  with a show ?thesis by simp
qed

lemma demo_session_laws: "session_laws demo_crates demo_documents_json"
  by (simp add: session_laws_def demo_laws demo_documents_json_def)

lemma demo_documents:
  obtains d1 d2 where
    "commit_direction demo_crates demo_documents_json demo_commit (ss_recv_key (demo_session 2 1)) demo_delivered None None
       = (Inr (), Some d1)"
    "commit_direction demo_crates demo_documents_json demo_commit (ss_recv_key (demo_session 2 1))
       (demo_delivered\<lparr>ds_pending := []\<rparr>) None (Some d1) = (Inr (), Some d2)"
    "load_document demo_crates demo_documents_json False (Some d1) = Inr [(ss_recv_key (demo_session 2 1), demo_delivered)]"
proof -
  let ?J = demo_documents_json and ?k = "ss_recv_key (demo_session 2 1)"
  let ?c = "demo_delivered\<lparr>ds_pending := []\<rparr>"
  have "\<exists>bs. to_json ?J (serialize_document demo_crates [(?k, demo_delivered)]) = Inr bs"
    "\<exists>bs. to_json ?J (serialize_document demo_crates [(?k, ?c)]) = Inr bs"
    by (auto simp: demo_documents_json_def table_json_def demo_session_fields)
  then obtain d1 d2 where d1: "to_json ?J (serialize_document demo_crates [(?k, demo_delivered)]) = Inr d1"
    and d2: "to_json ?J (serialize_document demo_crates [(?k, ?c)]) = Inr d2" by blast
  note l = load_document_written [OF demo_session_laws d1]
  show thesis
  proof (rule that)
    show "commit_direction demo_crates ?J demo_commit ?k demo_delivered None None = (Inr (), Some d1)"
      by (rule demo_commit_ok [of _ _ _ "[]"]) (simp_all add: load_document_def d1)
    show "commit_direction demo_crates ?J demo_commit ?k ?c None (Some d1) = (Inr (), Some d2)"
      by (rule demo_commit_ok [OF l]) (simp add: d2)
  qed (rule l)
qed

lemma demo_fresh: "is_fresh False (ci_ts_ms demo_clip) 1000"
  by (simp add: is_fresh_def demo_clip_def LIVE_FRESH_WINDOW_MS_def LIVE_FUTURE_SKEW_MS_def)

lemma demo_direction_new:
  "ds_seen_ids (direction_new 1) = []" "ds_last_seq (direction_new 1) = 0" "ci_seq demo_clip = 1"
  by (simp_all add: direction_new_def demo_clip_def)

lemma demo_receives: "\<exists>s'. demo_received = (Inr LiveApplied, [(False, demo_clip)], s')"
proof -
  let ?J = demo_documents_json and ?k = "ss_recv_key (demo_session 2 1)"
  let ?c = "demo_delivered\<lparr>ds_pending := []\<rparr>"
  obtain d1 d2 where d: "commit_direction demo_crates ?J demo_commit ?k demo_delivered None None = (Inr (), Some d1)"
    "commit_direction demo_crates ?J demo_commit ?k ?c None (Some d1) = (Inr (), Some d2)" by (rule demo_documents)
  have p: "filter (\<lambda>p. pi_id p \<noteq> ci_id demo_clip) (ds_pending demo_delivered) = []"
    by (simp add: demo_delivered_def direction_new_def)
  obtain h' where h: "history_add demo_crates demo_items_json demo_faults (entry_of demo_clip Remote) empty_history
      = (Inr (), h')" using demo_history_add by blast
  show ?thesis
    using d h demo_fresh demo_direction_new
    by (simp add: demo_received_def handle_clip_with_fault_def demo_authenticates demo_session_fields(2-8)
        record_and_deliver_def clear_pending_and_deliver_def deliver_def invoke_callback_def demo_receive_env_def
        demo_delivered_def [symmetric] entry_of_def p Let_def)
qed

definition demo_world :: "byte \<Rightarrow> byte \<Rightarrow> session_world" where
  "demo_world a b = \<lparr>sw_crates = demo_crates, sw_envelope = demo_envelope_json, sw_document = demo_documents_json,
     sw_item = demo_items_json, sw_identity = demo_identity a, sw_record = demo_party a b\<rparr>"

definition demo_start :: session_op where
  "demo_start = OpStart \<lparr>oe_history = (False, False), oe_remove = (\<lambda>_. False), oe_listing = [],
     oe_start = \<lparr>st_read_send = False, st_read_recv = False, st_add = (\<lambda>_. demo_faults), st_commit = demo_commit\<rparr>\<rparr>"

definition demo_arrival :: session_op where
  "demo_arrival = OpReceive demo_receive_env (ss_room_id (demo_session 2 1)) demo_ciphertext False 1000"

lemma demo_world_ok: "world_ok (demo_world a b)"
  using bundle_fp_hex [OF demo_laws(2)]
  by (simp add: world_ok_def demo_world_def session_laws_def demo_laws demo_documents_json_def demo_party_def
      from_candidate_def Let_def)

lemma demo_session_history: "history_ok demo_crates (ss_history (demo_session a b))"
  by (simp add: demo_session_fields history_ok_def empty_history_def)

lemma demo_history_new:
  "history_new demo_crates demo_items_json (False, False) (\<lambda>_. False) [] (hs_disk empty_history)
     = (Inr empty_history, hs_disk empty_history)"
  by (simp add: history_new_def load_items_def empty_history_def keep_last_def Let_def)

lemma demo_party_fields:
  "pr_generation (demo_party a b) = 1" "pr_local_bundle_fp (demo_party a b) = id_bundle_fp demo_crates (demo_identity a)"
  "pr_peer_bundle_fp (demo_party a b) = bundle_fp demo_crates (public_bundle demo_crates (demo_identity b))"
  "pr_peer_bundle (demo_party a b) = public_bundle demo_crates (demo_identity b)"
  by (simp_all add: demo_party_def from_candidate_def id_bundle_fp_def Let_def)

lemma demo_started:
  assumes k: "session_keys demo_crates (demo_identity a) (public_bundle demo_crates (demo_identity b)) = Inr (demo_keys a b)"
    and n: "bundle_fp demo_crates (public_bundle demo_crates (demo_identity a))
      \<noteq> bundle_fp demo_crates (public_bundle demo_crates (demo_identity b))"
  shows "exec_op (demo_world a b) demo_start (Stopped None (hs_disk empty_history)) = (Running (demo_session a b), [])"
proof -
  have g: "id_generation (demo_identity a) = 1" by (simp add: demo_identity_def)
  have l: "load_direction demo_crates demo_documents_json False key 1 None = Inr (direction_new 1)" for key
    by (simp add: load_direction_def load_document_def)
  have "ds_pending (direction_new 1) = []" by (simp add: direction_new_def)
  then have "session_new demo_crates demo_documents_json demo_items_json (demo_identity a) (demo_party a b)
      \<lparr>st_read_send = False, st_read_recv = False, st_add = f, st_commit = demo_commit\<rparr> None empty_history
      = (Inr (demo_session a b), None, empty_history)" for f
    using n k by (simp add: session_new_def demo_party_fields g l demo_session_def Let_def id_bundle_fp_def)
  then show ?thesis using demo_history_new by (simp add: demo_start_def demo_world_def)
qed

lemma demo_fingerprints_apart:
  "bundle_fp demo_crates (public_bundle demo_crates (demo_identity 2))
     \<noteq> bundle_fp demo_crates (public_bundle demo_crates (demo_identity 1))"
  by code_simp

lemma demo_starts:
  "exec_op (demo_world 2 1) demo_start (Stopped None (hs_disk empty_history)) = (Running (demo_session 2 1), [])"
  "exec_op (demo_world 1 2) demo_start (Stopped None (hs_disk empty_history)) = (Running (demo_session 1 2), [])"
proof -
  have k: "session_keys demo_crates (demo_identity 2) (public_bundle demo_crates (demo_identity 1)) = Inr (demo_keys 2 1)"
    "session_keys demo_crates (demo_identity 1) (public_bundle demo_crates (demo_identity 2)) = Inr (demo_keys 1 2)"
    by code_simp+
  show "exec_op (demo_world 2 1) demo_start (Stopped None (hs_disk empty_history)) = (Running (demo_session 2 1), [])"
    by (rule demo_started [OF k(1) demo_fingerprints_apart])
  show "exec_op (demo_world 1 2) demo_start (Stopped None (hs_disk empty_history)) = (Running (demo_session 1 2), [])"
    by (rule demo_started [OF k(2) demo_fingerprints_apart [symmetric]])
qed

lemma demo_send_run:
  "\<exists>e f. exec_ops (demo_world 1 2) [demo_start, OpSend demo_send_env (CText ''hi'') 1000]
      (Stopped None (hs_disk empty_history)) = (e, [Sent 1 f])"
proof -
  obtain f s' where f: "demo_sent = (Inr f, s')" using demo_sent_ok by (metis is_ok_iff prod.collapse)
  have "exec_op (demo_world 1 2) (OpSend demo_send_env (CText ''hi'') 1000) (Running (demo_session 1 2))
      = (Running s', [Sent 1 f])"
    using f by (simp add: demo_sent_def demo_world_def demo_session_fields(2-) direction_new_def)
  then show ?thesis by (simp add: demo_starts)
qed

lemma demo_run:
  "exec_ops (demo_world 2 1) [demo_start, demo_arrival, demo_arrival] (Stopped None (hs_disk empty_history))
     = (Running (snd (snd demo_received)), [CalledBack False demo_clip])"
proof -
  obtain s' where r: "demo_received = (Inr LiveApplied, [(False, demo_clip)], s')" using demo_receives by blast
  have again: "handle_clip_with_fault demo_crates demo_envelope_json demo_documents_json demo_items_json
     demo_receive_env (ss_room_id (demo_session 2 1)) demo_ciphertext False 1000 s' = (Inr Duplicate, [], s')"
    by (rule handled_again [OF demo_session_laws demo_session_history r [unfolded demo_received_def]]) simp
  have "exec_op (demo_world 2 1) demo_arrival (Running (demo_session 2 1)) = (Running s', [CalledBack False demo_clip])"
    "exec_op (demo_world 2 1) demo_arrival (Running s') = (Running s', [])"
    using r again by (simp_all add: demo_arrival_def demo_world_def demo_received_def)
  then show ?thesis by (simp add: demo_starts r)
qed

text \<open>The demo endpoint stops after its first commit and starts again.\<close>

definition demo_crashed :: "(session_error + inbound_outcome) \<times> (bool \<times> clip_item) list \<times> session" where
  "demo_crashed = handle_clip_with_fault demo_crates demo_envelope_json demo_documents_json demo_items_json
     (demo_receive_env\<lparr>re_fail_at := Some DeliveryCommitted\<rparr>) (ss_room_id (demo_session 2 1)) demo_ciphertext
     False 1000 (demo_session 2 1)"

definition demo_restarted :: "(session_error + session) \<times> bytes option \<times> history_store" where
  "demo_restarted = session_new demo_crates demo_documents_json demo_items_json (demo_identity 2) (demo_party 2 1)
     \<lparr>st_read_send = False, st_read_recv = False, st_add = (\<lambda>_. demo_faults), st_commit = demo_commit\<rparr>
     (ss_file (snd (snd demo_crashed))) empty_history"

lemma demo_crash:
  "\<exists>s' s2 fl h2. demo_crashed = (Inl InjectedFault, [], s') \<and> ss_history s' = empty_history
     \<and> demo_restarted = (Inr s2, fl, h2)"
proof -
  let ?s = "demo_session 2 1" and ?J = demo_documents_json and ?k = "ss_recv_key (demo_session 2 1)"
  let ?c = "demo_delivered\<lparr>ds_pending := []\<rparr>"
  obtain d1 d2 where d: "commit_direction demo_crates ?J demo_commit ?k demo_delivered None None = (Inr (), Some d1)"
    "commit_direction demo_crates ?J demo_commit ?k ?c None (Some d1) = (Inr (), Some d2)"
    "load_document demo_crates ?J False (Some d1) = Inr [(?k, demo_delivered)]" by (rule demo_documents)
  have c: "demo_crashed = (Inl InjectedFault, [], ?s\<lparr>ss_file := Some d1, ss_recv_state := demo_delivered\<rparr>)"
    using d(1) demo_fresh demo_direction_new
    by (simp add: demo_crashed_def handle_clip_with_fault_def demo_authenticates demo_session_fields(2-8)
        demo_receive_env_def demo_delivered_def [symmetric] Let_def)
  have k: "direction_key (pr_room_id (demo_party 2 1)) (id_bundle_fp demo_crates (demo_identity 1))
      (id_bundle_fp demo_crates (demo_identity 2)) = ?k"
    by (simp add: demo_session_def open_session_def demo_party_fields id_bundle_fp_def Let_def)
  have ld: "load_direction demo_crates ?J False ?k 1 (Some d1) = Inr demo_delivered"
    "\<exists>d. load_direction demo_crates ?J False (direction_key (pr_room_id (demo_party 2 1))
       (id_bundle_fp demo_crates (demo_identity 2)) (id_bundle_fp demo_crates (demo_identity 1))) 1 (Some d1) = Inr d"
    using d(3) by (auto simp: load_direction_eq demo_delivered_def direction_new_def)
  obtain h' where h: "history_add demo_crates demo_items_json demo_faults (entry_of demo_clip Remote) empty_history
      = (Inr (), h')" using demo_history_add by blast
  have p: "map pending_as_new (ds_pending demo_delivered) = [entry_of demo_clip Remote]" "ds_pending demo_delivered \<noteq> []"
    by (simp_all add: demo_delivered_def direction_new_def pending_as_new_def entry_of_def)
  have g: "id_generation (demo_identity 2) = 1" by (simp add: demo_identity_def)
  have ks: "session_keys demo_crates (demo_identity 2) (public_bundle demo_crates (demo_identity 1)) = Inr (demo_keys 2 1)"
    by code_simp
  have "\<exists>s2 fl h2. demo_restarted = (Inr s2, fl, h2)"
    using demo_fingerprints_apart ld d(2) h p
    by (auto simp: demo_restarted_def session_new_def demo_party_fields g ks k c id_bundle_fp_def [symmetric] Let_def
        split: sum.split)
  then show ?thesis unfolding c by (simp add: demo_session_fields)
qed

section \<open>Properties\<close>

text \<open>C10: at most once, in order. Over any sequence of starts, stops, sends, receives and history
  operations, with any failure injected at any step and any bytes arriving, from any state file,
  the callbacks that fire carry strictly increasing sequence numbers: no item is handed to the shell
  twice, not even across a crash between the commit and the callback.\<close>

theorem callbacks_at_most_once:
  assumes "world_ok w"
  shows "sorted_wrt (<) (callback_seqs (snd (exec_ops w ops (Stopped file disk))))"
proof -
  obtain e evs where run: "exec_ops w ops (Stopped file disk) = (e, evs)" by fastforce
  have "floors w 0 0 (Stopped file disk)" by (simp add: file_floor_def)
  from exec_ops_floor [OF assms this run] run show ?thesis by simp
qed

theorem callbacks_at_most_once_witness:
  "world_ok (demo_world 2 1)
   \<and> callback_seqs (snd (exec_ops (demo_world 2 1) [demo_start, demo_arrival, demo_arrival] (Stopped None (hs_disk empty_history)))) = [1]
   \<and> sorted_wrt (<) (callback_seqs (snd (exec_ops (demo_world 2 1) [demo_start, demo_arrival, demo_arrival]
        (Stopped None (hs_disk empty_history)))))"
  using callbacks_at_most_once [OF demo_world_ok [of 2 1], of "[demo_start, demo_arrival, demo_arrival]" None "hs_disk empty_history"]
    demo_world_ok demo_run by (simp add: demo_clip_def)



text \<open>C12: a sent clip is accepted and arrives unchanged. When a send returns a frame, the frame
  carries the room's id with no origin and no mailbox mark; the peer of the same pairing authenticates
  it to an item with the sender's id, clock, sequence number and content; and unless the peer has
  handled that number or id before it does not drop the frame: it fails with an error of its own
  stores or callback, or fires the callback for exactly that item.\<close>

theorem sent_clip_accepted:
  assumes "b64_law X" "aead_law X" "uuid_law X" "json_law JE"
    and "mirrored s t" "length (se_nonce env) = NONCE_LENGTH" "content_valid content"
    and "send_clip_with_fault X JE J JH env content ts s = (Inr f, s')"
    and "ds_last_seq (ss_recv_state t) < ds_next_seq (ss_send_state s)"
      "uuid_to_string X (se_item_id env) \<notin> set (ds_seen_ids (ss_recv_state t))"
  shows "\<exists>ct. f = Clip (ss_room_id t) ct [] False
    \<and> (let (r, calls, t') = handle_clip_with_fault X JE J' JH' renv (ss_room_id t) ct mailbox now t in
        r \<notin> {Inr Unauthenticated, Inr Duplicate, Inr Replay}
        \<and> (is_ok r \<longrightarrow> calls = [(\<not> is_fresh mailbox ts now,
              \<lparr>ci_id = se_item_id env, ci_ts_ms = ts, ci_seq = ds_next_seq (ss_send_state s), ci_content = content\<rparr>)]))"
proof -
  let ?item = "\<lparr>ci_id = se_item_id env, ci_ts_ms = ts, ci_seq = ds_next_seq (ss_send_state s), ci_content = content\<rparr>"
  obtain ct where ct: "f = Clip (ss_room_id t) ct [] False" "authenticate X JE t (ss_room_id t) ct = Some ?item"
    using sent_frame_authenticates [OF assms(1-8)] by blast
  obtain r calls t' where run: "handle_clip_with_fault X JE J' JH' renv (ss_room_id t) ct mailbox now t = (r, calls, t')"
    by (metis prod_cases3)
  show ?thesis using handle_new_clip [OF run ct(2)] assms(9,10) run ct(1) by (intro exI [of _ ct]) simp
qed

theorem sent_clip_accepted_witness:
  "\<exists>ct. fst demo_sent = Inr (Clip (ss_room_id (demo_session 2 1)) ct [] False)
    \<and> fst (handle_clip_with_fault demo_crates demo_envelope_json demo_documents_json demo_items_json
        demo_receive_env (ss_room_id (demo_session 2 1)) ct False 1000 (demo_session 2 1)) \<noteq> Inr Unauthenticated"
proof -
  obtain f s' where f: "demo_sent = (Inr f, s')" using demo_sent_ok by (metis is_ok_iff prod.collapse)
  have j: "json_law demo_envelope_json" by (simp add: demo_envelope_json_def table_json_law)
  have n: "length (se_nonce demo_send_env) = NONCE_LENGTH" by (simp add: demo_send_env_def NONCE_LENGTH_def)
  have v: "content_valid (CText ''hi'')" by code_simp
  have new: "ds_last_seq (ss_recv_state (demo_session 2 1)) < ds_next_seq (ss_send_state (demo_session 1 2))"
    "uuid_to_string demo_crates (se_item_id demo_send_env) \<notin> set (ds_seen_ids (ss_recv_state (demo_session 2 1)))"
    by (simp_all add: demo_session_fields direction_new_def)
  from sent_clip_accepted [OF demo_laws(1,4,3) j demo_mirrored n v f [unfolded demo_sent_def] new,
      of demo_documents_json demo_items_json demo_receive_env False 1000]
  show ?thesis unfolding f by (auto simp: Let_def)
qed





text \<open>C15: a committed item is not lost. If the process stops after any prefix of the receive path,
  with any write failing, and a later start succeeds, then either the state file still loads as it
  did before the frame, so the relay's copy is accepted again, or the item is in the reopened
  history, or the start itself has put it into the history.\<close>

theorem committed_item_recovered:
  assumes "session_laws X J" "jsonl_law JH"
    and "history_ok X (ss_history s)" "metadata_ok X JH (ss_history s)"
    and "ss_recv_key s = direction_key (pr_room_id rec) (pr_peer_bundle_fp rec) (pr_local_bundle_fp rec)"
      "ds_generation (ss_recv_state s) = id_generation i"
    and "handle_clip_with_fault X JE J JH env room ct mailbox now s = (r, calls, s')"
    and "authenticate X JE s room ct = Some item"
    and "history_new X JH fails rf listing (hs_disk (ss_history s')) = (Inr h0, d)"
    and "session_new X J JH i rec env2 (ss_file s') h0 = (Inr s2, fl2, h2)"
  shows "load_direction X J False (ss_recv_key s) (id_generation i) (ss_file s')
       = load_direction X J False (ss_recv_key s) (id_generation i) (ss_file s)
    \<or> ci_id item \<in> history_ids h0 \<or> ci_id item \<in> history_ids (ss_history s2)"
  by (rule committed_item_recovery [OF assms])


theorem committed_item_recovered_witness:
  "ds_last_seq (ss_recv_state (demo_session 2 1)) = 0
   \<and> (load_direction demo_crates demo_documents_json False (ss_recv_key (demo_session 2 1)) 1 (ss_file (snd (snd demo_crashed)))
       = load_direction demo_crates demo_documents_json False (ss_recv_key (demo_session 2 1)) 1 None
     \<or> demo_uuid \<in> history_ids empty_history \<or> demo_uuid \<in> history_ids (ss_history (projr (fst demo_restarted))))"
proof -
  obtain s' s2 fl h2 where c: "demo_crashed = (Inl InjectedFault, [], s')" "ss_history s' = empty_history"
    "demo_restarted = (Inr s2, fl, h2)" using demo_crash by blast
  have hist: "metadata_ok demo_crates demo_items_json (ss_history (demo_session 2 1))"
    by (simp add: demo_session_fields metadata_ok_def load_items_def empty_history_def keep_last_def)
  have key: "ss_recv_key (demo_session 2 1) = direction_key (pr_room_id (demo_party 2 1))
      (pr_peer_bundle_fp (demo_party 2 1)) (pr_local_bundle_fp (demo_party 2 1))"
    by (simp add: demo_session_def open_session_def Let_def)
  have gen: "ds_generation (ss_recv_state (demo_session 2 1)) = id_generation (demo_identity 2)"
    by (simp add: demo_session_fields direction_new_def demo_identity_def)
  have j: "jsonl_law demo_items_json" by (simp add: demo_items_json_def table_jsonl_law)
  have n: "history_new demo_crates demo_items_json (False, False) (\<lambda>_. False) [] (hs_disk (ss_history s'))
      = (Inr empty_history, hs_disk empty_history)" using c(2) demo_history_new by simp
  have r: "session_new demo_crates demo_documents_json demo_items_json (demo_identity 2) (demo_party 2 1)
     \<lparr>st_read_send = False, st_read_recv = False, st_add = (\<lambda>_. demo_faults), st_commit = demo_commit\<rparr>
     (ss_file s') empty_history = (Inr s2, fl, h2)" using c(3) unfolding demo_restarted_def c(1) by simp
  from committed_item_recovered [OF demo_session_laws j demo_session_history hist key gen
      c(1) [unfolded demo_crashed_def] demo_authenticates n r]
  show ?thesis unfolding c by (simp add: demo_session_fields direction_new_def demo_identity_def demo_clip_def)
qed

end
