(* ===== verification/Config.thy ===== *)
theory Config
  imports Prelude
begin

text \<open>
  Limits, trusted-proxy networks and client-address resolution of
  crates/server/src/config.rs, with the address parser of the Rust standard library that it calls.

  An IPv4 address is a 32-bit word and an IPv6 address a 128-bit word; \<open>octets\<close> lists its
  bytes in network order. A slice or index out of range is \<open>None\<close>, a panic. Durations are
  natural numbers of milliseconds. The test hooks (semaphores that stall an actor or a writer)
  are scheduling only and have no counterpart here.

  The lemmas show that \<open>prefix_matches\<close> compares exactly the leading bits, that a parsed
  network never panics, and that a forwarded address is believed only from a trusted peer.
\<close>

unbundle bit_operations_syntax

section \<open>Data\<close>

datatype ip_addr = IpV4 "32 word" | IpV6 "128 word"

datatype ip_net = V4 "32 word" byte | V6 "128 word" byte

text \<open>The descriptions \<open>IpNet::parse\<close> returns, with the values they print.\<close>

datatype net_error = InvalidPrefix string | InvalidAddress string | PrefixExceeds byte nat

record limits =
  li_max_connections :: nat
  li_outbox_max_frames :: nat
  li_outbox_max_bytes :: nat
  li_inbox_max_events :: nat
  li_inbox_max_bytes :: nat
  li_handshake_deadline :: nat
  li_join_idle_deadline :: nat
  li_join_attempts_per_minute :: u32
  li_bytes_per_minute :: u64
  li_rate_window :: nat

definition limits_default :: limits where
  "limits_default = \<lparr>li_max_connections = 256, li_outbox_max_frames = 64,
     li_outbox_max_bytes = 48 * 1024 * 1024, li_inbox_max_events = 64,
     li_inbox_max_bytes = 48 * 1024 * 1024, li_handshake_deadline = 10 * 1000,
     li_join_idle_deadline = 300 * 1000, li_join_attempts_per_minute = 5,
     li_bytes_per_minute = 64 * 1024 * 1024, li_rate_window = 60 * 1000\<rparr>"

record server_config =
  sc_trusted_proxy :: "ip_net option"
  sc_limits :: limits

section \<open>The address parser of the standard library\<close>

text \<open>A parser returns the value and the rest of the input, or \<open>None\<close> and the input is
  kept by the caller.\<close>

definition digit_value :: "char \<Rightarrow> nat option" where
  "digit_value c =
     (if CHR ''0'' \<le> c \<and> c \<le> CHR ''9'' then Some (of_char c - 48)
      else if CHR ''a'' \<le> c \<and> c \<le> CHR ''f'' then Some (of_char c - 87)
      else if CHR ''A'' \<le> c \<and> c \<le> CHR ''F'' then Some (of_char c - 55)
      else None)"

definition radix_digit :: "nat \<Rightarrow> char \<Rightarrow> nat option" where
  "radix_digit radix c = (case digit_value c of Some d \<Rightarrow> if d < radix then Some d else None | None \<Rightarrow> None)"

definition digits_of :: "nat \<Rightarrow> string \<Rightarrow> string" where
  "digits_of radix s = takeWhile (\<lambda>c. radix_digit radix c \<noteq> None) s"

definition number_of :: "nat \<Rightarrow> string \<Rightarrow> nat" where
  "number_of radix ds = foldl (\<lambda>n c. n * radix + (case radix_digit radix c of Some d \<Rightarrow> d | None \<Rightarrow> 0)) 0 ds"

text \<open>\<open>read_number\<close>: at most \<open>max_digits\<close> digits, at least one, within the integer type
  (\<open>limit\<close> values), and with a leading zero only where allowed.\<close>

definition read_number :: "nat \<Rightarrow> nat \<Rightarrow> bool \<Rightarrow> nat \<Rightarrow> string \<Rightarrow> (nat \<times> string) option" where
  "read_number radix max_digits allow_zero_prefix limit s =
     (let ds = digits_of radix s; n = number_of radix ds in
      if ds = [] \<or> length ds > max_digits \<or> n \<ge> limit
         \<or> (\<not> allow_zero_prefix \<and> hd ds = CHR ''0'' \<and> length ds > 1)
      then None else Some (n, drop (length ds) s))"

fun read_given_char :: "char \<Rightarrow> string \<Rightarrow> string option" where
  "read_given_char c (d # s) = (if d = c then Some s else None)"
| "read_given_char c [] = None"

definition read_separator :: "char \<Rightarrow> nat \<Rightarrow> (string \<Rightarrow> ('a \<times> string) option) \<Rightarrow> string \<Rightarrow> ('a \<times> string) option" where
  "read_separator sep index inner s =
     (if index > 0 then (case read_given_char sep s of Some s \<Rightarrow> inner s | None \<Rightarrow> None) else inner s)"

fun read_octets :: "nat \<Rightarrow> nat \<Rightarrow> string \<Rightarrow> (nat list \<times> string) option" where
  "read_octets 0 i s = Some ([], s)"
| "read_octets (Suc n) i s =
     (case read_separator CHR ''.'' i (read_number 10 3 False 256) s of
        None \<Rightarrow> None
      | Some (v, s) \<Rightarrow> (case read_octets n (Suc i) s of None \<Rightarrow> None | Some (vs, s) \<Rightarrow> Some (v # vs, s)))"

definition from_digits :: "nat \<Rightarrow> nat list \<Rightarrow> 'a::len word" where
  "from_digits bits ds = foldl (\<lambda>w d. push_bit bits w OR word_of_nat d) 0 ds"

definition read_ipv4_addr :: "string \<Rightarrow> (32 word \<times> string) option" where
  "read_ipv4_addr s = map_option (\<lambda>(vs, s). (from_digits 8 vs, s)) (read_octets 4 0 s)"

text \<open>\<open>read_groups\<close> fills up to \<open>n\<close> 16-bit groups from position \<open>i\<close>; the flag tells
  that the last two came from an embedded IPv4 address.\<close>

fun read_groups :: "nat \<Rightarrow> nat \<Rightarrow> string \<Rightarrow> nat list \<times> bool \<times> string" where
  "read_groups 0 i s = ([], False, s)"
| "read_groups (Suc n) i s =
     (case (if n > 0 then read_separator CHR '':'' i read_ipv4_addr s else None) of
        Some (v4, s) \<Rightarrow> ([unat (drop_bit 16 v4), unat (take_bit 16 v4)], True, s)
      | None \<Rightarrow>
        (case read_separator CHR '':'' i (read_number 16 4 True 65536) s of
           None \<Rightarrow> ([], False, s)
         | Some (g, s') \<Rightarrow> (case read_groups n (Suc i) s' of (gs, v4, s'') \<Rightarrow> (g # gs, v4, s''))))"

definition read_ipv6_addr :: "string \<Rightarrow> (128 word \<times> string) option" where
  "read_ipv6_addr s =
     (case read_groups 8 0 s of (head, head_ipv4, s) \<Rightarrow>
        if length head = 8 then Some (from_digits 16 head, s)
        else if head_ipv4 then None
        else case Option.bind (read_given_char CHR '':'' s) (read_given_char CHR '':'') of
          None \<Rightarrow> None
        | Some s \<Rightarrow>
          (case read_groups (8 - (length head + 1)) 0 s of (tail, _, s) \<Rightarrow>
             Some (from_digits 16
                     (head @ replicate (8 - length head - length tail) 0 @ tail), s)))"

definition parse_ip_addr :: "string \<Rightarrow> ip_addr option" where
  "parse_ip_addr s =
     (case read_ipv4_addr s of
        Some (a, r) \<Rightarrow> if r = [] then Some (IpV4 a) else None
      | None \<Rightarrow> (case read_ipv6_addr s of Some (a, r) \<Rightarrow> if r = [] then Some (IpV6 a) else None | None \<Rightarrow> None))"

text \<open>\<open>str::parse::<u8>\<close>: an optional plus sign and decimal digits up to 255.\<close>

definition parse_u8 :: "string \<Rightarrow> byte option" where
  "parse_u8 s =
     (let ds = (case s of CHR ''+'' # r \<Rightarrow> r | _ \<Rightarrow> s) in
      if ds \<noteq> [] \<and> digits_of 10 ds = ds \<and> number_of 10 ds < 256 then Some (word_of_nat (number_of 10 ds)) else None)"

text \<open>\<open>str::split_once\<close> and the first element of \<open>str::split\<close>.\<close>

definition split_once :: "char \<Rightarrow> string \<Rightarrow> (string \<times> string) option" where
  "split_once c s = (if c \<in> set s then Some (takeWhile (\<lambda>d. d \<noteq> c) s, tl (dropWhile (\<lambda>d. d \<noteq> c) s)) else None)"

definition is_trimmed_space :: "char \<Rightarrow> bool" where
  "is_trimmed_space c \<longleftrightarrow> c = CHR '' '' \<or> (of_char c :: nat) \<in> {9, 10, 11, 12, 13}"

definition trim :: "string \<Rightarrow> string" where
  "trim s = rev (dropWhile is_trimmed_space (rev (dropWhile is_trimmed_space s)))"

section \<open>Networks\<close>

definition ip_net_parse :: "string \<Rightarrow> net_error + ip_net" where
  "ip_net_parse value =
     (case (case split_once CHR ''/'' value of
              Some (address, prefix) \<Rightarrow>
                (case parse_u8 prefix of
                   None \<Rightarrow> Inl (InvalidPrefix value)
                 | Some p \<Rightarrow> Inr (address, Some p))
            | None \<Rightarrow> Inr (value, None)) of
        Inl e \<Rightarrow> Inl e
      | Inr (address, prefix) \<Rightarrow>
        (case parse_ip_addr address of
           None \<Rightarrow> Inl (InvalidAddress value)
         | Some (IpV4 addr) \<Rightarrow>
             (let p = (case prefix of Some p \<Rightarrow> p | None \<Rightarrow> 32) in
              if p > 32 then Inl (PrefixExceeds p 32) else Inr (V4 addr p))
         | Some (IpV6 addr) \<Rightarrow>
             (let p = (case prefix of Some p \<Rightarrow> p | None \<Rightarrow> 128) in
              if p > 128 then Inl (PrefixExceeds p 128) else Inr (V6 addr p))))"

definition octets :: "'a::len word \<Rightarrow> bytes" where
  "octets w = map (\<lambda>k. ucast (drop_bit (8 * k) w)) (rev [0 ..< LENGTH('a) div 8])"

definition prefix_matches :: "bytes \<Rightarrow> bytes \<Rightarrow> byte \<Rightarrow> bool option" where
  "prefix_matches network address prefix =
     (let full_bytes = unat (prefix div 8); remaining_bits = unat (prefix mod 8) in
      if full_bytes > length network \<or> full_bytes > length address then None
      else if take full_bytes network \<noteq> take full_bytes address then Some False
      else if remaining_bits = 0 then Some True
      else if full_bytes \<ge> length network \<or> full_bytes \<ge> length address then None
      else let mask = push_bit (8 - remaining_bits) (0xFF :: byte) in
           Some (network ! full_bytes AND mask = address ! full_bytes AND mask))"

fun ip_net_contains :: "ip_net \<Rightarrow> ip_addr \<Rightarrow> bool option" where
  "ip_net_contains (V4 network prefix) (IpV4 addr) = prefix_matches (octets network) (octets addr) prefix"
| "ip_net_contains (V6 network prefix) (IpV6 addr) = prefix_matches (octets network) (octets addr) prefix"
| "ip_net_contains (V4 _ _) (IpV6 _) = Some False"
| "ip_net_contains (V6 _ _) (IpV4 _) = Some False"

definition client_ip :: "server_config \<Rightarrow> ip_addr \<Rightarrow> string option \<Rightarrow> ip_addr option" where
  "client_ip config peer x_forwarded_for =
     (case (sc_trusted_proxy config, x_forwarded_for) of
        (Some trusted, Some header) \<Rightarrow>
          (case ip_net_contains trusted peer of
             None \<Rightarrow> None
           | Some False \<Rightarrow> Some peer
           | Some True \<Rightarrow>
               (case parse_ip_addr (trim (takeWhile (\<lambda>c. c \<noteq> CHR '','') header)) of
                  Some ip \<Rightarrow> Some ip | None \<Rightarrow> Some peer))
      | _ \<Rightarrow> Some peer)"

section \<open>Facts\<close>

lemma length_octets [simp]: "length (octets (w :: 'a::len word)) = LENGTH('a) div 8"
  by (simp add: octets_def)

lemma bit_octet:
  fixes w :: "'a::len word"
  assumes "i < LENGTH('a) div 8" "j < 8"
  shows "bit (octets w ! i) j \<longleftrightarrow> bit w (8 * (LENGTH('a) div 8 - Suc i) + j)"
proof -
  have "8 * (LENGTH('a) div 8 - Suc i) + j < LENGTH('a)" using assms by linarith
  then show ?thesis using assms by (simp add: octets_def rev_nth bit_ucast_iff bit_drop_bit_eq add.commute)
qed

text \<open>The leading \<open>p\<close> bits of two words agree.\<close>

definition leading_bits_agree :: "nat \<Rightarrow> 'a::len word \<Rightarrow> 'a word \<Rightarrow> bool" where
  "leading_bits_agree p a b \<longleftrightarrow> drop_bit (LENGTH('a) - p) a = drop_bit (LENGTH('a) - p) b"

lemma drop_bit_eq_iff:
  fixes a b :: "'a::len word"
  shows "drop_bit m a = drop_bit m b \<longleftrightarrow> (\<forall>j. m \<le> j \<and> j < LENGTH('a) \<longrightarrow> bit a j = bit b j)"
proof
  assume eq: "drop_bit m a = drop_bit m b"
  show "\<forall>j. m \<le> j \<and> j < LENGTH('a) \<longrightarrow> bit a j = bit b j"
  proof (intro allI impI)
    fix j assume "m \<le> j \<and> j < LENGTH('a)"
    then have "bit a j = bit (drop_bit m a) (j - m)" "bit b j = bit (drop_bit m b) (j - m)"
      by (simp_all add: bit_drop_bit_eq)
    with eq show "bit a j = bit b j" by simp
  qed
next
  assume agree: "\<forall>j. m \<le> j \<and> j < LENGTH('a) \<longrightarrow> bit a j = bit b j"
  show "drop_bit m a = drop_bit m b"
  proof (rule bit_eqI)
    fix k
    show "bit (drop_bit m a) k = bit (drop_bit m b) k"
      using agree bit_imp_le_length [of a "m + k"] bit_imp_le_length [of b "m + k"]
      by (auto simp: bit_drop_bit_eq)
  qed
qed

lemma leading_bits_agree_iff:
  fixes a b :: "'a::len word"
  assumes "p \<le> LENGTH('a)"
  shows "leading_bits_agree p a b \<longleftrightarrow> (\<forall>i<p. bit a (LENGTH('a) - Suc i) = bit b (LENGTH('a) - Suc i))"
  unfolding leading_bits_agree_def drop_bit_eq_iff
proof
  assume "\<forall>j. LENGTH('a) - p \<le> j \<and> j < LENGTH('a) \<longrightarrow> bit a j = bit b j"
  then show "\<forall>i<p. bit a (LENGTH('a) - Suc i) = bit b (LENGTH('a) - Suc i)" using assms by simp
next
  assume agree: "\<forall>i<p. bit a (LENGTH('a) - Suc i) = bit b (LENGTH('a) - Suc i)"
  have "bit a j = bit b j" if "LENGTH('a) - p \<le> j" "j < LENGTH('a)" for j
  proof -
    have "LENGTH('a) - Suc j < p" "LENGTH('a) - Suc (LENGTH('a) - Suc j) = j" using assms that by auto
    with agree show ?thesis by metis
  qed
  then show "\<forall>j. LENGTH('a) - p \<le> j \<and> j < LENGTH('a) \<longrightarrow> bit a j = bit b j" by blast
qed

lemma octet_eq_iff:
  fixes a b :: "'a::len word"
  assumes "i < LENGTH('a) div 8"
  shows "octets a ! i = octets b ! i
    \<longleftrightarrow> (\<forall>j<8. bit a (8 * (LENGTH('a) div 8 - Suc i) + j) = bit b (8 * (LENGTH('a) div 8 - Suc i) + j))"
  using bit_octet [OF assms, of _ a] bit_octet [OF assms, of _ b] by (auto simp: bit_eq_iff)

lemma masked_octet_eq_iff:
  fixes a b :: "'a::len word"
  assumes "i < LENGTH('a) div 8" "r < 8"
  shows "octets a ! i AND push_bit (8 - r) (0xFF :: byte) = octets b ! i AND push_bit (8 - r) 0xFF
    \<longleftrightarrow> (\<forall>j<8. 8 - r \<le> j \<longrightarrow> bit a (8 * (LENGTH('a) div 8 - Suc i) + j) = bit b (8 * (LENGTH('a) div 8 - Suc i) + j))"
proof -
  have "bit (0xFF :: byte) k" if "k < 8" for k
    using that by (auto simp: bit_numeral_rec less_Suc_eq numeral_eq_Suc)
  then have "bit (push_bit (8 - r) (0xFF :: byte)) j \<longleftrightarrow> 8 - r \<le> j" if "j < 8" for j
    using that by (auto simp: bit_push_bit_iff)
  then show ?thesis
    using bit_octet [OF assms(1), of _ a] bit_octet [OF assms(1), of _ b]
    by (auto simp: bit_eq_iff bit_and_iff)
qed

lemma unat_byte_divmod: "unat (p div 8 :: byte) = unat p div 8" "unat (p mod 8 :: byte) = unat p mod 8"
  by (simp_all add: unat_div_distrib unat_mod_distrib)

text \<open>Bit \<open>i\<close> from the top lies in octet \<open>i div 8\<close>.\<close>

lemma octet_position:
  assumes "L = 8 * n" "q < n" "m < 8" shows "L - Suc (8 * q + m) = 8 * (n - Suc q) + (7 - m)"
proof -
  from assms obtain d where "n = Suc q + d" using less_imp_Suc_add by auto
  with assms show ?thesis by simp
qed

lemma octet_range:
  assumes "L = 8 * n" "q < n" "k \<le> 8"
  shows "(\<forall>j<8. 8 - k \<le> j \<longrightarrow> P (8 * (n - Suc q) + j)) \<longleftrightarrow> (\<forall>i. 8 * q \<le> i \<and> i < 8 * q + k \<longrightarrow> P (L - Suc i))"
proof
  assume oct: "\<forall>j<8. 8 - k \<le> j \<longrightarrow> P (8 * (n - Suc q) + j)"
  show "\<forall>i. 8 * q \<le> i \<and> i < 8 * q + k \<longrightarrow> P (L - Suc i)"
  proof (intro allI impI)
    fix i assume i: "8 * q \<le> i \<and> i < 8 * q + k"
    then have m: "i - 8 * q < 8" "8 * q + (i - 8 * q) = i" using assms(3) by auto
    have "L - Suc i = 8 * (n - Suc q) + (7 - (i - 8 * q))"
      using octet_position [OF assms(1,2) m(1)] m(2) by simp
    moreover have "7 - (i - 8 * q) < 8" "8 - k \<le> 7 - (i - 8 * q)" using i assms(3) by auto
    ultimately show "P (L - Suc i)" using oct by metis
  qed
next
  assume top: "\<forall>i. 8 * q \<le> i \<and> i < 8 * q + k \<longrightarrow> P (L - Suc i)"
  show "\<forall>j<8. 8 - k \<le> j \<longrightarrow> P (8 * (n - Suc q) + j)"
  proof (intro allI impI)
    fix j :: nat assume j: "j < 8" "8 - k \<le> j"
    have "L - Suc (8 * q + (7 - j)) = 8 * (n - Suc q) + j" using octet_position [OF assms(1,2), of "7 - j"] j by simp
    moreover have "8 * q + (7 - j) < 8 * q + k" using j assms(3) by auto
    ultimately show "P (8 * (n - Suc q) + j)" using top by (metis le_add1)
  qed
qed

lemma leading_octets_eq:
  fixes a b :: "'a::len word"
  assumes L: "LENGTH('a) = 8 * n" and f: "f \<le> n"
  shows "take f (octets a) = take f (octets b)
    \<longleftrightarrow> (\<forall>i<8 * f. bit a (LENGTH('a) - Suc i) = bit b (LENGTH('a) - Suc i))"
proof -
  let ?agree = "\<lambda>i. bit a (LENGTH('a) - Suc i) = bit b (LENGTH('a) - Suc i)"
  have n: "LENGTH('a) div 8 = n" using L by simp
  have oct: "octets a ! q = octets b ! q \<longleftrightarrow> (\<forall>i. 8 * q \<le> i \<and> i < 8 * q + 8 \<longrightarrow> ?agree i)" if "q < f" for q
    using octet_eq_iff [of q a b] octet_range [OF L, of q 8 "\<lambda>i. bit a i = bit b i"] that f n by simp
  have "take f (octets a) = take f (octets b) \<longleftrightarrow> (\<forall>q<f. octets a ! q = octets b ! q)"
    using f n by (auto simp: list_eq_iff_nth_eq)
  also have "\<dots> \<longleftrightarrow> (\<forall>q<f. \<forall>i. 8 * q \<le> i \<and> i < 8 * q + 8 \<longrightarrow> ?agree i)" using oct by simp
  also have "\<dots> \<longleftrightarrow> (\<forall>i<8 * f. ?agree i)"
  proof -
    have "i < 8 * f \<longleftrightarrow> (\<exists>q<f. 8 * q \<le> i \<and> i < 8 * q + 8)" for i by (auto intro!: exI [of _ "i div 8"])
    then show ?thesis by blast
  qed
  finally show ?thesis .
qed

lemma prefix_matches_iff:
  fixes a b :: "'a::len word"
  assumes L: "LENGTH('a) = 8 * n" and p: "unat prefix \<le> LENGTH('a)"
  shows "prefix_matches (octets a) (octets b) prefix = Some (leading_bits_agree (unat prefix) a b)"
proof -
  let ?p = "unat prefix" and ?agree = "\<lambda>i. bit a (LENGTH('a) - Suc i) = bit b (LENGTH('a) - Suc i)"
  define f r where "f = ?p div 8" and "r = ?p mod 8"
  have pfr: "?p = 8 * f + r" "r < 8" by (simp_all add: f_def r_def)
  have n: "LENGTH('a) div 8 = n" using L by simp
  have fn: "f \<le> n" using p L pfr by linarith
  note agree = leading_bits_agree_iff [OF p, of a b] and full = leading_octets_eq [OF L fn, of a b]
  note unfold = prefix_matches_def unat_byte_divmod f_def [symmetric] r_def [symmetric] Let_def
  show ?thesis
  proof (cases "r = 0")
    case True
    then show ?thesis using full agree fn n pfr by (simp add: unfold)
  next
    case False
    then have lt: "f < n" using p L pfr by linarith
    have split: "(\<forall>i<?p. ?agree i) \<longleftrightarrow> (\<forall>i<8 * f. ?agree i) \<and> (\<forall>i. 8 * f \<le> i \<and> i < 8 * f + r \<longrightarrow> ?agree i)"
      unfolding pfr(1) by (metis not_le trans_less_add1)
    have "octets a ! f AND push_bit (8 - r) (0xFF :: byte) = octets b ! f AND push_bit (8 - r) 0xFF
        \<longleftrightarrow> (\<forall>i. 8 * f \<le> i \<and> i < 8 * f + r \<longrightarrow> ?agree i)"
      using masked_octet_eq_iff [of f r a b] octet_range [OF L lt, of r "\<lambda>i. bit a i = bit b i"] lt pfr(2) n by simp
    then show ?thesis using full agree split lt fn n False by (simp add: unfold)
  qed
qed

fun net_prefix_ok :: "ip_net \<Rightarrow> bool" where
  "net_prefix_ok (V4 _ p) \<longleftrightarrow> p \<le> 32"
| "net_prefix_ok (V6 _ p) \<longleftrightarrow> p \<le> 128"

fun net_holds :: "ip_net \<Rightarrow> ip_addr \<Rightarrow> bool" where
  "net_holds (V4 n p) (IpV4 a) \<longleftrightarrow> leading_bits_agree (unat p) n a"
| "net_holds (V6 n p) (IpV6 a) \<longleftrightarrow> leading_bits_agree (unat p) n a"
| "net_holds _ _ \<longleftrightarrow> False"

lemma ip_net_contains_iff:
  assumes "net_prefix_ok net" shows "ip_net_contains net ip = Some (net_holds net ip)"
proof (cases net; cases ip)
  fix n p a assume [simp]: "net = V4 n p" "ip = IpV4 a"
  have "unat p \<le> LENGTH(32)" using assms by (simp add: word_le_nat_alt)
  then show ?thesis using prefix_matches_iff [of 4 p n a] by simp
next
  fix n p a assume [simp]: "net = V6 n p" "ip = IpV6 a"
  have "unat p \<le> LENGTH(128)" using assms by (simp add: word_le_nat_alt)
  then show ?thesis using prefix_matches_iff [of 16 p n a] by simp
qed simp_all

lemma parsed_prefix_ok: "ip_net_parse value = Inr net \<Longrightarrow> net_prefix_ok net"
  by (auto simp: ip_net_parse_def Let_def not_less
      split: option.splits prod.splits sum.splits ip_addr.splits if_splits)

section \<open>Properties\<close>

text \<open>A configured network holds exactly the addresses that share its leading bits. For every
  text that \<open>IpNet::parse\<close> accepts, the byte-and-mask comparison of \<open>contains\<close> never
  indexes out of range, is false across address families, and within a family compares the first
  \<open>prefix\<close> bits of the two addresses and nothing else.\<close>

theorem network_is_a_bit_prefix:
  assumes "ip_net_parse value = Inr net"
  shows "ip_net_contains net ip = Some (case (net, ip) of
      (V4 n p, IpV4 a) \<Rightarrow> drop_bit (32 - unat p) n = drop_bit (32 - unat p) a
    | (V6 n p, IpV6 a) \<Rightarrow> drop_bit (128 - unat p) n = drop_bit (128 - unat p) a
    | _ \<Rightarrow> False)"
  using ip_net_contains_iff [OF parsed_prefix_ok [OF assms], of ip]
  by (cases net; cases ip) (simp_all add: leading_bits_agree_def)

theorem network_is_a_bit_prefix_witness:
  "ip_net_parse ''10.0.0.0/7'' = Inr (V4 0x0A000000 7)
   \<and> ip_net_contains (V4 0x0A000000 7) (IpV4 0x0B010203) = Some (drop_bit 25 (0x0A000000 :: 32 word) = drop_bit 25 0x0B010203)"
proof -
  have p: "ip_net_parse ''10.0.0.0/7'' = Inr (V4 0x0A000000 7)" by code_simp
  from network_is_a_bit_prefix [OF p, of "IpV4 0x0B010203"] p show ?thesis by simp
qed

text \<open>C40: a forwarded address is believed only from the trusted proxy. With a configuration that
  was parsed, resolving the client address never panics; it is the TCP peer unless a proxy is
  configured, the peer lies in its network and the first hop of the header is an address, and then
  it is that hop.\<close>

theorem forwarded_only_from_trusted_proxy:
  assumes "\<forall>net. sc_trusted_proxy config = Some net \<longrightarrow> (\<exists>value. ip_net_parse value = Inr net)"
  shows "\<exists>ip. client_ip config peer header = Some ip
    \<and> (ip \<noteq> peer \<longrightarrow> (\<exists>net h. sc_trusted_proxy config = Some net \<and> net_holds net peer
         \<and> header = Some h \<and> parse_ip_addr (trim (takeWhile (\<lambda>c. c \<noteq> CHR '','') h)) = Some ip))"
proof (cases "sc_trusted_proxy config")
  case (Some net)
  with assms have "net_prefix_ok net" using parsed_prefix_ok by blast
  then show ?thesis using Some ip_net_contains_iff [of net peer]
    by (cases header) (auto simp: client_ip_def split: option.split bool.split)
qed (simp add: client_ip_def)

theorem forwarded_only_from_trusted_proxy_witness:
  "\<exists>ip. client_ip \<lparr>sc_trusted_proxy = Some (V4 0xAC1E0001 32), sc_limits = limits_default\<rparr> (IpV4 0x01020304)
      (Some ''9.9.9.9'') = Some ip"
proof -
  have "ip_net_parse ''172.30.0.1'' = Inr (V4 0xAC1E0001 32)" by code_simp
  with forwarded_only_from_trusted_proxy [of "\<lparr>sc_trusted_proxy = Some (V4 0xAC1E0001 32), sc_limits = limits_default\<rparr>"
      "IpV4 0x01020304" "Some ''9.9.9.9''"]
  show ?thesis by auto
qed

end
