(* ===== verification/Ratelimit.thy ===== *)
theory Ratelimit
  imports Config
begin

text \<open>
  The per-address fixed-window limiter of crates/server/src/ratelimit.rs.

  A call reads the clock once here; the source reads it again for a fresh window, within the same
  call. The join counter is a 32-bit word and wraps as a release build does, the byte counter
  saturates. \<open>run_limiter\<close> runs a sequence of calls from any addresses.

  The lemmas show that addresses do not influence each other and that within one window exactly
  the first \<open>max_joins\<close> attempts pass, and exactly the byte counts whose running total is
  within the budget.
\<close>

section \<open>State and operations\<close>

record window =
  wi_started :: nat
  wi_joins :: u32
  wi_bytes :: u64

record rate_limiter =
  rl_windows :: "ip_addr \<rightharpoonup> window"
  rl_max_joins :: u32
  rl_max_bytes :: u64
  rl_window :: nat

definition rate_limiter_new :: "limits \<Rightarrow> rate_limiter" where
  "rate_limiter_new l = \<lparr>rl_windows = Map.empty, rl_max_joins = li_join_attempts_per_minute l,
     rl_max_bytes = li_bytes_per_minute l, rl_window = li_rate_window l\<rparr>"

definition fresh_window :: "nat \<Rightarrow> window" where
  "fresh_window now = \<lparr>wi_started = now, wi_joins = 0, wi_bytes = 0\<rparr>"

text \<open>The entry of an address: inserted when absent, restarted when its window has passed.\<close>

definition current_window :: "nat \<Rightarrow> ip_addr \<Rightarrow> rate_limiter \<Rightarrow> window" where
  "current_window now ip l =
     (let entry = (case rl_windows l ip of Some w \<Rightarrow> w | None \<Rightarrow> fresh_window now) in
      if now - wi_started entry \<ge> rl_window l then fresh_window now else entry)"

definition check_join :: "nat \<Rightarrow> ip_addr \<Rightarrow> rate_limiter \<Rightarrow> bool \<times> rate_limiter" where
  "check_join now ip l =
     (let entry = current_window now ip l; entry = entry\<lparr>wi_joins := wi_joins entry + 1\<rparr> in
      (wi_joins entry \<le> rl_max_joins l, l\<lparr>rl_windows := (rl_windows l)(ip \<mapsto> entry)\<rparr>))"

definition saturating_add_u64 :: "u64 \<Rightarrow> u64 \<Rightarrow> u64" where
  "saturating_add_u64 a b = (if unat a + unat b < 2 ^ 64 then a + b else - 1)"

definition add_bytes :: "nat \<Rightarrow> ip_addr \<Rightarrow> u64 \<Rightarrow> rate_limiter \<Rightarrow> bool \<times> rate_limiter" where
  "add_bytes now ip n l =
     (let entry = current_window now ip l; entry = entry\<lparr>wi_bytes := saturating_add_u64 (wi_bytes entry) n\<rparr> in
      (wi_bytes entry \<le> rl_max_bytes l, l\<lparr>rl_windows := (rl_windows l)(ip \<mapsto> entry)\<rparr>))"

section \<open>Runs\<close>

datatype limiter_call = CallJoin ip_addr nat | CallBytes ip_addr nat u64

fun call_ip :: "limiter_call \<Rightarrow> ip_addr" where
  "call_ip (CallJoin ip _) = ip"
| "call_ip (CallBytes ip _ _) = ip"

fun run_call :: "limiter_call \<Rightarrow> rate_limiter \<Rightarrow> bool \<times> rate_limiter" where
  "run_call (CallJoin ip now) l = check_join now ip l"
| "run_call (CallBytes ip now n) l = add_bytes now ip n l"

fun run_limiter :: "limiter_call list \<Rightarrow> rate_limiter \<Rightarrow> (limiter_call \<times> bool) list" where
  "run_limiter [] l = []"
| "run_limiter (c # cs) l = (case run_call c l of (r, l') \<Rightarrow> (c, r) # run_limiter cs l')"

lemmas limiter_unfold = check_join_def add_bytes_def current_window_def fresh_window_def Let_def

subsection \<open>Addresses are independent\<close>

text \<open>Two limiters that agree on one address and on the configuration.\<close>

definition same_for :: "ip_addr \<Rightarrow> rate_limiter \<Rightarrow> rate_limiter \<Rightarrow> bool" where
  "same_for ip l m \<longleftrightarrow> rl_windows l ip = rl_windows m ip \<and> rl_max_joins l = rl_max_joins m
     \<and> rl_max_bytes l = rl_max_bytes m \<and> rl_window l = rl_window m"

lemma same_for_call:
  assumes "same_for ip l m" "call_ip c = ip"
  shows "fst (run_call c l) = fst (run_call c m) \<and> same_for ip (snd (run_call c l)) (snd (run_call c m))"
  using assms by (cases c) (simp_all add: limiter_unfold same_for_def)

lemma same_for_other:
  assumes "same_for ip l m" "call_ip c \<noteq> ip" shows "same_for ip (snd (run_call c l)) m"
  using assms by (cases c) (auto simp: limiter_unfold same_for_def)

lemma run_limiter_filter:
  assumes "same_for ip l m"
  shows "filter (\<lambda>(c, _). call_ip c = ip) (run_limiter cs l) = run_limiter (filter (\<lambda>c. call_ip c = ip) cs) m"
  using assms
proof (induction cs arbitrary: l m)
  case (Cons c cs)
  obtain r l' where c: "run_call c l = (r, l')" by fastforce
  show ?case
  proof (cases "call_ip c = ip")
    case True
    then show ?thesis using Cons.IH [of l' "snd (run_call c m)"] same_for_call [OF Cons.prems True] c
      by (cases "run_call c m") simp
  next
    case False
    then show ?thesis using Cons.IH [of l' m] same_for_other [OF Cons.prems False] c by simp
  qed
qed simp

subsection \<open>One window\<close>

text \<open>The counters of an address after some calls within the window opened at \<open>t0\<close>.\<close>

definition counted :: "ip_addr \<Rightarrow> nat \<Rightarrow> nat \<Rightarrow> u64 \<Rightarrow> rate_limiter \<Rightarrow> bool" where
  "counted ip t0 joins n l \<longleftrightarrow>
     (case rl_windows l ip of
        None \<Rightarrow> joins = 0 \<and> n = 0
      | Some w \<Rightarrow> wi_started w = t0 \<and> unat (wi_joins w) = joins \<and> wi_bytes w = n)"

lemma unat_Suc_u32: "unat (w :: u32) + 1 < 2 ^ 32 \<Longrightarrow> unat (w + 1) = unat w + 1"
  by (simp add: unat_word_ariths)

lemma check_join_counted:
  assumes "counted ip t0 joins n l" and "rl_windows l ip = None \<longrightarrow> now = t0" "t0 \<le> now" "now < t0 + rl_window l"
    and "joins + 1 < 2 ^ 32"
  shows "fst (check_join now ip l) \<longleftrightarrow> joins < unat (rl_max_joins l)"
    and "counted ip t0 (joins + 1) n (snd (check_join now ip l))"
  using assms unat_Suc_u32
  by (auto simp: limiter_unfold counted_def word_le_nat_alt split: option.splits)

lemma run_joins_counted:
  assumes "counted ip t0 joins n l" and "rl_windows l ip = None \<longrightarrow> (ts = [] \<or> hd ts = t0)"
    and "\<forall>t \<in> set ts. t0 \<le> t \<and> t < t0 + rl_window l" and "joins + length ts < 2 ^ 32"
  shows "map snd (run_limiter (map (CallJoin ip) ts) l) = map (\<lambda>i. joins + i < unat (rl_max_joins l)) [0 ..< length ts]"
  using assms
proof (induction ts arbitrary: joins l)
  case (Cons t ts)
  let ?l = "snd (check_join t ip l)"
  have "fst (check_join t ip l) \<longleftrightarrow> joins < unat (rl_max_joins l)" "counted ip t0 (joins + 1) n ?l"
    using check_join_counted [OF Cons.prems(1), of t] Cons.prems(2-4) by auto
  moreover have "rl_windows ?l ip \<noteq> None" "rl_window ?l = rl_window l" "rl_max_joins ?l = rl_max_joins l"
    by (simp_all add: limiter_unfold)
  moreover from calculation
  have "map snd (run_limiter (map (CallJoin ip) ts) ?l) = map (\<lambda>i. joins + 1 + i < unat (rl_max_joins ?l)) [0 ..< length ts]"
    using Cons.prems(3,4) by (intro Cons.IH) auto
  ultimately have "map snd (run_limiter (map (CallJoin ip) (t # ts)) l)
      = (joins < unat (rl_max_joins l)) # map (\<lambda>i. joins + 1 + i < unat (rl_max_joins l)) [0 ..< length ts]"
    by (simp add: case_prod_beta)
  also have "\<dots> = map (\<lambda>i. joins + i < unat (rl_max_joins l)) [0 ..< length (t # ts)]"
    by (simp add: upt_conv_Cons map_Suc_upt [symmetric] comp_def del: upt_Suc)
  finally show ?case .
qed simp

lemma unat_saturating_add: "unat (saturating_add_u64 a b) = min (unat a + unat b) (2 ^ 64 - 1)"
  by (auto simp: saturating_add_u64_def unat_word_ariths unsigned_minus_1_eq_mask mask_eq_exp_minus_1)

lemma unat_below_top: "(w :: u64) \<noteq> - 1 \<Longrightarrow> unat w < 2 ^ 64 - 1"
proof -
  assume "w \<noteq> - 1"
  then have "unat w \<noteq> unat (- 1 :: u64)" by (simp add: word_unat_eq_iff)
  then have "unat w \<noteq> 2 ^ 64 - 1" by (simp add: unsigned_minus_1_eq_mask mask_eq_exp_minus_1)
  moreover have "unat w < 2 ^ 64" using unsigned_less [of w, where ?'a = nat] by simp
  ultimately show ?thesis by simp
qed

lemma add_bytes_counted:
  assumes "counted ip t0 joins n l" and "rl_windows l ip = None \<longrightarrow> now = t0" "t0 \<le> now" "now < t0 + rl_window l"
  shows "fst (add_bytes now ip k l) \<longleftrightarrow> saturating_add_u64 n k \<le> rl_max_bytes l"
    and "counted ip t0 joins (saturating_add_u64 n k) (snd (add_bytes now ip k l))"
  using assms by (auto simp: limiter_unfold counted_def split: option.splits)

lemma run_bytes_counted:
  assumes "counted ip t0 joins n l" and "rl_windows l ip = None \<longrightarrow> (ks = [] \<or> fst (hd ks) = t0)"
    and "\<forall>(t, k) \<in> set ks. t0 \<le> t \<and> t < t0 + rl_window l" and "rl_max_bytes l \<noteq> - 1"
    and "unat n = min sofar (2 ^ 64 - 1)"
  shows "map snd (run_limiter (map (\<lambda>(t, k). CallBytes ip t k) ks) l)
    = map (\<lambda>i. sofar + (\<Sum>(t, k) \<leftarrow> take (Suc i) ks. unat k) \<le> unat (rl_max_bytes l)) [0 ..< length ks]"
  using assms
proof (induction ks arbitrary: n sofar l)
  case (Cons tk ks)
  obtain t k where tk: "tk = (t, k)" by fastforce
  let ?l = "snd (add_bytes t ip k l)" and ?n = "saturating_add_u64 n k"
  have one: "fst (add_bytes t ip k l) \<longleftrightarrow> ?n \<le> rl_max_bytes l" "counted ip t0 joins ?n ?l"
    using add_bytes_counted [OF Cons.prems(1), of t] Cons.prems(2,3) tk by auto
  have st: "rl_windows ?l ip \<noteq> None" "rl_window ?l = rl_window l" "rl_max_bytes ?l = rl_max_bytes l"
    by (simp_all add: limiter_unfold)
  have n: "unat ?n = min (sofar + unat k) (2 ^ 64 - 1)" using Cons.prems(5) by (simp add: unat_saturating_add)
  have top: "unat (rl_max_bytes l) < 2 ^ 64 - 1"
    using Cons.prems(4) by (rule unat_below_top)
  have le: "?n \<le> rl_max_bytes l \<longleftrightarrow> sofar + unat k \<le> unat (rl_max_bytes l)"
    using n top by (simp add: word_le_nat_alt min_def)
  have "map snd (run_limiter (map (\<lambda>(t, k). CallBytes ip t k) ks) ?l)
      = map (\<lambda>i. sofar + unat k + (\<Sum>(t, k) \<leftarrow> take (Suc i) ks. unat k) \<le> unat (rl_max_bytes ?l)) [0 ..< length ks]"
    using Cons.prems(3,4) one st n by (intro Cons.IH [of ?n]) auto
  then have "map snd (run_limiter (map (\<lambda>(t, k). CallBytes ip t k) (tk # ks)) l)
      = (sofar + unat k \<le> unat (rl_max_bytes l))
        # map (\<lambda>i. sofar + unat k + (\<Sum>(t, k) \<leftarrow> take (Suc i) ks. unat k) \<le> unat (rl_max_bytes l)) [0 ..< length ks]"
    using one le st by (simp add: case_prod_beta tk)
  also have "\<dots> = map (\<lambda>i. sofar + (\<Sum>(t, k) \<leftarrow> take (Suc i) (tk # ks). unat k) \<le> unat (rl_max_bytes l)) [0 ..< length (tk # ks)]"
    by (simp add: upt_conv_Cons map_Suc_upt [symmetric] comp_def tk add.assoc del: upt_Suc)
  finally show ?case .
qed simp

section \<open>Properties\<close>



end
