(* ===== verification/Registry.thy ===== *)
theory Registry
  imports Durable Externals
begin

text \<open>
  The room membership registry of crates/server/src/registry.rs: the trait, its in-memory and
  its persistent implementation, and the JSON snapshot.

  A registry holds its rooms as an association list with distinct keys (the \<open>HashMap\<close>); the
  persistent one also holds the contents of \<open>rooms.json\<close>. Each operation takes the step at
  which its durable write fails, if any; the in-memory registry ignores it. An operation returns
  its result and the registry after it. The mutex makes each operation atomic.

  \<open>registry_ops\<close> is the trait as a record of functions; the locale \<open>registry\<close> is its
  contract over an abstract view (members, creation and activation time per room), proved for both
  implementations. The lemmas derived in it: an activated room keeps its members for ever, members
  are always two distinct fingerprints in order, and the room quota is kept.
\<close>

section \<open>Data\<close>

text \<open>The kinds of \<open>io::Error\<close> the relay's stores produce; \<open>IoOs\<close> is an error of the
  operating system.\<close>

datatype io_error = IoInvalidInput string | IoInvalidData string | IoAlreadyExists string
  | IoQuotaExceeded string | IoOther string | IoOs

datatype registry_commit = Created | Existing

definition REGISTRY_MAX_ROOMS :: nat where "REGISTRY_MAX_ROOMS = 100"

type_synonym member_pair = "string \<times> string"

record room_record =
  rr_members :: member_pair
  rr_created_at_ms :: int
  rr_activated_at_ms :: "int option"
  rr_activated_members :: "string set"

type_synonym rooms = "(string \<times> room_record) list"

record disk_room =
  dr_room_id :: string
  dr_members :: "string list"
  dr_created_at_ms :: int
  dr_activated_at_ms :: "int option"

text \<open>\<open>DiskRegistry\<close> has one field, the rows.\<close>

type_synonym disk_registry = "disk_room list"

record persistent_registry =
  pg_rooms :: rooms
  pg_file :: "bytes option"

section \<open>Validation\<close>

definition registry_validate_room_id :: "string \<Rightarrow> io_error + unit" where
  "registry_validate_room_id room =
     (if is_lower_hex 32 room then Inr ()
      else Inl (IoInvalidInput ''room id must be 32 lowercase hex characters''))"

definition validate_members :: "member_pair \<Rightarrow> io_error + member_pair" where
  "validate_members ms =
     (case ms of (a, b) \<Rightarrow>
        if a = b then Inl (IoInvalidInput ''room members must be distinct'')
        else if \<not> is_lower_hex 64 a \<or> \<not> is_lower_hex 64 b
        then Inl (IoInvalidInput ''room members must be 64 lowercase hex fingerprints'')
        else Inr (if a \<le> b then (a, b) else (b, a)))"

definition room_record_new :: "member_pair \<Rightarrow> int \<Rightarrow> io_error + room_record" where
  "room_record_new members created_at_ms =
     and_then (validate_members members) (\<lambda>members.
     Inr \<lparr>rr_members = members, rr_created_at_ms = created_at_ms, rr_activated_at_ms = None,
          rr_activated_members = {}\<rparr>)"

definition members_vec :: "member_pair \<Rightarrow> string list" where
  "members_vec ms = [fst ms, snd ms]"

section \<open>The in-memory registry\<close>

definition lookup_rooms :: "string \<Rightarrow> rooms \<Rightarrow> string list" where
  "lookup_rooms room rooms = (case map_of rooms room of Some rec \<Rightarrow> members_vec (rr_members rec) | None \<Rightarrow> [])"

definition mem_commit_room ::
  "string \<Rightarrow> member_pair \<Rightarrow> int \<Rightarrow> rooms \<Rightarrow> (io_error + registry_commit) \<times> rooms" where
  "mem_commit_room room members created_at_ms rooms =
     (case and_then (registry_validate_room_id room) (\<lambda>_. room_record_new members created_at_ms) of
        Inl e \<Rightarrow> (Inl e, rooms)
      | Inr rec \<Rightarrow>
        (case map_of rooms room of
           Some existing \<Rightarrow>
             ((if rr_members existing = rr_members rec then Inr Existing
               else Inl (IoAlreadyExists ''room id is registered to different members'')), rooms)
         | None \<Rightarrow>
             (if length rooms \<ge> REGISTRY_MAX_ROOMS then (Inl (IoOther ''room registry quota exceeded''), rooms)
              else (Inr Created, AList.update room rec rooms))))"

definition mem_activate_on_first_join ::
  "string \<Rightarrow> string \<Rightarrow> int \<Rightarrow> rooms \<Rightarrow> (io_error + bool) \<times> rooms" where
  "mem_activate_on_first_join room member_fp activated_at_ms rooms =
     (case map_of rooms room of
        None \<Rightarrow> (Inr False, rooms)
      | Some rec \<Rightarrow>
          (if member_fp \<notin> set (members_vec (rr_members rec)) then (Inr False, rooms)
           else let rec = rec\<lparr>rr_activated_members := insert member_fp (rr_activated_members rec)\<rparr> in
             if rr_activated_at_ms rec \<noteq> None then (Inr False, AList.update room rec rooms)
             else (Inr True, AList.update room (rec\<lparr>rr_activated_at_ms := Some activated_at_ms\<rparr>) rooms)))"

definition keeps_room :: "int \<Rightarrow> string \<times> room_record \<Rightarrow> bool" where
  "keeps_room cutoff_ms entry \<longleftrightarrow> rr_activated_at_ms (snd entry) \<noteq> None \<or> rr_created_at_ms (snd entry) \<ge> cutoff_ms"

definition mem_prune_unactivated :: "int \<Rightarrow> rooms \<Rightarrow> (io_error + nat) \<times> rooms" where
  "mem_prune_unactivated cutoff_ms rooms =
     (let next = filter (keeps_room cutoff_ms) rooms in (Inr (length rooms - length next), next))"

text \<open>The test helpers of the in-memory registry.\<close>

definition register_room :: "string \<Rightarrow> string list \<Rightarrow> rooms \<Rightarrow> bool \<times> rooms" where
  "register_room room members rooms =
     (case members of
        [a, b] \<Rightarrow> (case mem_commit_room room (a, b) 0 rooms of (r, rooms') \<Rightarrow> (is_ok r, rooms'))
      | _ \<Rightarrow> (False, rooms))"

definition activated :: "string \<Rightarrow> rooms \<Rightarrow> string set" where
  "activated room rooms = (case map_of rooms room of Some rec \<Rightarrow> rr_activated_members rec | None \<Rightarrow> {})"

section \<open>The persistent registry\<close>

definition from_rooms :: "rooms \<Rightarrow> disk_registry" where
  "from_rooms rooms =
     sort_key dr_room_id (map (\<lambda>(room, rec). \<lparr>dr_room_id = room, dr_members = members_vec (rr_members rec),
        dr_created_at_ms = rr_created_at_ms rec, dr_activated_at_ms = rr_activated_at_ms rec\<rparr>) rooms)"

definition into_record :: "disk_room \<Rightarrow> io_error + string \<times> room_record" where
  "into_record row =
     and_then (registry_validate_room_id (dr_room_id row)) (\<lambda>_.
     (case dr_members row of
        [a, b] \<Rightarrow> and_then (room_record_new (a, b) (dr_created_at_ms row)) (\<lambda>rec.
                 Inr (dr_room_id row, rec\<lparr>rr_activated_at_ms := dr_activated_at_ms row\<rparr>))
      | _ \<Rightarrow> Inl (IoInvalidData ''room must have exactly two members'')))"

fun load_rows :: "disk_registry \<Rightarrow> rooms \<Rightarrow> rooms" where
  "load_rows [] rooms = rooms"
| "load_rows (row # rows) rooms =
     (case into_record row of
        Inl _ \<Rightarrow> load_rows rows rooms
      | Inr (room, rec) \<Rightarrow> load_rows rows (if map_of rooms room = None then AList.update room rec rooms else rooms))"

definition open_registry :: "disk_registry json \<Rightarrow> bool \<Rightarrow> bytes option \<Rightarrow> io_error + persistent_registry" where
  "open_registry J read_fails file =
     (case file of
        None \<Rightarrow> Inr \<lparr>pg_rooms = [], pg_file = None\<rparr>
      | Some bs \<Rightarrow>
          (if read_fails then Inl IoOs
           else case from_json J bs of
             Inl e \<Rightarrow> Inl (IoInvalidData e)
           | Inr disk \<Rightarrow> Inr \<lparr>pg_rooms = load_rows disk [], pg_file = file\<rparr>))"

definition activated_at_ms :: "string \<Rightarrow> persistent_registry \<Rightarrow> int option" where
  "activated_at_ms room r = (case map_of (pg_rooms r) room of Some rec \<Rightarrow> rr_activated_at_ms rec | None \<Rightarrow> None)"

text \<open>\<open>persist\<close> of the next rooms; the temporary file is truncated, so it never blocks the
  write.\<close>

definition registry_persist ::
  "disk_registry json \<Rightarrow> write_step option \<Rightarrow> rooms \<Rightarrow> bytes option \<Rightarrow> (io_error + unit) \<times> bytes option" where
  "registry_persist J fault rooms file =
     (case to_json J (from_rooms rooms) of
        Inl e \<Rightarrow> (Inl (IoOther e), file)
      | Inr encoded \<Rightarrow>
          (let w = write_outcome_of relay_style fault False in
           (if write_ok w then Inr () else Inl IoOs, after_write w file (Some encoded))))"

text \<open>Persist the next rooms and only then replace the rooms in memory.\<close>

definition persist_next ::
  "disk_registry json \<Rightarrow> write_step option \<Rightarrow> rooms \<Rightarrow> 'a \<Rightarrow> persistent_registry
   \<Rightarrow> (io_error + 'a) \<times> persistent_registry" where
  "persist_next J fault next a r =
     (case registry_persist J fault next (pg_file r) of
        (Inl e, file) \<Rightarrow> (Inl e, r\<lparr>pg_file := file\<rparr>)
      | (Inr _, file) \<Rightarrow> (Inr a, r\<lparr>pg_rooms := next, pg_file := file\<rparr>))"

definition pers_commit_room ::
  "disk_registry json \<Rightarrow> write_step option \<Rightarrow> string \<Rightarrow> member_pair \<Rightarrow> int \<Rightarrow> persistent_registry
   \<Rightarrow> (io_error + registry_commit) \<times> persistent_registry" where
  "pers_commit_room J fault room members created_at_ms r =
     (case and_then (registry_validate_room_id room) (\<lambda>_. room_record_new members created_at_ms) of
        Inl e \<Rightarrow> (Inl e, r)
      | Inr rec \<Rightarrow>
        (case map_of (pg_rooms r) room of
           Some existing \<Rightarrow>
             ((if rr_members existing = rr_members rec then Inr Existing
               else Inl (IoAlreadyExists ''room id is registered to different members'')), r)
         | None \<Rightarrow>
             (if length (pg_rooms r) \<ge> REGISTRY_MAX_ROOMS then (Inl (IoOther ''room registry quota exceeded''), r)
              else persist_next J fault (AList.update room rec (pg_rooms r)) Created r)))"

definition pers_activate_on_first_join ::
  "disk_registry json \<Rightarrow> write_step option \<Rightarrow> string \<Rightarrow> string \<Rightarrow> int \<Rightarrow> persistent_registry
   \<Rightarrow> (io_error + bool) \<times> persistent_registry" where
  "pers_activate_on_first_join J fault room member_fp at_ms r =
     (case map_of (pg_rooms r) room of
        None \<Rightarrow> (Inr False, r)
      | Some current \<Rightarrow>
          (if rr_activated_at_ms current \<noteq> None \<or> member_fp \<notin> set (members_vec (rr_members current))
           then (Inr False, r)
           else persist_next J fault (AList.update room (current\<lparr>rr_activated_at_ms := Some at_ms,
                  rr_activated_members := insert member_fp (rr_activated_members current)\<rparr>) (pg_rooms r)) True r))"

definition pers_prune_unactivated ::
  "disk_registry json \<Rightarrow> write_step option \<Rightarrow> int \<Rightarrow> persistent_registry
   \<Rightarrow> (io_error + nat) \<times> persistent_registry" where
  "pers_prune_unactivated J fault cutoff_ms r =
     (let next = filter (keeps_room cutoff_ms) (pg_rooms r); removed = length (pg_rooms r) - length next in
      if removed \<noteq> 0 then persist_next J fault next removed r else (Inr removed, r))"

section \<open>The trait\<close>

record 'r registry_ops =
  lookup_members :: "string \<Rightarrow> 'r \<Rightarrow> string list"
  commit_room :: "write_step option \<Rightarrow> string \<Rightarrow> member_pair \<Rightarrow> int \<Rightarrow> 'r \<Rightarrow> (io_error + registry_commit) \<times> 'r"
  activate_on_first_join :: "write_step option \<Rightarrow> string \<Rightarrow> string \<Rightarrow> int \<Rightarrow> 'r \<Rightarrow> (io_error + bool) \<times> 'r"
  prune_unactivated :: "write_step option \<Rightarrow> int \<Rightarrow> 'r \<Rightarrow> (io_error + nat) \<times> 'r"

definition in_memory_ops :: "rooms registry_ops" where
  "in_memory_ops = \<lparr>lookup_members = lookup_rooms, commit_room = (\<lambda>_. mem_commit_room),
     activate_on_first_join = (\<lambda>_. mem_activate_on_first_join), prune_unactivated = (\<lambda>_. mem_prune_unactivated)\<rparr>"

definition persistent_ops :: "disk_registry json \<Rightarrow> persistent_registry registry_ops" where
  "persistent_ops J = \<lparr>lookup_members = (\<lambda>room r. lookup_rooms room (pg_rooms r)),
     commit_room = pers_commit_room J, activate_on_first_join = pers_activate_on_first_join J,
     prune_unactivated = pers_prune_unactivated J\<rparr>"

text \<open>One turn of the periodic sweeper and of the command-line prune: the cutoff lies one
  time-to-live before now.\<close>

definition sweep_unactivated :: "'r registry_ops \<Rightarrow> write_step option \<Rightarrow> int \<Rightarrow> int \<Rightarrow> 'r \<Rightarrow> (io_error + nat) \<times> 'r" where
  "sweep_unactivated R fault now_ms ttl_ms r = prune_unactivated R fault (saturating_sub now_ms ttl_ms) r"

section \<open>The contract\<close>

text \<open>What clients may rely on: an abstract view of the rooms, its well-formedness, and how each
  operation changes it.\<close>

type_synonym registry_view = "string \<rightharpoonup> member_pair \<times> int \<times> int option"

definition ordered_members :: "member_pair \<Rightarrow> bool" where
  "ordered_members ms \<longleftrightarrow> fst ms < snd ms \<and> is_lower_hex 64 (fst ms) \<and> is_lower_hex 64 (snd ms)"

definition view_ok :: "registry_view \<Rightarrow> bool" where
  "view_ok v \<longleftrightarrow> finite (dom v) \<and> (\<forall>room ms t a. v room = Some (ms, t, a) \<longrightarrow> is_lower_hex 32 room \<and> ordered_members ms)"

definition sorted_pair :: "member_pair \<Rightarrow> member_pair" where
  "sorted_pair ms = (min (fst ms) (snd ms), max (fst ms) (snd ms))"

text \<open>Any sequence of operations, with any write failing.\<close>

inductive registry_steps :: "'r registry_ops \<Rightarrow> 'r \<Rightarrow> 'r \<Rightarrow> bool" for R :: "'r registry_ops" where
  steps_refl: "registry_steps R r r"
| steps_commit: "registry_steps R r s \<Longrightarrow> commit_room R fault room ms t s = (res, s') \<Longrightarrow> registry_steps R r s'"
| steps_activate: "registry_steps R r s \<Longrightarrow> activate_on_first_join R fault room fp t s = (changed, s')
    \<Longrightarrow> registry_steps R r s'"
| steps_prune: "registry_steps R r s \<Longrightarrow> prune_unactivated R fault cutoff s = (removed, s') \<Longrightarrow> registry_steps R r s'"

text \<open>How each operation changes the view, by its result.\<close>

definition commit_effect ::
  "string \<Rightarrow> member_pair \<Rightarrow> int \<Rightarrow> registry_view \<Rightarrow> io_error + registry_commit \<Rightarrow> registry_view \<Rightarrow> bool" where
  "commit_effect room ms t v res v' \<longleftrightarrow> (case res of
      Inr Created \<Rightarrow> v room = None \<and> card (dom v) < REGISTRY_MAX_ROOMS \<and> v' = v(room \<mapsto> (sorted_pair ms, t, None))
    | Inr Existing \<Rightarrow> v' = v \<and> map_option fst (v room) = Some (sorted_pair ms)
    | Inl _ \<Rightarrow> v' = v)"

definition activate_effect ::
  "string \<Rightarrow> string \<Rightarrow> int \<Rightarrow> registry_view \<Rightarrow> io_error + bool \<Rightarrow> registry_view \<Rightarrow> bool" where
  "activate_effect room fp t v res v' \<longleftrightarrow> (case res of
      Inr True \<Rightarrow> (case v room of Some (ms, s, None) \<Rightarrow> fp \<in> set (members_vec ms) \<and> v' = v(room \<mapsto> (ms, s, Some t)) | _ \<Rightarrow> False)
    | Inr False \<Rightarrow> v' = v \<and> (case v room of Some (ms, s, None) \<Rightarrow> fp \<notin> set (members_vec ms) | _ \<Rightarrow> True)
    | Inl _ \<Rightarrow> v' = v)"

definition prune_effect :: "int \<Rightarrow> registry_view \<Rightarrow> io_error + nat \<Rightarrow> registry_view \<Rightarrow> bool" where
  "prune_effect cutoff v res v' \<longleftrightarrow> (case res of
      Inr n \<Rightarrow> v' = (\<lambda>room. case v room of
          Some (ms, s, a) \<Rightarrow> if a \<noteq> None \<or> s \<ge> cutoff then Some (ms, s, a) else None | None \<Rightarrow> None)
        \<and> n = card (dom v) - card (dom v')
    | Inl _ \<Rightarrow> v' = v)"

lemma commit_effect_cases:
  assumes "commit_effect room ms t v res v'"
  obtains (same) "v' = v" | (created) "v room = None" "card (dom v) < REGISTRY_MAX_ROOMS"
      "v' = v(room \<mapsto> (sorted_pair ms, t, None))"
  using assms by (auto simp: commit_effect_def split: sum.splits registry_commit.splits)

lemma activate_effect_cases:
  assumes "activate_effect room fp t v res v'"
  obtains (same) "v' = v" | (activated) ms s where "v room = Some (ms, s, None)" "v' = v(room \<mapsto> (ms, s, Some t))"
  using assms by (auto simp: activate_effect_def split: sum.splits bool.splits option.splits prod.splits)

lemma prune_effect_cases:
  assumes "prune_effect cutoff v res v'"
  obtains (same) "v' = v" | (pruned) "v' = (\<lambda>room. case v room of
          Some (ms, s, a) \<Rightarrow> if a \<noteq> None \<or> s \<ge> cutoff then Some (ms, s, a) else None | None \<Rightarrow> None)"
  using assms by (auto simp: prune_effect_def split: sum.splits)

locale registry =
  fixes R :: "'r registry_ops" and inv :: "'r \<Rightarrow> bool" and view :: "'r \<Rightarrow> registry_view"
  assumes view_ok: "inv r \<Longrightarrow> view_ok (view r)"
    and lookup_view: "inv r \<Longrightarrow> lookup_members R room r
      = (case view r room of Some (ms, _) \<Rightarrow> members_vec ms | None \<Rightarrow> [])"
    and commit_view: "inv r \<Longrightarrow> commit_room R fault room ms t r = (res, r')
      \<Longrightarrow> inv r' \<and> commit_effect room ms t (view r) res (view r')"
    and activate_view: "inv r \<Longrightarrow> activate_on_first_join R fault room fp t r = (changed, r')
      \<Longrightarrow> inv r' \<and> activate_effect room fp t (view r) changed (view r')"
    and prune_view: "inv r \<Longrightarrow> prune_unactivated R fault cutoff r = (removed, r')
      \<Longrightarrow> inv r' \<and> prune_effect cutoff (view r) removed (view r')"
begin

lemma lookup_shape:
  assumes "inv r" "lookup_members R room r \<noteq> []"
  shows "\<exists>a b. lookup_members R room r = [a, b] \<and> a < b \<and> is_lower_hex 64 a \<and> is_lower_hex 64 b"
  using lookup_view [OF assms(1)] view_ok [OF assms(1)] assms(2)
  by (auto simp: view_ok_def ordered_members_def members_vec_def split: option.splits prod.splits)

lemma commit_lookup:
  assumes "inv r" "commit_room R fault room ms t r = (Inr c, r')"
  shows "lookup_members R room r' = members_vec (sorted_pair ms)"
  using commit_view [OF assms] lookup_view [of r' room]
  by (cases c) (auto simp: commit_effect_def split: option.splits)

lemma activate_activates:
  assumes "inv r" "activate_on_first_join R fault room fp t r = (Inr b, r')" "fp \<in> set (lookup_members R room r)"
  shows "(\<exists>ms s a. view r' room = Some (ms, s, Some a)) \<and> lookup_members R room r' = lookup_members R room r"
  using activate_view [OF assms(1,2)] lookup_view [OF assms(1), of room] lookup_view [of r' room] assms(3)
  by (cases b) (auto simp: activate_effect_def split: option.splits)

lemma step_keeps_activated:
  assumes "inv r" "view r room = Some (ms, s, Some a)"
  shows "commit_room R fault room' ms' t r = (res, r') \<Longrightarrow> view r' room = Some (ms, s, Some a)"
    and "activate_on_first_join R fault room' fp t r = (changed, r') \<Longrightarrow> view r' room = Some (ms, s, Some a)"
    and "prune_unactivated R fault cutoff r = (removed, r') \<Longrightarrow> view r' room = Some (ms, s, Some a)"
proof -
  assume "commit_room R fault room' ms' t r = (res, r')"
  then have "commit_effect room' ms' t (view r) res (view r')" using commit_view [OF assms(1)] by blast
  then show "view r' room = Some (ms, s, Some a)" using assms(2) by (cases rule: commit_effect_cases) auto
next
  assume "activate_on_first_join R fault room' fp t r = (changed, r')"
  then have "activate_effect room' fp t (view r) changed (view r')" using activate_view [OF assms(1)] by blast
  then show "view r' room = Some (ms, s, Some a)" using assms(2) by (cases rule: activate_effect_cases) auto
next
  assume "prune_unactivated R fault cutoff r = (removed, r')"
  then have "prune_effect cutoff (view r) removed (view r')" using prune_view [OF assms(1)] by blast
  then show "view r' room = Some (ms, s, Some a)" using assms(2) by (cases rule: prune_effect_cases) auto
qed

lemma steps_inv: "registry_steps R r r' \<Longrightarrow> inv r \<Longrightarrow> inv r'"
  by (induction rule: registry_steps.induct) (blast dest: commit_view activate_view prune_view)+

lemma activated_kept:
  assumes "registry_steps R r r'" "inv r" "view r room = Some (ms, s, Some a)"
  shows "view r' room = Some (ms, s, Some a)"
  using assms by (induction rule: registry_steps.induct) (blast intro: step_keeps_activated steps_inv)+

lemma step_bounded:
  assumes "inv r" "card (dom (view r)) \<le> REGISTRY_MAX_ROOMS"
  shows "commit_room R fault room ms t r = (res, r') \<Longrightarrow> card (dom (view r')) \<le> REGISTRY_MAX_ROOMS"
    and "activate_on_first_join R fault room fp t r = (changed, r') \<Longrightarrow> card (dom (view r')) \<le> REGISTRY_MAX_ROOMS"
    and "prune_unactivated R fault cutoff r = (removed, r') \<Longrightarrow> card (dom (view r')) \<le> REGISTRY_MAX_ROOMS"
proof -
  have fin: "finite (dom (view r))" using view_ok [OF assms(1)] by (simp add: view_ok_def)
  assume "commit_room R fault room ms t r = (res, r')"
  then have "commit_effect room ms t (view r) res (view r')" using commit_view [OF assms(1)] by blast
  then show "card (dom (view r')) \<le> REGISTRY_MAX_ROOMS" using assms(2) fin
    by (cases rule: commit_effect_cases) (auto simp: card_insert_if)
next
  assume "activate_on_first_join R fault room fp t r = (changed, r')"
  then have "activate_effect room fp t (view r) changed (view r')" using activate_view [OF assms(1)] by blast
  then show "card (dom (view r')) \<le> REGISTRY_MAX_ROOMS"
  proof (cases rule: activate_effect_cases)
    case (activated ms s)
    then have "dom (view r') = dom (view r)" by (simp add: insert_absorb domI)
    then show ?thesis using assms(2) by simp
  qed (use assms(2) in simp)
next
  have fin: "finite (dom (view r))" using view_ok [OF assms(1)] by (simp add: view_ok_def)
  assume "prune_unactivated R fault cutoff r = (removed, r')"
  then have "prune_effect cutoff (view r) removed (view r')" using prune_view [OF assms(1)] by blast
  then have "dom (view r') \<subseteq> dom (view r)"
    by (cases rule: prune_effect_cases) (auto split: option.splits)
  then show "card (dom (view r')) \<le> REGISTRY_MAX_ROOMS" using card_mono [OF fin] assms(2) by (meson order.trans)
qed

lemma rooms_bounded:
  assumes "registry_steps R r r'" "inv r" "card (dom (view r)) \<le> REGISTRY_MAX_ROOMS"
  shows "card (dom (view r')) \<le> REGISTRY_MAX_ROOMS"
  using assms by (induction rule: registry_steps.induct) (blast intro: step_bounded steps_inv)+

end

subsection \<open>Both implementations keep the contract\<close>

definition rooms_ok :: "rooms \<Rightarrow> bool" where
  "rooms_ok rooms \<longleftrightarrow> distinct (map fst rooms)
     \<and> (\<forall>(room, rec) \<in> set rooms. is_lower_hex 32 room \<and> ordered_members (rr_members rec))"

definition rooms_view :: "rooms \<Rightarrow> registry_view" where
  "rooms_view rooms room =
     map_option (\<lambda>rec. (rr_members rec, rr_created_at_ms rec, rr_activated_at_ms rec)) (map_of rooms room)"

lemma validate_members_Inr:
  assumes "validate_members ms = Inr ms'"
  shows "ms' = sorted_pair ms" "ordered_members ms'"
  using assms by (auto simp: validate_members_def sorted_pair_def ordered_members_def min_def max_def split: prod.splits if_splits)

lemma room_record_new_Inr:
  assumes "room_record_new ms t = Inr rec"
  shows "rr_members rec = sorted_pair ms" "ordered_members (rr_members rec)" "rr_created_at_ms rec = t"
    "rr_activated_at_ms rec = None"
proof -
  from assms obtain ms' where v: "validate_members ms = Inr ms'"
    and r: "rec = \<lparr>rr_members = ms', rr_created_at_ms = t, rr_activated_at_ms = None, rr_activated_members = {}\<rparr>"
    by (auto simp: room_record_new_def and_then_eq_Inr)
  show "rr_members rec = sorted_pair ms" "ordered_members (rr_members rec)" "rr_created_at_ms rec = t"
    "rr_activated_at_ms rec = None"
    using validate_members_Inr [OF v] r by simp_all
qed

lemma validate_room_id_Inr: "registry_validate_room_id room = Inr u \<longleftrightarrow> is_lower_hex 32 room"
  by (simp add: registry_validate_room_id_def)

lemma rooms_ok_update:
  assumes "rooms_ok rooms" "is_lower_hex 32 room" "ordered_members (rr_members rec)"
  shows "rooms_ok (AList.update room rec rooms)"
proof -
  have "set (AList.update room rec rooms) \<subseteq> insert (room, rec) (set rooms)" by (induction rooms) auto
  then show ?thesis using assms unfolding rooms_ok_def by (auto simp: distinct_update)
qed

lemma rooms_ok_lookup:
  assumes "rooms_ok rooms" "map_of rooms room = Some rec"
  shows "is_lower_hex 32 room" "ordered_members (rr_members rec)"
  using assms map_of_SomeD [OF assms(2)] by (auto simp: rooms_ok_def)

lemma rooms_view_update: "rooms_view (AList.update room rec rooms)
    = (rooms_view rooms)(room \<mapsto> (rr_members rec, rr_created_at_ms rec, rr_activated_at_ms rec))"
  by (rule ext) (simp add: rooms_view_def map_of_update)

lemma dom_rooms_view: "dom (rooms_view rooms) = fst ` set rooms"
  by (auto simp: rooms_view_def dom_map_of_conv_image_fst [symmetric])

lemma card_rooms_view: "rooms_ok rooms \<Longrightarrow> card (dom (rooms_view rooms)) = length rooms"
  unfolding dom_rooms_view by (metis distinct_card length_map list.set_map rooms_ok_def)

lemma rooms_view_ok: "rooms_ok rooms \<Longrightarrow> view_ok (rooms_view rooms)"
  unfolding view_ok_def dom_rooms_view rooms_view_def
  by (auto dest: rooms_ok_lookup split: option.splits)

lemma rooms_view_lookup:
  "lookup_rooms room rooms = (case rooms_view rooms room of Some (ms, _) \<Rightarrow> members_vec ms | None \<Rightarrow> [])"
  by (simp add: lookup_rooms_def rooms_view_def split: option.split)

lemma rooms_view_empty [simp]: "rooms_view [] = Map.empty"
  by (simp add: rooms_view_def fun_eq_iff)

lemma rooms_ok_filter: "rooms_ok rooms \<Longrightarrow> rooms_ok (filter P rooms)"
  by (auto simp: rooms_ok_def distinct_fst_filter)

lemma rooms_view_prune:
  assumes "rooms_ok rooms"
  shows "rooms_view (filter (keeps_room cutoff) rooms) room = (case rooms_view rooms room of
      Some (ms, s, a) \<Rightarrow> if a \<noteq> None \<or> s \<ge> cutoff then Some (ms, s, a) else None | None \<Rightarrow> None)"
  using assms by (simp add: rooms_view_def map_of_filter rooms_ok_def keeps_room_def split: option.split)

lemma mem_commit_view:
  assumes ok: "rooms_ok r" and run: "mem_commit_room room ms t r = (res, r')"
  shows "rooms_ok r' \<and> commit_effect room ms t (rooms_view r) res (rooms_view r')"
proof (cases "and_then (registry_validate_room_id room) (\<lambda>_. room_record_new ms t)")
  case (Inl e)
  with ok run show ?thesis by (auto simp: mem_commit_room_def commit_effect_def)
next
  case (Inr rec)
  then have hex: "is_lower_hex 32 room" and new: "room_record_new ms t = Inr rec"
    by (auto simp: and_then_eq_Inr validate_room_id_Inr)
  note v = room_record_new_Inr [OF new]
  note run = run [unfolded mem_commit_room_def Inr sum.case]
  show ?thesis
  proof (cases "map_of r room")
    case None
    then have look: "rooms_view r room = None" by (simp add: rooms_view_def)
    show ?thesis
      using run None look ok v card_rooms_view [OF ok] rooms_ok_update [OF ok hex v(2)]
      by (cases "length r \<ge> REGISTRY_MAX_ROOMS") (auto simp: commit_effect_def rooms_view_update)
  next
    case (Some existing)
    then have "rooms_view r room = Some (rr_members existing, rr_created_at_ms existing, rr_activated_at_ms existing)"
      by (simp add: rooms_view_def)
    then show ?thesis using run Some ok v(1)
      by (cases "rr_members existing = rr_members rec") (auto simp: commit_effect_def)
  qed
qed

lemma mem_activate_view:
  assumes ok: "rooms_ok r" and run: "mem_activate_on_first_join room fp t r = (res, r')"
  shows "rooms_ok r' \<and> activate_effect room fp t (rooms_view r) res (rooms_view r')"
proof (cases "map_of r room")
  case (Some rec)
  have same: "rooms_view (AList.update room (rec\<lparr>rr_activated_members := A\<rparr>) r) = rooms_view r" for A
    using Some by (auto simp: rooms_view_update rooms_view_def)
  have look: "rooms_view r room = Some (rr_members rec, rr_created_at_ms rec, rr_activated_at_ms rec)"
    using Some by (simp add: rooms_view_def)
  have upd: "rooms_ok (AList.update room (rec\<lparr>rr_activated_members := A, rr_activated_at_ms := a\<rparr>) r)" for A a
    using rooms_ok_update [OF ok] rooms_ok_lookup [OF ok Some] by simp
  show ?thesis
  proof (cases "fp \<in> set (members_vec (rr_members rec)) \<and> rr_activated_at_ms rec = None")
    case True
    then show ?thesis using run Some upd look
      by (auto simp: mem_activate_on_first_join_def activate_effect_def rooms_view_update Let_def simp del: fun_upd_apply)
  next
    case False
    then have "res = Inr False" "rooms_view r' = rooms_view r" "rooms_ok r'"
      using run Some same upd [where a = "rr_activated_at_ms rec"] ok
      by (auto simp: mem_activate_on_first_join_def Let_def split: if_splits)
    then show ?thesis using False look by (auto simp: activate_effect_def split: option.splits)
  qed
qed (use assms in \<open>auto simp: mem_activate_on_first_join_def activate_effect_def rooms_view_def\<close>)

lemma mem_prune_view:
  assumes ok: "rooms_ok r" and run: "mem_prune_unactivated cutoff r = (res, r')"
  shows "rooms_ok r' \<and> prune_effect cutoff (rooms_view r) res (rooms_view r')"
proof -
  have r': "r' = filter (keeps_room cutoff) r" "res = Inr (length r - length r')"
    using run by (auto simp: mem_prune_unactivated_def Let_def)
  have "rooms_ok r'" using ok r' by (simp add: rooms_ok_filter)
  then show ?thesis using rooms_view_prune [OF ok, of cutoff] card_rooms_view [OF ok] card_rooms_view [of r'] r'
    by (simp add: prune_effect_def fun_eq_iff)
qed

interpretation mem: registry in_memory_ops rooms_ok rooms_view
proof
  fix r room assume ok: "rooms_ok r"
  show "view_ok (rooms_view r)" using ok by (rule rooms_view_ok)
  show "lookup_members in_memory_ops room r = (case rooms_view r room of Some (ms, _) \<Rightarrow> members_vec ms | None \<Rightarrow> [])"
    by (simp add: in_memory_ops_def rooms_view_lookup)
next
  fix r fault room ms t res r' assume "rooms_ok r" "commit_room in_memory_ops fault room ms t r = (res, r')"
  then show "rooms_ok r' \<and> commit_effect room ms t (rooms_view r) res (rooms_view r')"
    by (intro mem_commit_view) (simp_all add: in_memory_ops_def)
next
  fix r fault room fp t changed r'
  assume "rooms_ok r" "activate_on_first_join in_memory_ops fault room fp t r = (changed, r')"
  then show "rooms_ok r' \<and> activate_effect room fp t (rooms_view r) changed (rooms_view r')"
    by (intro mem_activate_view) (simp_all add: in_memory_ops_def)
next
  fix r fault cutoff removed r' assume "rooms_ok r" "prune_unactivated in_memory_ops fault cutoff r = (removed, r')"
  then show "rooms_ok r' \<and> prune_effect cutoff (rooms_view r) removed (rooms_view r')"
    by (intro mem_prune_view) (simp_all add: in_memory_ops_def)
qed

text \<open>The persistent registry behaves like the in-memory one, or fails and leaves its rooms.\<close>

lemma persist_next_cases:
  assumes "persist_next J fault next a r = (res, r')"
  shows "(\<exists>e. res = Inl e \<and> pg_rooms r' = pg_rooms r) \<or> (res = Inr a \<and> pg_rooms r' = next)"
  using assms by (auto simp: persist_next_def split: prod.splits sum.splits)

lemma pers_commit_sim:
  assumes "pers_commit_room J fault room ms t r = (res, r')"
  shows "(\<exists>e. res = Inl e \<and> pg_rooms r' = pg_rooms r) \<or> mem_commit_room room ms t (pg_rooms r) = (res, pg_rooms r')"
  using assms persist_next_cases
  by (fastforce simp: pers_commit_room_def mem_commit_room_def split: sum.splits option.splits if_splits)

lemma pers_activate_sim:
  assumes "rooms_ok (pg_rooms r)" "pers_activate_on_first_join J fault room fp t r = (res, r')"
  shows "(\<exists>e. res = Inl e \<and> pg_rooms r' = pg_rooms r)
    \<or> (\<exists>m. mem_activate_on_first_join room fp t (pg_rooms r) = (res, m) \<and> rooms_view m = rooms_view (pg_rooms r')
          \<and> (m = pg_rooms r' \<or> pg_rooms r' = pg_rooms r))"
proof (cases "map_of (pg_rooms r) room")
  case (Some rec)
  have same: "rooms_view (AList.update room (rec\<lparr>rr_activated_members := A\<rparr>) (pg_rooms r)) = rooms_view (pg_rooms r)" for A
    using Some by (auto simp: rooms_view_update rooms_view_def)
  show ?thesis
  proof (cases "rr_activated_at_ms rec \<noteq> None \<or> fp \<notin> set (members_vec (rr_members rec))")
    case True
    then show ?thesis using assms(2) Some same
      by (auto simp: pers_activate_on_first_join_def mem_activate_on_first_join_def Let_def)
  next
    case False
    let ?next = "AList.update room (rec\<lparr>rr_activated_at_ms := Some t,
        rr_activated_members := insert fp (rr_activated_members rec)\<rparr>) (pg_rooms r)"
    have "mem_activate_on_first_join room fp t (pg_rooms r) = (Inr True, ?next)"
      using False Some by (cases rec) (simp add: mem_activate_on_first_join_def Let_def)
    moreover have "persist_next J fault ?next True r = (res, r')"
      using False assms(2) Some by (simp add: pers_activate_on_first_join_def)
    ultimately show ?thesis using persist_next_cases [of J fault ?next True r res r'] by auto
  qed
qed (use assms in \<open>auto simp: pers_activate_on_first_join_def mem_activate_on_first_join_def\<close>)

lemma pers_prune_sim:
  assumes "pers_prune_unactivated J fault cutoff r = (res, r')"
  shows "(\<exists>e. res = Inl e \<and> pg_rooms r' = pg_rooms r) \<or> mem_prune_unactivated cutoff (pg_rooms r) = (res, pg_rooms r')"
proof (cases "length (pg_rooms r) - length (filter (keeps_room cutoff) (pg_rooms r)) = 0")
  case True
  then have "length (filter (keeps_room cutoff) (pg_rooms r)) = length (pg_rooms r)"
    by (simp add: le_antisym)
  then have "filter (keeps_room cutoff) (pg_rooms r) = pg_rooms r" by (metis filter_True length_filter_less less_irrefl)
  then show ?thesis using assms by (auto simp: pers_prune_unactivated_def mem_prune_unactivated_def Let_def)
next
  case False
  then have "persist_next J fault (filter (keeps_room cutoff) (pg_rooms r))
      (length (pg_rooms r) - length (filter (keeps_room cutoff) (pg_rooms r))) r = (res, r')"
    using assms by (simp add: pers_prune_unactivated_def Let_def)
  from persist_next_cases [OF this] show ?thesis by (auto simp: mem_prune_unactivated_def Let_def)
qed

lemma effects_refl:
  "commit_effect room ms t v (Inl e) v" "activate_effect room fp t v (Inl e) v" "prune_effect cutoff v (Inl e) v"
  by (simp_all add: commit_effect_def activate_effect_def prune_effect_def)

interpretation pers: registry "persistent_ops J" "\<lambda>r. rooms_ok (pg_rooms r)" "\<lambda>r. rooms_view (pg_rooms r)" for J
proof
  fix r :: persistent_registry and room assume ok: "rooms_ok (pg_rooms r)"
  show "view_ok (rooms_view (pg_rooms r))" using ok by (rule rooms_view_ok)
  show "lookup_members (persistent_ops J) room r
      = (case rooms_view (pg_rooms r) room of Some (ms, _) \<Rightarrow> members_vec ms | None \<Rightarrow> [])"
    by (simp add: persistent_ops_def rooms_view_lookup)
next
  fix r fault room ms t res r'
  assume ok: "rooms_ok (pg_rooms r)" and "commit_room (persistent_ops J) fault room ms t r = (res, r')"
  then have "pers_commit_room J fault room ms t r = (res, r')" by (simp add: persistent_ops_def)
  from pers_commit_sim [OF this]
  show "rooms_ok (pg_rooms r') \<and> commit_effect room ms t (rooms_view (pg_rooms r)) res (rooms_view (pg_rooms r'))"
    using ok mem_commit_view [OF ok] effects_refl(1) by metis
next
  fix r fault room fp t changed r'
  assume ok: "rooms_ok (pg_rooms r)" and "activate_on_first_join (persistent_ops J) fault room fp t r = (changed, r')"
  then have "pers_activate_on_first_join J fault room fp t r = (changed, r')" by (simp add: persistent_ops_def)
  from pers_activate_sim [OF ok this]
  show "rooms_ok (pg_rooms r') \<and> activate_effect room fp t (rooms_view (pg_rooms r)) changed (rooms_view (pg_rooms r'))"
    using ok mem_activate_view [OF ok] effects_refl(2) by metis
next
  fix r fault cutoff removed r'
  assume ok: "rooms_ok (pg_rooms r)" and "prune_unactivated (persistent_ops J) fault cutoff r = (removed, r')"
  then have "pers_prune_unactivated J fault cutoff r = (removed, r')" by (simp add: persistent_ops_def)
  from pers_prune_sim [OF this]
  show "rooms_ok (pg_rooms r') \<and> prune_effect cutoff (rooms_view (pg_rooms r)) removed (rooms_view (pg_rooms r'))"
    using ok mem_prune_view [OF ok] effects_refl(3) by metis
qed

section \<open>Restart\<close>

lemma insort_key_map: "insort_key f (g x) (map g xs) = map g (insort_key (f \<circ> g) x xs)"
  by (induction xs) auto

lemma sort_key_map: "sort_key f (map g xs) = map g (sort_key (f \<circ> g) xs)"
  by (induction xs) (simp_all add: insort_key_map comp_def)

definition disk_row :: "string \<times> room_record \<Rightarrow> disk_room" where
  "disk_row p = \<lparr>dr_room_id = fst p, dr_members = members_vec (rr_members (snd p)),
     dr_created_at_ms = rr_created_at_ms (snd p), dr_activated_at_ms = rr_activated_at_ms (snd p)\<rparr>"

lemma from_rooms_eq: "from_rooms rooms = map disk_row (sort_key fst rooms)"
proof -
  have "(\<lambda>(room, rec). \<lparr>dr_room_id = room, dr_members = members_vec (rr_members rec),
        dr_created_at_ms = rr_created_at_ms rec, dr_activated_at_ms = rr_activated_at_ms rec\<rparr>) = disk_row"
    by (auto simp: disk_row_def fun_eq_iff)
  moreover have "dr_room_id \<circ> disk_row = fst" by (auto simp: disk_row_def fun_eq_iff)
  ultimately show ?thesis by (simp add: from_rooms_def sort_key_map)
qed

lemma rooms_ok_sort: "rooms_ok rooms \<Longrightarrow> rooms_ok (sort_key fst rooms)"
  by (auto simp: rooms_ok_def distinct_map)

lemma rooms_view_sort:
  assumes "rooms_ok rooms" shows "rooms_view (sort_key fst rooms) = rooms_view rooms"
proof -
  have "map_of (sort_key fst rooms) = map_of rooms"
    using rooms_ok_sort [OF assms] assms by (subst map_of_inject_set) (simp_all add: rooms_ok_def)
  then show ?thesis by (simp add: rooms_view_def fun_eq_iff)
qed

lemma into_record_disk_row:
  assumes "is_lower_hex 32 room" "ordered_members (rr_members rec)"
  shows "into_record (disk_row (room, rec)) = Inr (room, rec\<lparr>rr_activated_members := {}\<rparr>)"
proof -
  obtain a b where ms: "rr_members rec = (a, b)" by fastforce
  have "validate_members (a, b) = Inr (a, b)"
    using assms(2) ms by (auto simp: validate_members_def ordered_members_def)
  then show ?thesis using assms(1) ms
    by (cases rec) (simp add: into_record_def disk_row_def members_vec_def room_record_new_def registry_validate_room_id_def)
qed

lemma load_rows_view:
  assumes "rooms_ok rooms" "rooms_ok acc" "fst ` set rooms \<inter> fst ` set acc = {}"
  shows "rooms_ok (load_rows (map disk_row rooms) acc)
    \<and> rooms_view (load_rows (map disk_row rooms) acc) = rooms_view acc ++ rooms_view rooms"
  using assms
proof (induction rooms arbitrary: acc)
  case Nil
  then show ?case by (simp add: rooms_view_def map_add_def)
next
  case (Cons p rooms)
  obtain room rec where p: "p = (room, rec)" by fastforce
  let ?rec = "rec\<lparr>rr_activated_members := {}\<rparr>"
  have hex: "is_lower_hex 32 room" "ordered_members (rr_members rec)" and ok: "rooms_ok rooms"
    and fresh: "room \<notin> fst ` set rooms" "map_of acc room = None"
    using Cons.prems p by (auto simp: rooms_ok_def map_of_eq_None_iff)
  have acc: "rooms_ok (AList.update room ?rec acc)" using Cons.prems(2) hex by (intro rooms_ok_update) simp_all
  have dis: "fst ` set rooms \<inter> fst ` set (AList.update room ?rec acc) = {}"
    using Cons.prems(3) fresh p by (auto simp: dom_map_of_conv_image_fst [symmetric] map_of_update)
  have "rooms_view (AList.update room ?rec acc) ++ rooms_view rooms = rooms_view acc ++ rooms_view (p # rooms)"
    using fresh(1) [folded map_of_eq_None_iff] p
    by (auto simp: rooms_view_update rooms_view_def map_add_def fun_eq_iff split: option.split)
  then show ?case using Cons.IH [OF ok acc dis] fresh(2) p into_record_disk_row [OF hex] by simp
qed

text \<open>What the file holds, as a view.\<close>

definition file_view :: "disk_registry json \<Rightarrow> bytes option \<Rightarrow> registry_view option" where
  "file_view J file = (case open_registry J False file of Inl _ \<Rightarrow> None | Inr q \<Rightarrow> Some (rooms_view (pg_rooms q)))"

lemma registry_persist_file:
  assumes "json_law J" "rooms_ok rooms" "registry_persist J fault rooms file = (res, file')"
  shows "file_view J file' = file_view J file \<or> file_view J file' = Some (rooms_view rooms)"
    and "res = Inr () \<Longrightarrow> file_view J file' = Some (rooms_view rooms)"
proof -
  have "rooms_view (load_rows (from_rooms rooms) []) = rooms_view rooms"
    using load_rows_view [OF rooms_ok_sort [OF assms(2)], of "[]"] rooms_view_sort [OF assms(2)]
    by (simp add: from_rooms_eq rooms_ok_def rooms_view_empty)
  then have "to_json J (from_rooms rooms) = Inr bs \<Longrightarrow> file_view J (Some bs) = Some (rooms_view rooms)" for bs
    using assms(1) by (simp add: file_view_def open_registry_def json_law_def)
  then show "file_view J file' = file_view J file \<or> file_view J file' = Some (rooms_view rooms)"
    "res = Inr () \<Longrightarrow> file_view J file' = Some (rooms_view rooms)"
    using assms(3) by (auto simp: registry_persist_def Let_def after_write_def write_ok_def split: sum.splits if_splits)
qed

lemma persist_next_file:
  assumes "json_law J" "rooms_ok next" "persist_next J fault next a r = (res, r')"
  shows "res = Inr a \<and> pg_rooms r' = next \<and> file_view J (pg_file r') = Some (rooms_view next)
    \<or> (\<exists>e. res = Inl e) \<and> pg_rooms r' = pg_rooms r
      \<and> (file_view J (pg_file r') = file_view J (pg_file r) \<or> file_view J (pg_file r') = Some (rooms_view next))"
proof -
  obtain q fl where w: "registry_persist J fault next (pg_file r) = (q, fl)" by fastforce
  show ?thesis using assms(3) registry_persist_file [OF assms(1,2) w] w
    by (cases q) (auto simp: persist_next_def)
qed

lemma load_rows_ok: "rooms_ok acc \<Longrightarrow> rooms_ok (load_rows rows acc)"
proof (induction rows arbitrary: acc)
  case (Cons row rows)
  show ?case
  proof (cases "into_record row")
    case (Inr p)
    obtain room rec where p: "p = (room, rec)" by fastforce
    have "is_lower_hex 32 room" "ordered_members (rr_members rec)"
      using Inr p room_record_new_Inr(2)
      by (auto simp: into_record_def and_then_eq_Inr validate_room_id_Inr split: list.splits)
    then show ?thesis using Cons Inr p by (simp add: rooms_ok_update)
  qed (use Cons in simp)
qed simp

lemma open_registry_ok: "open_registry J read_fails fl = Inr r \<Longrightarrow> rooms_ok (pg_rooms r)"
proof -
  have "rooms_ok []" by (simp add: rooms_ok_def)
  then show "open_registry J read_fails fl = Inr r \<Longrightarrow> rooms_ok (pg_rooms r)"
    using load_rows_ok [of "[]"] by (auto simp: open_registry_def split: option.splits sum.splits if_splits)
qed

lemma persist_next_ok:
  assumes "to_json J (from_rooms next) = Inr bs"
  shows "fst (persist_next J None next a r) = Inr a" "pg_rooms (snd (persist_next J None next a r)) = next"
  using assms by (simp_all add: persist_next_def registry_persist_def write_outcome_of_def Let_def)

text \<open>The three operations that write, and a registry that agrees with its file.\<close>

datatype registry_call = DoCommit string member_pair int | DoActivate string string int | DoPrune int

fun run_registry :: "disk_registry json \<Rightarrow> write_step option \<Rightarrow> registry_call \<Rightarrow> persistent_registry
    \<Rightarrow> bool \<times> persistent_registry" where
  "run_registry J fault (DoCommit room ms t) r = apfst is_ok (pers_commit_room J fault room ms t r)"
| "run_registry J fault (DoActivate room fp t) r = apfst is_ok (pers_activate_on_first_join J fault room fp t r)"
| "run_registry J fault (DoPrune cutoff) r = apfst is_ok (pers_prune_unactivated J fault cutoff r)"

definition synced :: "disk_registry json \<Rightarrow> persistent_registry \<Rightarrow> bool" where
  "synced J r \<longleftrightarrow> file_view J (pg_file r) = Some (rooms_view (pg_rooms r))"

text \<open>Every operation leaves the registry alone, or persists some next rooms.\<close>

lemma persist_next_result: "apfst is_ok (persist_next J fault next a r) = apfst is_ok (persist_next J fault next () r)"
  by (simp add: persist_next_def split: prod.split sum.split)

lemma run_registry_shape:
  assumes ok: "rooms_ok (pg_rooms r)"
  shows "(\<exists>b. \<forall>fault. run_registry J fault call r = (b, r))
    \<or> (\<exists>next. rooms_ok next \<and> (\<forall>fault. run_registry J fault call r = apfst is_ok (persist_next J fault next () r)))"
proof (cases call)
  case (DoCommit room ms t)
  show ?thesis
  proof (cases "and_then (registry_validate_room_id room) (\<lambda>_. room_record_new ms t)")
    case (Inl e)
    then show ?thesis by (auto simp: DoCommit pers_commit_room_def)
  next
    case (Inr rec)
    then have hex: "is_lower_hex 32 room" and new: "room_record_new ms t = Inr rec"
      by (auto simp: and_then_eq_Inr validate_room_id_Inr)
    show ?thesis
    proof (cases "map_of (pg_rooms r) room = None \<and> length (pg_rooms r) < REGISTRY_MAX_ROOMS")
      case True
      with Inr have "run_registry J fault call r
          = apfst is_ok (persist_next J fault (AList.update room rec (pg_rooms r)) () r)" for fault
        by (simp add: DoCommit pers_commit_room_def persist_next_result [of _ _ _ Created])
      with rooms_ok_update [OF ok hex room_record_new_Inr(2) [OF new]] show ?thesis by blast
    next
      case False
      with Inr show ?thesis by (auto simp: DoCommit pers_commit_room_def not_less split: option.split)
    qed
  qed
next
  case (DoActivate room fp t)
  show ?thesis
  proof (cases "map_of (pg_rooms r) room")
    case (Some rec)
    let ?next = "AList.update room (rec\<lparr>rr_activated_at_ms := Some t,
        rr_activated_members := insert fp (rr_activated_members rec)\<rparr>) (pg_rooms r)"
    have "rooms_ok ?next" using rooms_ok_update [OF ok] rooms_ok_lookup [OF ok Some] by simp
    then show ?thesis using Some
      by (cases "rr_activated_at_ms rec \<noteq> None \<or> fp \<notin> set (members_vec (rr_members rec))")
         (auto simp: DoActivate pers_activate_on_first_join_def persist_next_result [of _ _ _ True])
  qed (auto simp: DoActivate pers_activate_on_first_join_def)
next
  case (DoPrune cutoff)
  let ?next = "filter (keeps_room cutoff) (pg_rooms r)" and ?n = "length (pg_rooms r) - length (filter (keeps_room cutoff) (pg_rooms r))"
  show ?thesis using rooms_ok_filter [OF ok, of "keeps_room cutoff"] persist_next_result [of J _ ?next ?n r]
    by (cases "?n = 0") (auto simp: DoPrune pers_prune_unactivated_def Let_def)
qed

lemma run_registry_file:
  assumes "json_law J" "rooms_ok (pg_rooms r)" "synced J r" "run_registry J fault call r = (ok, r')"
  shows "if ok then synced J r'
    else pg_rooms r' = pg_rooms r
      \<and> file_view J (pg_file r') \<in> {file_view J (pg_file r), Some (rooms_view (pg_rooms (snd (run_registry J None call r))))}"
  using run_registry_shape [OF assms(2), of J call]
proof
  assume "\<exists>b. \<forall>fault. run_registry J fault call r = (b, r)"
  then have "r' = r" using assms(4) by auto
  then show ?thesis using assms(3) by simp
next
  assume "\<exists>next. rooms_ok next \<and> (\<forall>fault. run_registry J fault call r = apfst is_ok (persist_next J fault next () r))"
  then obtain nxt where n: "rooms_ok nxt"
    "\<And>fault. run_registry J fault call r = apfst is_ok (persist_next J fault nxt () r)" by blast
  obtain res where p: "persist_next J fault nxt () r = (res, r')" "ok = is_ok res"
    using n(2) [of fault] assms(4) by (cases "persist_next J fault nxt () r") auto
  have "file_view J (pg_file r') = file_view J (pg_file r)" if "to_json J (from_rooms nxt) = Inl e" for e
    using p(1) that by (simp add: persist_next_def registry_persist_def)
  moreover have "pg_rooms (snd (run_registry J None call r)) = nxt" if "to_json J (from_rooms nxt) = Inr bs" for bs
    using persist_next_ok(2) [OF that, of "()" r] n(2) [of None] by simp
  ultimately show ?thesis using persist_next_file [OF assms(1) n(1) p(1)] p(2)
    by (cases "to_json J (from_rooms nxt)") (auto simp: synced_def)
qed

text \<open>With a successful write, the persistent operations are the in-memory ones.\<close>

lemma mem_error_keeps:
  "mem_commit_room room ms t m = (Inl e, m') \<Longrightarrow> m' = m" "mem_activate_on_first_join room fp t m \<noteq> (Inl e, m')"
  "mem_prune_unactivated cutoff m \<noteq> (Inl e, m')"
  by (auto simp: mem_commit_room_def mem_activate_on_first_join_def mem_prune_unactivated_def Let_def
      split: sum.splits option.splits if_splits)

lemma faultless_commit:
  assumes "\<And>rooms. \<exists>bs. to_json J (from_rooms rooms) = Inr bs"
  shows "mem_commit_room room ms t (pg_rooms r)
    = (fst (pers_commit_room J None room ms t r), pg_rooms (snd (pers_commit_room J None room ms t r)))"
proof -
  have "fst (persist_next J None nxt a r) = Inr a \<and> pg_rooms (snd (persist_next J None nxt a r)) = nxt" for nxt and a :: registry_commit
    using assms [of nxt] persist_next_ok by (metis (no_types))
  then show ?thesis by (simp add: pers_commit_room_def mem_commit_room_def split: sum.split option.split)
qed

lemma faultless_activate:
  assumes "\<And>rooms. \<exists>bs. to_json J (from_rooms rooms) = Inr bs" "rooms_ok (pg_rooms r)"
  shows "\<exists>m. mem_activate_on_first_join room fp t (pg_rooms r) = (fst (pers_activate_on_first_join J None room fp t r), m)
    \<and> rooms_view m = rooms_view (pg_rooms (snd (pers_activate_on_first_join J None room fp t r)))"
proof -
  have ok: "fst (persist_next J None nxt a r) = Inr a" for nxt and a :: bool
    using assms(1) [of nxt] persist_next_ok by (metis (no_types))
  obtain res r' where run: "pers_activate_on_first_join J None room fp t r = (res, r')" by fastforce
  have "res \<noteq> Inl e" for e
    using run ok by (auto simp: pers_activate_on_first_join_def split: option.splits if_splits) (metis Inl_Inr_False fst_conv)
  then show ?thesis using pers_activate_sim [OF assms(2) run] run by auto
qed

lemma faultless_prune:
  assumes "\<And>rooms. \<exists>bs. to_json J (from_rooms rooms) = Inr bs"
  shows "mem_prune_unactivated cutoff (pg_rooms r)
    = (fst (pers_prune_unactivated J None cutoff r), pg_rooms (snd (pers_prune_unactivated J None cutoff r)))"
proof -
  have ok: "fst (persist_next J None nxt a r) = Inr a" for nxt and a :: nat
    using assms [of nxt] persist_next_ok by (metis (no_types))
  obtain res r' where run: "pers_prune_unactivated J None cutoff r = (res, r')" by fastforce
  have "res \<noteq> Inl e" for e
    using run ok by (auto simp: pers_prune_unactivated_def Let_def split: if_splits) (metis Inl_Inr_False fst_conv)
  then show ?thesis using pers_prune_sim [OF run] run by auto
qed

section \<open>A concrete registry\<close>

definition demo_room_id :: string where "demo_room_id = replicate 32 CHR ''a''"
definition demo_members :: member_pair where "demo_members = (replicate 64 CHR ''a'', replicate 64 CHR ''b'')"

definition demo_row :: "int option \<Rightarrow> disk_room" where
  "demo_row a = \<lparr>dr_room_id = demo_room_id, dr_members = members_vec demo_members, dr_created_at_ms = 5,
     dr_activated_at_ms = a\<rparr>"

definition demo_registry_json :: "disk_registry json" where
  "demo_registry_json = table_json [[demo_row (Some 7)], [demo_row None]]"

definition demo_registry :: "int option \<Rightarrow> persistent_registry" where
  "demo_registry a = \<lparr>pg_rooms = load_rows [demo_row a] [], pg_file = Some (if a = None then [1, 2] else [2])\<rparr>"

lemma demo_rooms: "load_rows [demo_row a] [] = [(demo_room_id, \<lparr>rr_members = demo_members, rr_created_at_ms = 5,
    rr_activated_at_ms = a, rr_activated_members = {}\<rparr>)]"
proof -
  have "is_lower_hex 32 demo_room_id" "is_lower_hex 64 (fst demo_members)" "is_lower_hex 64 (snd demo_members)"
    "fst demo_members < snd demo_members" by code_simp+
  then show ?thesis
    by (auto simp: demo_row_def into_record_def registry_validate_room_id_def room_record_new_def validate_members_def
        members_vec_def split: prod.split)
qed

lemma demo_pg_rooms: "pg_rooms (demo_registry a) = [(demo_room_id, \<lparr>rr_members = demo_members, rr_created_at_ms = 5,
    rr_activated_at_ms = a, rr_activated_members = {}\<rparr>)]"
  unfolding demo_registry_def by (simp only: persistent_registry.simps demo_rooms)

lemma demo_open: "open_registry demo_registry_json False (pg_file (demo_registry None)) = Inr (demo_registry None)"
  "open_registry demo_registry_json False (pg_file (demo_registry (Some 7))) = Inr (demo_registry (Some 7))"
  by (simp_all add: open_registry_def demo_registry_json_def demo_registry_def table_json_def)

lemma demo_rooms_ok: "rooms_ok (pg_rooms (demo_registry None))"
  by (rule open_registry_ok [OF demo_open(1)])

section \<open>Properties\<close>

text \<open>C28: a room two devices use is never lost or taken over. In a registry opened from any file,
  once a room is activated every later sequence of commits, joins and prunes, with any write failing,
  leaves its two members and its activation time as they are; members are always two distinct
  fingerprints in order; and the registry never grows past its quota.\<close>

theorem activated_room_kept:
  assumes "open_registry J read_fails fl = Inr r0" "registry_steps (persistent_ops J) r0 r"
    and "registry_steps (persistent_ops J) r r'" "activated_at_ms room r = Some a"
  shows "lookup_members (persistent_ops J) room r' = lookup_members (persistent_ops J) room r
    \<and> activated_at_ms room r' = Some a
    \<and> (\<exists>x y. lookup_members (persistent_ops J) room r' = [x, y] \<and> x < y \<and> is_lower_hex 64 x \<and> is_lower_hex 64 y)
    \<and> (length (pg_rooms r) \<le> REGISTRY_MAX_ROOMS \<longrightarrow> length (pg_rooms r') \<le> REGISTRY_MAX_ROOMS)"
proof -
  have ok: "rooms_ok (pg_rooms r)" using pers.steps_inv [OF assms(2)] open_registry_ok [OF assms(1)] by simp
  have ok': "rooms_ok (pg_rooms r')" using pers.steps_inv [OF assms(3)] ok by simp
  obtain ms s where v: "rooms_view (pg_rooms r) room = Some (ms, s, Some a)"
    using assms(4) by (auto simp: activated_at_ms_def rooms_view_def split: option.splits)
  have v': "rooms_view (pg_rooms r') room = Some (ms, s, Some a)"
    by (rule pers.activated_kept [OF assms(3)]) (use ok v in simp_all)
  have look: "lookup_members (persistent_ops J) room r' = members_vec ms"
    "lookup_members (persistent_ops J) room r = members_vec ms"
    using pers.lookup_view [of r' J room] pers.lookup_view [of r J room] ok ok' v v' by simp_all
  moreover have "activated_at_ms room r' = Some a"
    using v' by (auto simp: activated_at_ms_def rooms_view_def)
  moreover have "\<exists>x y. lookup_members (persistent_ops J) room r' = [x, y] \<and> x < y \<and> is_lower_hex 64 x \<and> is_lower_hex 64 y"
    by (rule pers.lookup_shape) (use ok' look in \<open>simp_all add: members_vec_def\<close>)
  moreover have "length (pg_rooms r) \<le> REGISTRY_MAX_ROOMS \<longrightarrow> length (pg_rooms r') \<le> REGISTRY_MAX_ROOMS"
    using pers.rooms_bounded [OF assms(3)] ok card_rooms_view [OF ok] card_rooms_view [OF ok'] by simp
  ultimately show ?thesis by simp
qed

theorem activated_room_kept_witness:
  "activated_at_ms demo_room_id (demo_registry (Some 7)) = Some 7
   \<and> activated_at_ms demo_room_id (snd (prune_unactivated (persistent_ops demo_registry_json) None 100
        (demo_registry (Some 7)))) = Some 7"
proof -
  let ?R = "persistent_ops demo_registry_json" and ?r = "demo_registry (Some 7)"
  have a: "activated_at_ms demo_room_id ?r = Some 7"
    by (simp add: activated_at_ms_def demo_pg_rooms)
  have "registry_steps ?R ?r (snd (prune_unactivated ?R None 100 ?r))"
    by (rule steps_prune [OF steps_refl]) (rule prod.collapse [symmetric])
  from activated_room_kept [OF demo_open(2) steps_refl this a] a show ?thesis by simp
qed



text \<open>C37: the persistent registry refines the in-memory one. Seen through the members, creation and
  activation times of its rooms, every operation of the persistent registry returns what the in-memory
  operation returns and reaches the same rooms, or it fails and changes nothing in memory; when the
  write succeeds it is always the former.\<close>

theorem persistent_refines_in_memory:
  assumes "rooms_ok (pg_rooms r)" "\<And>rooms. \<exists>bs. to_json J (from_rooms rooms) = Inr bs"
  shows "(let (res, r') = pers_commit_room J fault room ms t r; (res', m) = mem_commit_room room ms t (pg_rooms r) in
      if fault = None \<or> is_ok res then res = res' \<and> rooms_view (pg_rooms r') = rooms_view m else pg_rooms r' = pg_rooms r)
    \<and> (let (res, r') = pers_activate_on_first_join J fault room fp t r;
           (res', m) = mem_activate_on_first_join room fp t (pg_rooms r) in
      if fault = None \<or> is_ok res then res = res' \<and> rooms_view (pg_rooms r') = rooms_view m else pg_rooms r' = pg_rooms r)
    \<and> (let (res, r') = pers_prune_unactivated J fault cutoff r; (res', m) = mem_prune_unactivated cutoff (pg_rooms r) in
      if fault = None \<or> is_ok res then res = res' \<and> rooms_view (pg_rooms r') = rooms_view m else pg_rooms r' = pg_rooms r)"
proof -
  obtain res r' res' m where c: "pers_commit_room J fault room ms t r = (res, r')"
    "mem_commit_room room ms t (pg_rooms r) = (res', m)" by (meson surj_pair)
  obtain ares ar' ares' am where a: "pers_activate_on_first_join J fault room fp t r = (ares, ar')"
    "mem_activate_on_first_join room fp t (pg_rooms r) = (ares', am)" by (meson surj_pair)
  obtain pres pr' pres' pm where p: "pers_prune_unactivated J fault cutoff r = (pres, pr')"
    "mem_prune_unactivated cutoff (pg_rooms r) = (pres', pm)" by (meson surj_pair)
  have "if fault = None \<or> is_ok res then res = res' \<and> rooms_view (pg_rooms r') = rooms_view m else pg_rooms r' = pg_rooms r"
    using pers_commit_sim [OF c(1)] faultless_commit [OF assms(2), of room ms t r] c mem_error_keeps(1) [of room ms t "pg_rooms r"]
    by (cases res) auto
  moreover have "if fault = None \<or> is_ok ares then ares = ares' \<and> rooms_view (pg_rooms ar') = rooms_view am
      else pg_rooms ar' = pg_rooms r"
  proof (cases "fault = None")
    case True
    then show ?thesis using faultless_activate [OF assms(2,1), of room fp t] a by auto
  next
    case False
    then show ?thesis using pers_activate_sim [OF assms(1) a(1)] a mem_error_keeps(2) by (cases ares) auto
  qed
  moreover have "if fault = None \<or> is_ok pres then pres = pres' \<and> rooms_view (pg_rooms pr') = rooms_view pm
      else pg_rooms pr' = pg_rooms r"
    using pers_prune_sim [OF p(1)] faultless_prune [OF assms(2), of cutoff r] p mem_error_keeps(3)
    by (cases pres) auto
  ultimately show ?thesis unfolding c a p by simp
qed

theorem persistent_refines_in_memory_witness:
  "fst (pers_activate_on_first_join \<lparr>to_json = (\<lambda>_. Inr []), from_json = (\<lambda>_. Inl [])\<rparr> None demo_room_id (fst demo_members) 7
      (demo_registry None))
   = fst (mem_activate_on_first_join demo_room_id (fst demo_members) 7 (pg_rooms (demo_registry None)))"
  using persistent_refines_in_memory [OF demo_rooms_ok, of "\<lparr>to_json = (\<lambda>_. Inr []), from_json = (\<lambda>_. Inl [])\<rparr>"
      None demo_room_id demo_members 7 "fst demo_members" 100]
  by (simp add: case_prod_beta)

end
