(* ===== verification/Outbox.thy ===== *)
theory Outbox
  imports Protocol "HOL-Library.Multiset"
begin

text \<open>
  The bounded outbox of one connection (crates/server/src/room.rs, \<open>OutboxHandle\<close>,
  \<open>OutboxReceiver\<close> and \<open>ReservedFrame\<close>).

  All clones of a handle share one queue and one byte counter, so a handle is an address and
  \<open>outboxes\<close> gives the outbox at each address. \<open>ob_reserved\<close> collects the sizes of the
  reservations that are neither sent nor dropped; they hold a channel slot each.
  \<open>ob_receiver\<close> tells that the writer task still owns the receiving half. Each call is
  atomic; the counter of the source is briefly higher inside a call that is about to fail.

  \<open>encode_frame(..).expect(..)\<close> panics when the frame does not encode; the operations
  that encode return \<open>None\<close> then. The lemmas show that the counter is exactly the size of
  what is queued or reserved and that both bounds always hold.
\<close>

datatype outbound = OutFrame bytes | OutClose

record outbox =
  ob_queue :: "outbound list"
  ob_reserved :: "nat multiset"
  ob_pending_bytes :: nat
  ob_max_frames :: nat
  ob_max_bytes :: nat
  ob_force_close :: bool
  ob_receiver :: bool

type_synonym outbox_handle = u64
type_synonym outboxes = "outbox_handle \<Rightarrow> outbox"

record reserved_frame =
  rf_encoded :: bytes
  rf_size :: nat

definition outbox_new :: "nat \<Rightarrow> nat \<Rightarrow> outbox" where
  "outbox_new max_frames max_bytes = \<lparr>ob_queue = [], ob_reserved = {#}, ob_pending_bytes = 0,
     ob_max_frames = max_frames, ob_max_bytes = max_bytes, ob_force_close = False, ob_receiver = True\<rparr>"

text \<open>\<open>try_send\<close> and \<open>try_reserve_owned\<close> of the channel succeed while the receiver
  lives and a slot is free.\<close>

definition has_slot :: "outbox \<Rightarrow> bool" where
  "has_slot b \<longleftrightarrow> ob_receiver b \<and> length (ob_queue b) + size (ob_reserved b) < ob_max_frames b"

definition try_frame :: "bytes \<Rightarrow> outbox \<Rightarrow> bool \<times> outbox" where
  "try_frame encoded b =
     (let n = length encoded in
      if ob_pending_bytes b + n > ob_max_bytes b then (False, b)
      else if \<not> has_slot b then (False, b)
      else (True, b\<lparr>ob_pending_bytes := ob_pending_bytes b + n, ob_queue := ob_queue b @ [OutFrame encoded]\<rparr>))"

definition send_frame :: "crates \<Rightarrow> frame json \<Rightarrow> frame \<Rightarrow> outbox \<Rightarrow> (bool \<times> outbox) option" where
  "send_frame X J f b = (case encode_frame X J f of Inl _ \<Rightarrow> None | Inr encoded \<Rightarrow> Some (try_frame encoded b))"

definition try_reserve_frame ::
  "crates \<Rightarrow> frame json \<Rightarrow> frame \<Rightarrow> outbox \<Rightarrow> (reserved_frame option \<times> outbox) option" where
  "try_reserve_frame X J f b =
     (case encode_frame X J f of
        Inl _ \<Rightarrow> None
      | Inr encoded \<Rightarrow>
          (let n = length encoded in
           Some (if ob_pending_bytes b + n > ob_max_bytes b then (None, b)
                 else if \<not> has_slot b then (None, b)
                 else (Some \<lparr>rf_encoded = encoded, rf_size = n\<rparr>,
                       b\<lparr>ob_pending_bytes := ob_pending_bytes b + n, ob_reserved := add_mset n (ob_reserved b)\<rparr>))))"

definition send_reserved :: "reserved_frame \<Rightarrow> outbox \<Rightarrow> outbox" where
  "send_reserved r b = b\<lparr>ob_reserved := ob_reserved b - {#rf_size r#},
     ob_queue := ob_queue b @ [OutFrame (rf_encoded r)]\<rparr>"

definition drop_reserved :: "reserved_frame \<Rightarrow> outbox \<Rightarrow> outbox" where
  "drop_reserved r b = b\<lparr>ob_reserved := ob_reserved b - {#rf_size r#},
     ob_pending_bytes := ob_pending_bytes b - rf_size r\<rparr>"

definition close_outbox :: "outbox \<Rightarrow> outbox" where
  "close_outbox b = (if has_slot b then b\<lparr>ob_queue := ob_queue b @ [OutClose]\<rparr> else b\<lparr>ob_force_close := True\<rparr>)"

definition error_and_close :: "crates \<Rightarrow> frame json \<Rightarrow> string \<Rightarrow> string \<Rightarrow> outbox \<Rightarrow> outbox option" where
  "error_and_close X J code message b =
     map_option (\<lambda>(_, b). close_outbox b) (send_frame X J (Error code message) b)"

text \<open>\<open>recv\<close>: the two branches of the \<open>select!\<close> are polled in an arbitrary order
  (\<open>force_first\<close>); \<open>None\<close> is a call that keeps waiting.\<close>

definition outbox_recv :: "bool \<Rightarrow> outbox \<Rightarrow> outbound option \<times> outbox" where
  "outbox_recv force_first b =
     (if ob_force_close b \<and> (force_first \<or> ob_queue b = [])
      then (Some OutClose, b\<lparr>ob_force_close := False\<rparr>)
      else case ob_queue b of
        [] \<Rightarrow> (None, b)
      | OutFrame bs # q \<Rightarrow> (Some (OutFrame bs), b\<lparr>ob_queue := q, ob_pending_bytes := ob_pending_bytes b - length bs\<rparr>)
      | OutClose # q \<Rightarrow> (Some OutClose, b\<lparr>ob_queue := q\<rparr>))"

section \<open>Accounting\<close>

fun outbound_size :: "outbound \<Rightarrow> nat" where
  "outbound_size (OutFrame bs) = length bs"
| "outbound_size OutClose = 0"

definition outbox_ok :: "outbox \<Rightarrow> bool" where
  "outbox_ok b \<longleftrightarrow> ob_pending_bytes b = sum_list (map outbound_size (ob_queue b)) + sum_mset (ob_reserved b)
     \<and> ob_pending_bytes b \<le> ob_max_bytes b
     \<and> length (ob_queue b) + size (ob_reserved b) \<le> ob_max_frames b"

text \<open>A reservation of this outbox.\<close>

definition reservation_of :: "outbox \<Rightarrow> reserved_frame \<Rightarrow> bool" where
  "reservation_of b r \<longleftrightarrow> rf_size r \<in># ob_reserved b \<and> rf_size r = length (rf_encoded r)"

lemma outbox_new_ok [simp]: "outbox_ok (outbox_new n m)"
  by (simp add: outbox_ok_def outbox_new_def)

lemma try_frame_ok: "outbox_ok b \<Longrightarrow> outbox_ok (snd (try_frame encoded b))"
  by (auto simp: outbox_ok_def try_frame_def has_slot_def Let_def)

lemma send_frame_ok: "outbox_ok b \<Longrightarrow> send_frame X J f b = Some (r, b') \<Longrightarrow> outbox_ok b'"
  using try_frame_ok by (auto simp: send_frame_def split: sum.splits) (metis snd_conv)

lemma try_reserve_ok:
  assumes "outbox_ok b" "try_reserve_frame X J f b = Some (r, b')"
  shows "outbox_ok b'" "r = Some q \<Longrightarrow> reservation_of b' q"
  using assms by (auto simp: outbox_ok_def try_reserve_frame_def has_slot_def reservation_of_def Let_def
      split: sum.splits if_splits)

lemma reservation_counts:
  assumes "reservation_of b r"
  shows "sum_mset (ob_reserved b) = rf_size r + sum_mset (ob_reserved b - {#rf_size r#})"
    "size (ob_reserved b) = Suc (size (ob_reserved b - {#rf_size r#}))" "rf_size r = length (rf_encoded r)"
proof -
  obtain M where "ob_reserved b = add_mset (rf_size r) M" using assms by (auto simp: reservation_of_def dest: multi_member_split)
  then show "sum_mset (ob_reserved b) = rf_size r + sum_mset (ob_reserved b - {#rf_size r#})"
    "size (ob_reserved b) = Suc (size (ob_reserved b - {#rf_size r#}))" by simp_all
  show "rf_size r = length (rf_encoded r)" using assms by (simp add: reservation_of_def)
qed

lemma send_reserved_ok: "outbox_ok b \<Longrightarrow> reservation_of b r \<Longrightarrow> outbox_ok (send_reserved r b)"
  using reservation_counts [of b r] by (simp add: outbox_ok_def send_reserved_def)

lemma drop_reserved_ok: "outbox_ok b \<Longrightarrow> reservation_of b r \<Longrightarrow> outbox_ok (drop_reserved r b)"
  using reservation_counts [of b r] by (simp add: outbox_ok_def drop_reserved_def)

lemma close_outbox_ok: "outbox_ok b \<Longrightarrow> outbox_ok (close_outbox b)"
  by (auto simp: outbox_ok_def close_outbox_def has_slot_def)

lemma outbox_recv_ok: "outbox_ok b \<Longrightarrow> outbox_ok (snd (outbox_recv force_first b))"
  by (auto simp: outbox_ok_def outbox_recv_def split: list.split outbound.split)

lemma try_reserve_cases:
  assumes "try_reserve_frame X J f b = Some (q, b')"
  obtains (refused) "q = None" "b' = b"
  | (reserved) encoded where "encode_frame X J f = Inr encoded"
      "q = Some \<lparr>rf_encoded = encoded, rf_size = length encoded\<rparr>"
      "b' = b\<lparr>ob_pending_bytes := ob_pending_bytes b + length encoded,
              ob_reserved := add_mset (length encoded) (ob_reserved b)\<rparr>"
  using assms by (auto simp: try_reserve_frame_def Let_def split: sum.splits if_splits)

text \<open>Two frames queued through reservations.\<close>

definition enqueue_two :: "bytes \<Rightarrow> bytes \<Rightarrow> outbox \<Rightarrow> outbox" where
  "enqueue_two x y b = b\<lparr>ob_pending_bytes := ob_pending_bytes b + length x + length y,
     ob_queue := ob_queue b @ [OutFrame x, OutFrame y]\<rparr>"

lemma reserve_drop:
  "drop_reserved \<lparr>rf_encoded = x, rf_size = length x\<rparr>
     (b\<lparr>ob_pending_bytes := ob_pending_bytes b + length x, ob_reserved := add_mset (length x) (ob_reserved b)\<rparr>) = b"
  by (simp add: drop_reserved_def)

lemma send_frame_cases:
  assumes "send_frame X J f b = Some (sent, b')"
  obtains (refused) "\<not> sent" "b' = b"
  | (queued) encoded where "sent" "encode_frame X J f = Inr encoded"
      "b' = b\<lparr>ob_pending_bytes := ob_pending_bytes b + length encoded, ob_queue := ob_queue b @ [OutFrame encoded]\<rparr>"
  using assms by (auto simp: send_frame_def try_frame_def Let_def split: sum.splits if_splits)

section \<open>Histories of one outbox\<close>

text \<open>Everything that can happen to one outbox, with the reservations that are still alive.\<close>

inductive outbox_reach :: "crates \<Rightarrow> frame json \<Rightarrow> nat \<Rightarrow> nat \<Rightarrow> outbox \<Rightarrow> reserved_frame list \<Rightarrow> bool"
  for X J n m where
  reach_new: "outbox_reach X J n m (outbox_new n m) []"
| reach_send: "outbox_reach X J n m b rs \<Longrightarrow> send_frame X J f b = Some (r, b') \<Longrightarrow> outbox_reach X J n m b' rs"
| reach_reserve: "outbox_reach X J n m b rs \<Longrightarrow> try_reserve_frame X J f b = Some (q, b')
    \<Longrightarrow> outbox_reach X J n m b' (rs @ (case q of Some r \<Rightarrow> [r] | None \<Rightarrow> []))"
| reach_send_reserved: "outbox_reach X J n m b (rs @ r # rs') \<Longrightarrow> outbox_reach X J n m (send_reserved r b) (rs @ rs')"
| reach_drop_reserved: "outbox_reach X J n m b (rs @ r # rs') \<Longrightarrow> outbox_reach X J n m (drop_reserved r b) (rs @ rs')"
| reach_close: "outbox_reach X J n m b rs \<Longrightarrow> outbox_reach X J n m (close_outbox b) rs"
| reach_error: "outbox_reach X J n m b rs \<Longrightarrow> error_and_close X J code message b = Some b' \<Longrightarrow> outbox_reach X J n m b' rs"
| reach_recv: "outbox_reach X J n m b rs \<Longrightarrow> outbox_recv first b = (u, b') \<Longrightarrow> outbox_reach X J n m b' rs"

definition outbox_inv :: "nat \<Rightarrow> nat \<Rightarrow> outbox \<Rightarrow> reserved_frame list \<Rightarrow> bool" where
  "outbox_inv n m b rs \<longleftrightarrow> outbox_ok b \<and> ob_reserved b = mset (map rf_size rs)
     \<and> (\<forall>r \<in> set rs. rf_size r = length (rf_encoded r)) \<and> ob_max_frames b = n \<and> ob_max_bytes b = m"

lemma try_frame_static:
  "ob_reserved (snd (try_frame e b)) = ob_reserved b" "ob_max_frames (snd (try_frame e b)) = ob_max_frames b"
  "ob_max_bytes (snd (try_frame e b)) = ob_max_bytes b"
  by (simp_all add: try_frame_def Let_def)

lemma close_outbox_static [simp]:
  "ob_reserved (close_outbox b) = ob_reserved b" "ob_max_frames (close_outbox b) = ob_max_frames b"
  "ob_max_bytes (close_outbox b) = ob_max_bytes b"
  by (simp_all add: close_outbox_def)

lemma send_frame_inv:
  assumes "outbox_inv n m b rs" "send_frame X J f b = Some (r, b')" shows "outbox_inv n m b' rs"
proof -
  from assms(2) obtain e where "b' = snd (try_frame e b)"
    by (auto simp: send_frame_def split: sum.splits) (metis snd_conv)
  then show ?thesis using assms(1) try_frame_ok [of b e] by (simp add: outbox_inv_def try_frame_static)
qed

lemma reservation_inv:
  assumes "outbox_inv n m b (rs @ r # rs')"
  shows "reservation_of b r" "ob_reserved b - {#rf_size r#} = mset (map rf_size (rs @ rs'))"
  using assms by (simp_all add: reservation_of_def outbox_inv_def)

lemma outbox_reach_inv: "outbox_reach X J n m b rs \<Longrightarrow> outbox_inv n m b rs"
proof (induction rule: outbox_reach.induct)
  case reach_new
  then show ?case by (simp add: outbox_inv_def) (simp add: outbox_new_def)
next
  case (reach_send b rs f r b')
  then show ?case using send_frame_inv by blast
next
  case (reach_reserve b rs f q b')
  have ok: "outbox_ok b" using reach_reserve by (simp add: outbox_inv_def)
  show ?case using try_reserve_ok(1) [OF ok reach_reserve(2)] reach_reserve
    by (auto simp: outbox_inv_def try_reserve_frame_def Let_def split: sum.splits if_splits)
next
  case (reach_send_reserved b rs r rs')
  have "outbox_ok (send_reserved r b)" using reservation_inv(1) [OF reach_send_reserved(2)] reach_send_reserved(2)
    by (intro send_reserved_ok) (simp_all add: outbox_inv_def)
  then show ?case using reservation_inv(2) [OF reach_send_reserved(2)] reach_send_reserved(2)
    by (simp add: outbox_inv_def) (simp add: send_reserved_def)
next
  case (reach_drop_reserved b rs r rs')
  have "outbox_ok (drop_reserved r b)" using reservation_inv(1) [OF reach_drop_reserved(2)] reach_drop_reserved(2)
    by (intro drop_reserved_ok) (simp_all add: outbox_inv_def)
  then show ?case using reservation_inv(2) [OF reach_drop_reserved(2)] reach_drop_reserved(2)
    by (simp add: outbox_inv_def) (simp add: drop_reserved_def)
next
  case (reach_close b rs)
  then show ?case using close_outbox_ok by (simp add: outbox_inv_def)
next
  case (reach_error b rs code message b')
  then obtain r b1 where "send_frame X J (Error code message) b = Some (r, b1)" "b' = close_outbox b1"
    by (auto simp: error_and_close_def)
  with send_frame_inv [OF reach_error(3)] show ?case using close_outbox_ok by (simp add: outbox_inv_def)
next
  case (reach_recv b rs first u b')
  have "ob_reserved b' = ob_reserved b \<and> ob_max_frames b' = ob_max_frames b \<and> ob_max_bytes b' = ob_max_bytes b"
    using reach_recv(2) by (auto simp: outbox_recv_def split: if_splits list.splits outbound.splits)
  then show ?case using reach_recv outbox_recv_ok [of b first] by (simp add: outbox_inv_def)
qed

section \<open>Properties\<close>

text \<open>C38: a slow reader cannot make the relay hold more than its budget. Through any sequence of
  sends, reservations, commits and drops of reservations, closes, error closes and receives, the byte
  counter of an outbox equals the bytes queued plus the bytes reserved, it never exceeds the byte
  budget, and queued plus reserved units never exceed the frame budget; when nothing is queued or
  reserved any more the counter is back at zero.\<close>

theorem outbox_within_budget:
  assumes "outbox_reach X J n m b rs"
  shows "ob_pending_bytes b = sum_list (map outbound_size (ob_queue b)) + sum_list (map rf_size rs)
    \<and> ob_pending_bytes b \<le> m \<and> length (ob_queue b) + length rs \<le> n
    \<and> (ob_queue b = [] \<and> rs = [] \<longrightarrow> ob_pending_bytes b = 0)"
proof -
  have inv: "outbox_inv n m b rs" by (rule outbox_reach_inv [OF assms])
  then have "sum_mset (ob_reserved b) = sum_list (map rf_size rs)" "size (ob_reserved b) = length rs"
    by (simp_all add: outbox_inv_def sum_mset_sum_list [symmetric])
  then show ?thesis using inv by (simp add: outbox_inv_def outbox_ok_def)
qed

theorem outbox_within_budget_witness:
  "\<exists>b. send_frame demo_crates (table_json [JoinOk]) JoinOk (outbox_new 1 9) = Some (True, b)
     \<and> ob_pending_bytes b = 2 \<and> length (ob_queue b) \<le> 1"
proof -
  have e: "encode_frame demo_crates (table_json [JoinOk]) JoinOk = Inr [2, 10]"
    by (simp add: encode_frame_def encode_json_def table_json_def ensure_size_def MAX_FRAME_BYTES_def)
  let ?b = "snd (try_frame [2, 10] (outbox_new 1 9))"
  have s: "send_frame demo_crates (table_json [JoinOk]) JoinOk (outbox_new 1 9) = Some (True, ?b)"
    using e by (simp add: send_frame_def try_frame_def outbox_new_def has_slot_def)
  have "ob_queue ?b = [OutFrame [2, 10]]" by (simp add: try_frame_def outbox_new_def has_slot_def)
  then show ?thesis using outbox_within_budget [OF reach_send [OF reach_new s]] s by auto
qed

end
