(* ===== verification/Mailbox_Sink.thy ===== *)
theory Mailbox_Sink
  imports Prelude
begin

text \<open>
  The seam between room actors and mailbox persistence: the trait \<open>MailboxSink\<close> of
  crates/server/src/mailbox.rs with its no-op implementation.

  The trait is a record of functions on the state of the sink; the clock is an argument where the
  implementation reads it. The locale \<open>mailbox_laws\<close> is what a room actor may rely on: a sink
  replays at most one clip per room, for one recipient, and after a clip was handed over it replays
  that clip or nothing.
\<close>

record pending_clip =
  pc_origin_device :: string
  pc_ciphertext_b64 :: string

record 'm mailbox_sink =
  clip_pending :: "int \<Rightarrow> string \<Rightarrow> string \<Rightarrow> pending_clip \<Rightarrow> 'm \<Rightarrow> 'm"
  clip_consumed :: "string \<Rightarrow> string \<Rightarrow> 'm \<Rightarrow> 'm"
  load_pending :: "int \<Rightarrow> string \<Rightarrow> 'm \<Rightarrow> (string \<times> pending_clip) list"
  health_probe :: "'m \<Rightarrow> bool option"

definition noop_sink :: "unit mailbox_sink" where
  "noop_sink = \<lparr>clip_pending = (\<lambda>_ _ _ _ m. m), clip_consumed = (\<lambda>_ _ m. m),
     load_pending = (\<lambda>_ _ _. []), health_probe = (\<lambda>_. None)\<rparr>"

locale mailbox_laws =
  fixes S :: "'m mailbox_sink" and inv :: "'m \<Rightarrow> bool"
  assumes pending_inv: "inv m \<Longrightarrow> inv (clip_pending S now room fp clip m)"
    and consumed_inv: "inv m \<Longrightarrow> inv (clip_consumed S room fp m)"
    and consumed_load: "inv m \<Longrightarrow> load_pending S now room' (clip_consumed S room fp m) = load_pending S now room' m"
    and load_one: "inv m \<Longrightarrow> length (load_pending S now room m) \<le> 1"
    and pending_load: "inv m \<Longrightarrow> set (load_pending S now' room (clip_pending S now room fp clip m)) \<subseteq> {(fp, clip)}"
    and pending_other: "inv m \<Longrightarrow> room' \<noteq> room
      \<Longrightarrow> load_pending S now' room' (clip_pending S now room fp clip m) = load_pending S now' room' m"
begin

lemma load_distinct: "inv m \<Longrightarrow> distinct (map fst (load_pending S now room m))"
  using load_one [of m now room] by (cases "load_pending S now room m") auto

text \<open>Handing over a sequence of clips for rooms: what one room replays is its last clip.\<close>

lemma pending_load_last:
  assumes "inv m"
  shows "set (load_pending S now' room (fold (\<lambda>(now, r, fp, clip). clip_pending S now r fp clip) cs m))
    \<subseteq> (case rev (filter (\<lambda>(now, r, fp, clip). r = room) cs) of
         [] \<Rightarrow> set (load_pending S now' room m) | (now, r, fp, clip) # _ \<Rightarrow> {(fp, clip)})"
  using assms
proof (induction cs rule: rev_induct)
  case (snoc c cs)
  obtain now r fp clip where c: "c = (now, r, fp, clip)" by (cases c)
  let ?m = "fold (\<lambda>(now, r, fp, clip). clip_pending S now r fp clip) cs m"
  have inv: "inv ?m" using snoc.prems by (induction cs rule: rev_induct) (auto simp: pending_inv)
  show ?case
  proof (cases "r = room")
    case True
    then show ?thesis using pending_load [OF inv, of now' room now fp clip] c by simp
  next
    case False
    then show ?thesis using pending_other [OF inv, of room r now' now fp clip] snoc c by simp
  qed
qed simp

end

interpretation noop: mailbox_laws noop_sink "\<lambda>_. True"
  by unfold_locales (simp_all add: noop_sink_def)

end
