(* ===== verification/Room.thy ===== *)
theory Room
  imports Registry Outbox Mailbox_Sink Config
begin

text \<open>
  Room routing of crates/server/src/room.rs: the actor of one room and the table of rooms.

  An actor's turn takes the actor and its surroundings (\<open>room_env\<close>: all outboxes, the
  registry and the mailbox sink, whose implementations are the fields of \<open>relay_ops\<close>) and
  returns both. A turn can panic, because frames are encoded with \<open>expect\<close>: the result
  \<open>Inl env\<close> is a panic that leaves \<open>env\<close> (reservations are released by unwinding).
  The clock and the failing step of the activation write come with the turn (\<open>room_input\<close>).

  The table of rooms maps a room id to the address of a slot: the bounded inbox and the actor
  behind it. Senders append to the inbox; \<open>actor_turn\<close> takes the oldest event. An actor that
  returns or panics closes its inbox and drops what is queued. The test gates and the event log of
  the source are scheduling hooks and have no counterpart.
\<close>

section \<open>The actor\<close>

datatype room_event =
    RoomJoin string string u64 outbox_handle      \<comment> \<open>fp, device\_id, connection\_id, outbox\<close>
  | RoomClip string u64 string nat                \<comment> \<open>sender\_fp, connection\_id, ciphertext\_b64, encoded\_size\<close>
  | RoomDisconnect string u64                     \<comment> \<open>fp, connection\_id\<close>

fun payload_size :: "room_event \<Rightarrow> nat" where
  "payload_size (RoomClip _ _ _ encoded_size) = encoded_size"
| "payload_size _ = 0"

record online_member =
  om_connection_id :: u64
  om_outbox :: outbox_handle

record room_actor =
  ra_room_id :: string
  ra_member_fps :: "string list"
  ra_online :: "(string \<times> online_member) list"
  ra_pending :: "string \<rightharpoonup> pending_clip"

record ('r, 'm) room_env =
  rv_outboxes :: outboxes
  rv_registry :: 'r
  rv_mailbox :: 'm

record ('r, 'm) relay_ops =
  ro_crates :: crates
  ro_frames :: "frame json"
  ro_registry :: "'r registry_ops"
  ro_sink :: "'m mailbox_sink"

record room_input =
  rn_now_ms :: int
  rn_fault :: "write_step option"

type_synonym ('r, 'm, 'a) turn = "('r, 'm) room_env + 'a \<times> ('r, 'm) room_env"

definition upd_outbox :: "outbox_handle \<Rightarrow> (outbox \<Rightarrow> outbox) \<Rightarrow> ('r, 'm) room_env \<Rightarrow> ('r, 'm) room_env" where
  "upd_outbox h f e = e\<lparr>rv_outboxes := (rv_outboxes e)(h := f (rv_outboxes e h))\<rparr>"

text \<open>The outbox calls of the actor, on a handle.\<close>

definition room_send :: "('r, 'm) relay_ops \<Rightarrow> outbox_handle \<Rightarrow> frame \<Rightarrow> ('r, 'm) room_env \<Rightarrow> ('r, 'm, bool) turn" where
  "room_send ops h f e =
     (case send_frame (ro_crates ops) (ro_frames ops) f (rv_outboxes e h) of
        None \<Rightarrow> Inl e | Some (sent, b) \<Rightarrow> Inr (sent, upd_outbox h (\<lambda>_. b) e))"

definition room_reserve ::
  "('r, 'm) relay_ops \<Rightarrow> outbox_handle \<Rightarrow> frame \<Rightarrow> ('r, 'm) room_env \<Rightarrow> ('r, 'm, reserved_frame option) turn" where
  "room_reserve ops h f e =
     (case try_reserve_frame (ro_crates ops) (ro_frames ops) f (rv_outboxes e h) of
        None \<Rightarrow> Inl e | Some (r, b) \<Rightarrow> Inr (r, upd_outbox h (\<lambda>_. b) e))"

definition room_error_and_close ::
  "('r, 'm) relay_ops \<Rightarrow> outbox_handle \<Rightarrow> string \<Rightarrow> string \<Rightarrow> ('r, 'm) room_env \<Rightarrow> ('r, 'm, unit) turn" where
  "room_error_and_close ops h code message e =
     (case error_and_close (ro_crates ops) (ro_frames ops) code message (rv_outboxes e h) of
        None \<Rightarrow> Inl e | Some b \<Rightarrow> Inr ((), upd_outbox h (\<lambda>_. b) e))"

text \<open>A new join closes the connection the fingerprint had before.\<close>

definition replace_old :: "string \<Rightarrow> room_actor \<Rightarrow> ('r, 'm) room_env \<Rightarrow> room_actor \<times> ('r, 'm) room_env" where
  "replace_old fp a e =
     (case map_of (ra_online a) fp of
        Some old \<Rightarrow> (a\<lparr>ra_online := AList.delete fp (ra_online a)\<rparr>, upd_outbox (om_outbox old) close_outbox e)
      | None \<Rightarrow> (a, e))"

text \<open>The bootstrap frame: the pending clip, taken out of the in-memory mailbox, or an empty
  mark.\<close>

definition take_bootstrap ::
  "('r, 'm) relay_ops \<Rightarrow> string \<Rightarrow> room_actor \<Rightarrow> ('r, 'm) room_env \<Rightarrow> frame \<times> room_actor \<times> ('r, 'm) room_env" where
  "take_bootstrap ops fp a e =
     (case ra_pending a fp of
        Some clip \<Rightarrow> (Clip (ra_room_id a) (pc_ciphertext_b64 clip) (pc_origin_device clip) True,
                     a\<lparr>ra_pending := (ra_pending a)(fp := None)\<rparr>,
                     e\<lparr>rv_mailbox := clip_consumed (ro_sink ops) (ra_room_id a) fp (rv_mailbox e)\<rparr>)
      | None \<Rightarrow> (MailboxEmpty, a, e))"

definition on_join ::
  "('r, 'm) relay_ops \<Rightarrow> room_input \<Rightarrow> string \<Rightarrow> string \<Rightarrow> u64 \<Rightarrow> outbox_handle \<Rightarrow> room_actor \<Rightarrow> ('r, 'm) room_env
   \<Rightarrow> ('r, 'm, room_actor) turn" where
  "on_join ops inp fp device_id connection_id h a e =
     (case replace_old fp a e of (a, e) \<Rightarrow>
      case take_bootstrap ops fp a e of (bootstrap, a, e) \<Rightarrow>
      (case room_reserve ops h JoinOk e of
         Inl e \<Rightarrow> Inl e
       | Inr (None, e) \<Rightarrow> Inr (a, e)
       | Inr (Some join_ok, e) \<Rightarrow>
         (case room_reserve ops h bootstrap e of
            Inl e \<Rightarrow> Inl (upd_outbox h (drop_reserved join_ok) e)
          | Inr (None, e) \<Rightarrow> Inr (a, upd_outbox h (drop_reserved join_ok) e)
          | Inr (Some bootstrap, e) \<Rightarrow>
            (case activate_on_first_join (ro_registry ops) (rn_fault inp) (ra_room_id a) fp (rn_now_ms inp) (rv_registry e) of
               (Inl _, reg) \<Rightarrow>
                 (let e = e\<lparr>rv_registry := reg\<rparr>;
                      e = upd_outbox h (drop_reserved join_ok) e;
                      e = upd_outbox h (drop_reserved bootstrap) e in
                  case room_error_and_close ops h ''registry_failed'' ''room activation could not be persisted'' e of
                    Inl e \<Rightarrow> Inl e | Inr (_, e) \<Rightarrow> Inr (a, e))
             | (Inr _, reg) \<Rightarrow>
                 (let e = e\<lparr>rv_registry := reg\<rparr>;
                      e = upd_outbox h (send_reserved join_ok) e;
                      e = upd_outbox h (send_reserved bootstrap) e in
                  Inr (a\<lparr>ra_online := AList.update fp \<lparr>om_connection_id = connection_id, om_outbox = h\<rparr> (ra_online a)\<rparr>,
                       e))))))"

text \<open>The body of the loop of \<open>on_clip\<close>, for one recipient, and the loop over the members.\<close>

definition route_one ::
  "('r, 'm) relay_ops \<Rightarrow> room_input \<Rightarrow> string \<Rightarrow> string \<Rightarrow> string \<Rightarrow> room_actor \<Rightarrow> ('r, 'm) room_env
   \<Rightarrow> ('r, 'm, room_actor) turn" where
  "route_one ops inp sender_fp ciphertext recipient a e =
     (if recipient = sender_fp then Inr (a, e)
      else case map_of (ra_online a) recipient of
        Some member \<Rightarrow>
          (case room_send ops (om_outbox member) (Clip (ra_room_id a) ciphertext sender_fp False) e of
             Inl e \<Rightarrow> Inl e
           | Inr (True, e) \<Rightarrow> Inr (a, e)
           | Inr (False, e) \<Rightarrow>
               (case room_send ops (om_outbox member) (Error ''outbox_overflow'' ''outbound queue exceeded'') e of
                  Inl e \<Rightarrow> Inl e
                | Inr (_, e) \<Rightarrow> Inr (a\<lparr>ra_online := AList.delete recipient (ra_online a)\<rparr>,
                                    upd_outbox (om_outbox member) close_outbox e)))
      | None \<Rightarrow>
          (let pending = \<lparr>pc_origin_device = sender_fp, pc_ciphertext_b64 = ciphertext\<rparr> in
           Inr (a\<lparr>ra_pending := (ra_pending a)(recipient \<mapsto> pending)\<rparr>,
                e\<lparr>rv_mailbox := clip_pending (ro_sink ops) (rn_now_ms inp) (ra_room_id a) recipient pending (rv_mailbox e)\<rparr>)))"

fun route_clip ::
  "('r, 'm) relay_ops \<Rightarrow> room_input \<Rightarrow> string \<Rightarrow> string \<Rightarrow> string list \<Rightarrow> room_actor \<Rightarrow> ('r, 'm) room_env
   \<Rightarrow> ('r, 'm, room_actor) turn" where
  "route_clip ops inp sender_fp ciphertext [] a e = Inr (a, e)"
| "route_clip ops inp sender_fp ciphertext (recipient # rs) a e =
     (case route_one ops inp sender_fp ciphertext recipient a e of
        Inl e \<Rightarrow> Inl e | Inr (a, e) \<Rightarrow> route_clip ops inp sender_fp ciphertext rs a e)"

definition on_clip ::
  "('r, 'm) relay_ops \<Rightarrow> room_input \<Rightarrow> string \<Rightarrow> u64 \<Rightarrow> string \<Rightarrow> room_actor \<Rightarrow> ('r, 'm) room_env
   \<Rightarrow> ('r, 'm, room_actor) turn" where
  "on_clip ops inp sender_fp connection_id ciphertext a e =
     (case map_of (ra_online a) sender_fp of
        None \<Rightarrow> Inr (a, e)
      | Some sender \<Rightarrow>
          (if om_connection_id sender \<noteq> connection_id then Inr (a, e)
           else route_clip ops inp sender_fp ciphertext (ra_member_fps a) a e))"

definition on_disconnect :: "string \<Rightarrow> u64 \<Rightarrow> room_actor \<Rightarrow> room_actor" where
  "on_disconnect fp connection_id a =
     (case map_of (ra_online a) fp of
        Some member \<Rightarrow> if om_connection_id member = connection_id
                       then a\<lparr>ra_online := AList.delete fp (ra_online a)\<rparr> else a
      | None \<Rightarrow> a)"

text \<open>One iteration of \<open>run\<close>: the flag tells that the actor returns.\<close>

fun run_event ::
  "('r, 'm) relay_ops \<Rightarrow> room_input \<Rightarrow> room_event \<Rightarrow> room_actor \<Rightarrow> ('r, 'm) room_env
   \<Rightarrow> ('r, 'm, bool \<times> room_actor) turn" where
  "run_event ops inp (RoomJoin fp device_id connection_id h) a e =
     (case on_join ops inp fp device_id connection_id h a e of Inl e \<Rightarrow> Inl e | Inr (a, e) \<Rightarrow> Inr ((False, a), e))"
| "run_event ops inp (RoomClip sender_fp connection_id ciphertext _) a e =
     (case on_clip ops inp sender_fp connection_id ciphertext a e of Inl e \<Rightarrow> Inl e | Inr (a, e) \<Rightarrow> Inr ((False, a), e))"
| "run_event ops inp (RoomDisconnect fp connection_id) a e =
     (let a = on_disconnect fp connection_id a in Inr ((ra_online a = [], a), e))"

section \<open>The table of rooms\<close>

record room_slot =
  sl_inbox :: "room_event list"
  sl_pending_bytes :: nat
  sl_open :: bool
  sl_actor :: room_actor

record ('r, 'm) rooms_state =
  rs_map :: "string \<rightharpoonup> nat"
  rs_slots :: "nat \<Rightarrow> room_slot"
  rs_next :: nat
  rs_env :: "('r, 'm) room_env"

definition upd_slot :: "nat \<Rightarrow> room_slot \<Rightarrow> ('r, 'm) rooms_state \<Rightarrow> ('r, 'm) rooms_state" where
  "upd_slot i sl s = s\<lparr>rs_slots := (rs_slots s)(i := sl)\<rparr>"

text \<open>\<open>RoomHandle::try_send\<close>.\<close>

definition inbox_try_send :: "limits \<Rightarrow> room_event \<Rightarrow> room_slot \<Rightarrow> bool \<times> room_slot" where
  "inbox_try_send l ev sl =
     (let n = payload_size ev in
      if sl_pending_bytes sl + n > li_inbox_max_bytes l then (False, sl)
      else if \<not> sl_open sl \<or> length (sl_inbox sl) \<ge> li_inbox_max_events l then (False, sl)
      else (True, sl\<lparr>sl_inbox := sl_inbox sl @ [ev], sl_pending_bytes := sl_pending_bytes sl + n\<rparr>))"

definition rooms_spawn ::
  "('r, 'm) relay_ops \<Rightarrow> int \<Rightarrow> string \<Rightarrow> string list \<Rightarrow> ('r, 'm) rooms_state \<Rightarrow> nat \<times> ('r, 'm) rooms_state" where
  "rooms_spawn ops now_ms room member_fps s =
     (let i = rs_next s;
          actor = \<lparr>ra_room_id = room, ra_member_fps = member_fps, ra_online = [],
             ra_pending = map_of (rev (load_pending (ro_sink ops) now_ms room (rv_mailbox (rs_env s))))\<rparr> in
      (i, upd_slot i \<lparr>sl_inbox = [], sl_pending_bytes = 0, sl_open = True, sl_actor = actor\<rparr> (s\<lparr>rs_next := Suc i\<rparr>)))"

text \<open>\<open>entry(..).or_insert_with(spawn)\<close>.\<close>

definition room_entry ::
  "('r, 'm) relay_ops \<Rightarrow> int \<Rightarrow> string \<Rightarrow> string list \<Rightarrow> ('r, 'm) rooms_state \<Rightarrow> nat \<times> ('r, 'm) rooms_state" where
  "room_entry ops now_ms room member_fps s =
     (case rs_map s room of
        Some i \<Rightarrow> (i, s)
      | None \<Rightarrow> (case rooms_spawn ops now_ms room member_fps s of (i, s) \<Rightarrow> (i, s\<lparr>rs_map := (rs_map s)(room \<mapsto> i)\<rparr>)))"

text \<open>\<open>remove_if\<close> with \<open>same_actor\<close>.\<close>

definition remove_if_same :: "string \<Rightarrow> nat \<Rightarrow> ('r, 'm) rooms_state \<Rightarrow> ('r, 'm) rooms_state" where
  "remove_if_same room i s = (if rs_map s room = Some i then s\<lparr>rs_map := (rs_map s)(room := None)\<rparr> else s)"

text \<open>The two attempts of \<open>join\<close>.\<close>

fun join_attempts ::
  "nat \<Rightarrow> limits \<Rightarrow> ('r, 'm) relay_ops \<Rightarrow> int \<Rightarrow> string \<Rightarrow> string list \<Rightarrow> room_event \<Rightarrow> ('r, 'm) rooms_state
   \<Rightarrow> bool \<times> ('r, 'm) rooms_state" where
  "join_attempts 0 l ops now_ms room member_fps ev s = (False, s)"
| "join_attempts (Suc n) l ops now_ms room member_fps ev s =
     (case room_entry ops now_ms room member_fps s of (i, s) \<Rightarrow>
      case inbox_try_send l ev (rs_slots s i) of
        (True, sl) \<Rightarrow> (True, upd_slot i sl s)
      | (False, _) \<Rightarrow>
          (if \<not> sl_open (rs_slots s i)
           then join_attempts n l ops now_ms room member_fps ev (remove_if_same room i s)
           else (False, s)))"

definition rooms_join ::
  "limits \<Rightarrow> ('r, 'm) relay_ops \<Rightarrow> int \<Rightarrow> string \<Rightarrow> string list \<Rightarrow> string \<Rightarrow> string \<Rightarrow> u64 \<Rightarrow> outbox_handle
   \<Rightarrow> ('r, 'm) rooms_state \<Rightarrow> bool \<times> ('r, 'm) rooms_state" where
  "rooms_join l ops now_ms room member_fps fp device_id connection_id h s =
     join_attempts 2 l ops now_ms room member_fps (RoomJoin fp device_id connection_id h) s"

definition rooms_clip ::
  "limits \<Rightarrow> string \<Rightarrow> string \<Rightarrow> u64 \<Rightarrow> string \<Rightarrow> nat \<Rightarrow> ('r, 'm) rooms_state \<Rightarrow> bool \<times> ('r, 'm) rooms_state" where
  "rooms_clip l room sender_fp connection_id ciphertext encoded_size s =
     (case rs_map s room of
        None \<Rightarrow> (False, s)
      | Some i \<Rightarrow>
          (case inbox_try_send l (RoomClip sender_fp connection_id ciphertext encoded_size) (rs_slots s i) of
             (ok, sl) \<Rightarrow> (ok, upd_slot i sl s)))"

definition rooms_disconnect ::
  "limits \<Rightarrow> string \<Rightarrow> string \<Rightarrow> u64 \<Rightarrow> ('r, 'm) rooms_state \<Rightarrow> ('r, 'm) rooms_state" where
  "rooms_disconnect l room fp connection_id s =
     (case rs_map s room of
        None \<Rightarrow> s
      | Some i \<Rightarrow> upd_slot i (snd (inbox_try_send l (RoomDisconnect fp connection_id) (rs_slots s i))) s)"

text \<open>The actor behind slot \<open>i\<close> takes its oldest event. When it returns it removes its own
  table entry; when it panics the entry stays. Either way the receiver is dropped with the events
  still queued.\<close>

definition stopped :: "room_slot \<Rightarrow> room_slot" where
  "stopped sl = sl\<lparr>sl_open := False, sl_inbox := []\<rparr>"

definition actor_turn :: "('r, 'm) relay_ops \<Rightarrow> room_input \<Rightarrow> nat \<Rightarrow> ('r, 'm) rooms_state \<Rightarrow> ('r, 'm) rooms_state" where
  "actor_turn ops inp i s =
     (let sl = rs_slots s i in
      case sl_inbox sl of
        [] \<Rightarrow> s
      | ev # rest \<Rightarrow>
          (if \<not> sl_open sl then s
           else let sl = sl\<lparr>sl_inbox := rest, sl_pending_bytes := sl_pending_bytes sl - payload_size ev\<rparr> in
             case run_event ops inp ev (sl_actor sl) (rs_env s) of
               Inl e \<Rightarrow> upd_slot i (stopped sl) (s\<lparr>rs_env := e\<rparr>)
             | Inr ((returns, a), e) \<Rightarrow>
                 (if returns
                  then remove_if_same (ra_room_id a) i (upd_slot i (stopped (sl\<lparr>sl_actor := a\<rparr>)) (s\<lparr>rs_env := e\<rparr>))
                  else upd_slot i (sl\<lparr>sl_actor := a\<rparr>) (s\<lparr>rs_env := e\<rparr>))))"

section \<open>Facts\<close>

lemma upd_outbox_simps [simp]:
  "rv_outboxes (upd_outbox h f e) = (rv_outboxes e)(h := f (rv_outboxes e h))"
  "rv_registry (upd_outbox h f e) = rv_registry e" "rv_mailbox (upd_outbox h f e) = rv_mailbox e"
  by (simp_all add: upd_outbox_def)

lemma upd_outbox_upd [simp]: "upd_outbox h f (upd_outbox h g e) = upd_outbox h (f \<circ> g) e"
  by (simp add: upd_outbox_def)

lemma upd_outbox_const_same: "upd_outbox h (\<lambda>_. rv_outboxes e h) e = e"
  by (simp add: upd_outbox_def)

lemma upd_outbox_registry: "(upd_outbox h f e)\<lparr>rv_registry := r\<rparr> = upd_outbox h f (e\<lparr>rv_registry := r\<rparr>)"
  by (simp add: upd_outbox_def)

lemma room_reserve_cases:
  assumes "room_reserve ops h f e = Inr (q, e')"
  obtains (refused) "q = None" "e' = e"
  | (reserved) encoded where "encode_frame (ro_crates ops) (ro_frames ops) f = Inr encoded"
      "q = Some \<lparr>rf_encoded = encoded, rf_size = length encoded\<rparr>"
      "e' = upd_outbox h (\<lambda>b. b\<lparr>ob_pending_bytes := ob_pending_bytes b + length encoded,
              ob_reserved := add_mset (length encoded) (ob_reserved b)\<rparr>) e"
proof -
  from assms obtain b where b: "try_reserve_frame (ro_crates ops) (ro_frames ops) f (rv_outboxes e h) = Some (q, b)"
    "e' = upd_outbox h (\<lambda>_. b) e" by (auto simp: room_reserve_def split: option.splits)
  from b(1) show thesis
  proof (cases rule: try_reserve_cases)
    case refused
    then show thesis using that(1) b(2) by (simp add: upd_outbox_const_same)
  next
    case (reserved encoded)
    then show thesis using that(2) [of encoded] b(2) by (simp add: upd_outbox_def)
  qed
qed

lemma reserve_two:
  assumes "room_reserve ops h f e = Inr (Some r, e')" "room_reserve ops h g e' = Inr (Some q, e'')"
  obtains x y where "encode_frame (ro_crates ops) (ro_frames ops) f = Inr x"
    "encode_frame (ro_crates ops) (ro_frames ops) g = Inr y"
    "\<And>reg. upd_outbox h (drop_reserved q) (upd_outbox h (drop_reserved r) (e''\<lparr>rv_registry := reg\<rparr>)) = e\<lparr>rv_registry := reg\<rparr>"
    "\<And>reg. upd_outbox h (send_reserved q) (upd_outbox h (send_reserved r) (e''\<lparr>rv_registry := reg\<rparr>))
      = upd_outbox h (enqueue_two x y) (e\<lparr>rv_registry := reg\<rparr>)"
proof -
  from assms(1) obtain x where x: "encode_frame (ro_crates ops) (ro_frames ops) f = Inr x"
    "r = \<lparr>rf_encoded = x, rf_size = length x\<rparr>"
    "e' = upd_outbox h (\<lambda>b. b\<lparr>ob_pending_bytes := ob_pending_bytes b + length x,
              ob_reserved := add_mset (length x) (ob_reserved b)\<rparr>) e" by (cases rule: room_reserve_cases) auto
  from assms(2) obtain y where y: "encode_frame (ro_crates ops) (ro_frames ops) g = Inr y"
    "q = \<lparr>rf_encoded = y, rf_size = length y\<rparr>"
    "e'' = upd_outbox h (\<lambda>b. b\<lparr>ob_pending_bytes := ob_pending_bytes b + length y,
              ob_reserved := add_mset (length y) (ob_reserved b)\<rparr>) e'" by (cases rule: room_reserve_cases) auto
  show thesis
    by (rule that [OF x(1) y(1)])
       (simp_all add: x(2,3) y(2,3) upd_outbox_def drop_reserved_def send_reserved_def enqueue_two_def add.assoc)
qed

lemma reserve_one_drop:
  assumes "room_reserve ops h f e = Inr (Some r, e')" shows "upd_outbox h (drop_reserved r) e' = e"
  using assms by (cases rule: room_reserve_cases) (auto simp: upd_outbox_def drop_reserved_def)

lemma room_reserve_None: "room_reserve ops h f e = Inr (None, e') \<Longrightarrow> e' = e"
  by (auto elim: room_reserve_cases)

text \<open>The first two steps of a join, and its four outcomes.\<close>

definition join_prepared ::
  "('r, 'm) relay_ops \<Rightarrow> string \<Rightarrow> room_actor \<Rightarrow> ('r, 'm) room_env \<Rightarrow> frame \<times> room_actor \<times> ('r, 'm) room_env" where
  "join_prepared ops fp a e = (case replace_old fp a e of (a, e) \<Rightarrow> take_bootstrap ops fp a e)"

lemma on_join_cases:
  assumes run: "on_join ops inp fp dev c h a e = r" and prep: "join_prepared ops fp a e = (boot, a2, e2)"
  obtains (panicked) e' where "r = Inl e'"
  | (refused) "r = Inr (a2, e2)"
  | (failed) err reg b where
      "activate_on_first_join (ro_registry ops) (rn_fault inp) (ra_room_id a2) fp (rn_now_ms inp) (rv_registry e2) = (Inl err, reg)"
      "error_and_close (ro_crates ops) (ro_frames ops) ''registry_failed'' ''room activation could not be persisted''
         (rv_outboxes e2 h) = Some b"
      "r = Inr (a2, upd_outbox h (\<lambda>_. b) (e2\<lparr>rv_registry := reg\<rparr>))"
  | (joined) new reg x y where
      "activate_on_first_join (ro_registry ops) (rn_fault inp) (ra_room_id a2) fp (rn_now_ms inp) (rv_registry e2) = (Inr new, reg)"
      "encode_frame (ro_crates ops) (ro_frames ops) JoinOk = Inr x"
      "encode_frame (ro_crates ops) (ro_frames ops) boot = Inr y"
      "r = Inr (a2\<lparr>ra_online := AList.update fp \<lparr>om_connection_id = c, om_outbox = h\<rparr> (ra_online a2)\<rparr>,
                upd_outbox h (enqueue_two x y) (e2\<lparr>rv_registry := reg\<rparr>))"
proof -
  have "\<exists>a1 e1. replace_old fp a e = (a1, e1) \<and> take_bootstrap ops fp a1 e1 = (boot, a2, e2)"
    using prep by (auto simp: join_prepared_def split: prod.splits)
  then obtain a1 e1 where p: "replace_old fp a e = (a1, e1)" "take_bootstrap ops fp a1 e1 = (boot, a2, e2)" by blast
  note run = run [unfolded on_join_def p prod.case, symmetric]
  consider (panic) e' where "room_reserve ops h JoinOk e2 = Inl e'"
    | (none) "room_reserve ops h JoinOk e2 = Inr (None, e2)"
    | (one) q e3 where "room_reserve ops h JoinOk e2 = Inr (Some q, e3)"
    using room_reserve_None by (metis obj_sumE option.exhaust surj_pair)
  then show thesis
  proof cases
    case (one q e3)
    consider (panic) e' where "room_reserve ops h boot e3 = Inl e'"
      | (none) "room_reserve ops h boot e3 = Inr (None, e3)"
      | (two) q2 e4 where "room_reserve ops h boot e3 = Inr (Some q2, e4)"
      using room_reserve_None by (metis obj_sumE option.exhaust surj_pair)
    then show thesis
    proof cases
      case (two q2 e4)
      from reserve_two [OF one two] obtain x y where xy: "encode_frame (ro_crates ops) (ro_frames ops) JoinOk = Inr x"
        "encode_frame (ro_crates ops) (ro_frames ops) boot = Inr y"
        "\<And>reg. upd_outbox h (drop_reserved q2) (upd_outbox h (drop_reserved q) (e4\<lparr>rv_registry := reg\<rparr>)) = e2\<lparr>rv_registry := reg\<rparr>"
        "\<And>reg. upd_outbox h (send_reserved q2) (upd_outbox h (send_reserved q) (e4\<lparr>rv_registry := reg\<rparr>))
          = upd_outbox h (enqueue_two x y) (e2\<lparr>rv_registry := reg\<rparr>)" by blast
      have reg: "rv_registry e4 = rv_registry e2"
        using one two by (auto simp: room_reserve_def split: option.splits)
      obtain res r' where act: "activate_on_first_join (ro_registry ops) (rn_fault inp) (ra_room_id a2) fp (rn_now_ms inp)
          (rv_registry e2) = (res, r')" by fastforce
      note run = run [unfolded one two reg act Let_def xy(3,4) sum.case option.case prod.case]
      show thesis
      proof (cases res)
        case (Inl err)
        note run = run [unfolded Inl sum.case xy(3,4)]
        show thesis
        proof (cases "error_and_close (ro_crates ops) (ro_frames ops) ''registry_failed''
            ''room activation could not be persisted'' (rv_outboxes e2 h)")
          case None
          then show thesis using run that(1) by (simp add: room_error_and_close_def)
        next
          case (Some b)
          then show thesis using run act Inl that(3) by (simp add: room_error_and_close_def)
        qed
      next
        case (Inr new)
        then show thesis using run [unfolded Inr sum.case xy(3,4)] act that(4) [OF _ xy(1,2)] by simp
      qed
    qed (use one run reserve_one_drop [OF one] that(1,2) in simp_all)
  qed (use run that(1,2) in simp_all)
qed

lemma join_prepared_facts:
  assumes "join_prepared ops fp a e = (boot, a2, e2)"
  shows "boot = (case ra_pending a fp of Some clip \<Rightarrow> Clip (ra_room_id a) (pc_ciphertext_b64 clip) (pc_origin_device clip) True
           | None \<Rightarrow> MailboxEmpty)"
    and "ra_room_id a2 = ra_room_id a" "ra_member_fps a2 = ra_member_fps a"
    and "ra_online a2 = AList.delete fp (ra_online a)" "ra_pending a2 = (ra_pending a)(fp := None)"
    and "rv_registry e2 = rv_registry e"
    and "rv_outboxes e2 = (case map_of (ra_online a) fp of
           Some old \<Rightarrow> (rv_outboxes e)(om_outbox old := close_outbox (rv_outboxes e (om_outbox old))) | None \<Rightarrow> rv_outboxes e)"
proof -
  have del: "map_of (ra_online a) fp = None \<Longrightarrow> AList.delete fp (ra_online a) = ra_online a"
    by (simp add: map_of_eq_None_iff delete_idem)
  have upd: "ra_pending a fp = None \<Longrightarrow> (ra_pending a)(fp := None) = ra_pending a" by auto
  show "boot = (case ra_pending a fp of Some clip \<Rightarrow> Clip (ra_room_id a) (pc_ciphertext_b64 clip) (pc_origin_device clip) True
           | None \<Rightarrow> MailboxEmpty)" "ra_room_id a2 = ra_room_id a" "ra_member_fps a2 = ra_member_fps a"
    "ra_online a2 = AList.delete fp (ra_online a)" "ra_pending a2 = (ra_pending a)(fp := None)"
    "rv_registry e2 = rv_registry e"
    "rv_outboxes e2 = (case map_of (ra_online a) fp of
           Some old \<Rightarrow> (rv_outboxes e)(om_outbox old := close_outbox (rv_outboxes e (om_outbox old))) | None \<Rightarrow> rv_outboxes e)"
    using assms del upd
    by (auto simp: join_prepared_def replace_old_def take_bootstrap_def split: option.splits prod.splits)
qed

subsection \<open>A member is online or has a pending clip, never both\<close>

definition room_ok :: "room_actor \<Rightarrow> bool" where
  "room_ok a \<longleftrightarrow> distinct (map fst (ra_online a)) \<and> dom (map_of (ra_online a)) \<inter> dom (ra_pending a) = {}"

lemma delete_keys_subset: "set (map fst (AList.delete k al)) \<subseteq> set (map fst al)"
  by (induction al) auto

lemma room_ok_delete:
  "room_ok a \<Longrightarrow> room_ok (a\<lparr>ra_online := AList.delete fp (ra_online a)\<rparr>)"
  by (auto simp: room_ok_def distinct_delete map_of_delete split: if_splits)

lemma on_join_room_ok:
  assumes ok: "room_ok a" and run: "on_join ops inp fp dev c h a e = Inr (a', e')"
  shows "room_ok a' \<and> ra_room_id a' = ra_room_id a \<and> ra_member_fps a' = ra_member_fps a
    \<and> set (map fst (ra_online a')) \<subseteq> insert fp (set (map fst (ra_online a)))"
proof -
  obtain boot a2 e2 where prep: "join_prepared ops fp a e = (boot, a2, e2)" by (metis prod_cases3)
  note f = join_prepared_facts [OF prep]
  have d: "map_of (ra_online a2) = (map_of (ra_online a))(fp := None)" by (simp add: f map_of_delete)
  have ok2: "room_ok a2" using ok by (auto simp: room_ok_def f map_of_delete distinct_delete split: if_splits)
  have sub: "set (map fst (ra_online a2)) \<subseteq> set (map fst (ra_online a))"
    unfolding f(4) by (metis order_refl delete_keys_subset)
  from run prep show ?thesis
  proof (cases rule: on_join_cases)
    case (joined new reg x y)
    let ?m = "\<lparr>om_connection_id = c, om_outbox = h\<rparr>"
    have "room_ok (a2\<lparr>ra_online := AList.update fp ?m (ra_online a2)\<rparr>)"
      using ok2 f(5) by (auto simp: room_ok_def map_of_update distinct_update split: if_splits)
    moreover have "set (map fst (AList.update fp ?m (ra_online a2))) \<subseteq> insert fp (set (map fst (ra_online a)))"
      using sub by (auto simp: dom_map_of_conv_image_fst [symmetric] map_of_update split: if_splits)
    ultimately show ?thesis using joined(4) f by simp
  qed (use ok2 f sub in auto)
qed

lemma room_send_cases:
  assumes "room_send ops h f e = Inr (sent, e')"
  obtains (refused) "\<not> sent" "e' = e"
  | (queued) x where "sent" "encode_frame (ro_crates ops) (ro_frames ops) f = Inr x"
      "e' = upd_outbox h (\<lambda>b. b\<lparr>ob_pending_bytes := ob_pending_bytes b + length x, ob_queue := ob_queue b @ [OutFrame x]\<rparr>) e"
proof -
  from assms obtain b where b: "send_frame (ro_crates ops) (ro_frames ops) f (rv_outboxes e h) = Some (sent, b)"
    "e' = upd_outbox h (\<lambda>_. b) e" by (auto simp: room_send_def split: option.splits)
  from b(1) show thesis
  proof (cases rule: send_frame_cases)
    case refused
    then show thesis using that(1) b(2) by (simp add: upd_outbox_const_same)
  next
    case (queued x)
    then show thesis using that(2) [of x] b(2) by (simp add: upd_outbox_def)
  qed
qed

text \<open>One recipient: the sender itself, live delivery, overflow, or the mailbox.\<close>

lemma route_one_cases:
  assumes "route_one ops inp s ct r a e = t"
  obtains (panicked) e' where "t = Inl e'"
  | (sender) "r = s" "t = Inr (a, e)"
  | (live) m x where "r \<noteq> s" "map_of (ra_online a) r = Some m"
      "encode_frame (ro_crates ops) (ro_frames ops) (Clip (ra_room_id a) ct s False) = Inr x"
      "t = Inr (a, upd_outbox (om_outbox m)
         (\<lambda>b. b\<lparr>ob_pending_bytes := ob_pending_bytes b + length x, ob_queue := ob_queue b @ [OutFrame x]\<rparr>) e)"
  | (overflow) m sent e1 where "r \<noteq> s" "map_of (ra_online a) r = Some m"
      "room_send ops (om_outbox m) (Error ''outbox_overflow'' ''outbound queue exceeded'') e = Inr (sent, e1)"
      "t = Inr (a\<lparr>ra_online := AList.delete r (ra_online a)\<rparr>, upd_outbox (om_outbox m) close_outbox e1)"
  | (offline) "r \<noteq> s" "map_of (ra_online a) r = None"
      "t = Inr (a\<lparr>ra_pending := (ra_pending a)(r \<mapsto> \<lparr>pc_origin_device = s, pc_ciphertext_b64 = ct\<rparr>)\<rparr>,
         e\<lparr>rv_mailbox := clip_pending (ro_sink ops) (rn_now_ms inp) (ra_room_id a) r
             \<lparr>pc_origin_device = s, pc_ciphertext_b64 = ct\<rparr> (rv_mailbox e)\<rparr>)"
proof (cases "r = s")
  case True
  then show thesis using assms that(2) by (simp add: route_one_def)
next
  case neq: False
  note run = assms [unfolded route_one_def if_not_P [OF neq], symmetric]
  show thesis
  proof (cases "map_of (ra_online a) r")
    case None
    then show thesis using run neq that(5) by (simp add: Let_def)
  next
    case (Some m)
    note run = run [unfolded Some option.case]
    show thesis
    proof (cases "room_send ops (om_outbox m) (Clip (ra_room_id a) ct s False) e")
      case (Inl e')
      then show thesis using run that(1) by simp
    next
      case (Inr p)
      obtain sent e1 where p: "room_send ops (om_outbox m) (Clip (ra_room_id a) ct s False) e = Inr (sent, e1)"
        using Inr by (cases p) simp
      from p show thesis
      proof (cases rule: room_send_cases)
        case (queued x)
        then show thesis using run p neq Some that(3) by simp
      next
        case refused
        then show thesis using run p neq Some that(1) that(4) [of m]
          by (cases "room_send ops (om_outbox m) (Error ''outbox_overflow'' ''outbound queue exceeded'') e") auto
      qed
    qed
  qed
qed

lemma route_one_room_ok:
  assumes "room_ok a" "route_one ops inp s ct r a e = Inr (a', e')"
  shows "room_ok a' \<and> ra_room_id a' = ra_room_id a \<and> ra_member_fps a' = ra_member_fps a
    \<and> set (map fst (ra_online a')) \<subseteq> set (map fst (ra_online a))"
  using assms(2)
proof (cases rule: route_one_cases)
  case (overflow m sent e1)
  then show ?thesis using room_ok_delete [OF assms(1)] delete_keys_subset [of r "ra_online a"] by simp
next
  case offline
  then show ?thesis using assms(1) by (auto simp: room_ok_def)
qed (use assms(1) in simp_all)

lemma route_clip_room_ok:
  assumes "room_ok a" "route_clip ops inp s ct rs a e = Inr (a', e')"
  shows "room_ok a' \<and> ra_room_id a' = ra_room_id a \<and> ra_member_fps a' = ra_member_fps a
    \<and> set (map fst (ra_online a')) \<subseteq> set (map fst (ra_online a))"
  using assms
proof (induction rs arbitrary: a e)
  case (Cons r rs)
  obtain a1 e1 where one: "route_one ops inp s ct r a e = Inr (a1, e1)" "route_clip ops inp s ct rs a1 e1 = Inr (a', e')"
    using Cons.prems(2) by (auto split: sum.splits)
  note o1 = route_one_room_ok [OF Cons.prems(1) one(1)]
  note o2 = Cons.IH [OF conjunct1 [OF o1] one(2)]
  have "set (map fst (ra_online a')) \<subseteq> set (map fst (ra_online a))"
    using order_trans [of "set (map fst (ra_online a'))" "set (map fst (ra_online a1))"] o1 o2 by blast
  then show ?case using o1 o2 by simp
qed simp

lemma on_disconnect_room_ok:
  assumes "room_ok a"
  shows "room_ok (on_disconnect fp c a) \<and> ra_room_id (on_disconnect fp c a) = ra_room_id a
    \<and> ra_member_fps (on_disconnect fp c a) = ra_member_fps a"
  using assms room_ok_delete [OF assms, of fp] by (simp add: on_disconnect_def split: option.splits)

lemma on_clip_room_ok:
  assumes "room_ok a" "on_clip ops inp s c ct a e = Inr (a', e')"
  shows "room_ok a' \<and> ra_room_id a' = ra_room_id a \<and> ra_member_fps a' = ra_member_fps a"
proof (cases "\<exists>m. map_of (ra_online a) s = Some m \<and> om_connection_id m = c")
  case True
  then have "route_clip ops inp s ct (ra_member_fps a) a e = Inr (a', e')"
    using assms(2) by (auto simp: on_clip_def)
  then show ?thesis using route_clip_room_ok [OF assms(1)] by blast
next
  case False
  then have "a' = a" using assms(2) by (auto simp: on_clip_def split: option.splits if_splits)
  then show ?thesis using assms(1) by simp
qed

lemma run_event_room_ok:
  assumes "room_ok a" "run_event ops inp ev a e = Inr ((ret, a'), e')"
  shows "room_ok a' \<and> ra_room_id a' = ra_room_id a \<and> ra_member_fps a' = ra_member_fps a"
proof (cases ev)
  case (RoomJoin fp dev c h)
  then have "on_join ops inp fp dev c h a e = Inr (a', e')" using assms(2) by (auto split: sum.splits)
  then show ?thesis using on_join_room_ok [OF assms(1)] by blast
next
  case (RoomClip s c ct n)
  then have "on_clip ops inp s c ct a e = Inr (a', e')" using assms(2) by (auto split: sum.splits)
  then show ?thesis using on_clip_room_ok [OF assms(1)] by blast
next
  case (RoomDisconnect fp c)
  then have "a' = on_disconnect fp c a" using assms(2) by (auto simp: Let_def)
  then show ?thesis using on_disconnect_room_ok [OF assms(1)] by simp
qed

text \<open>The actor states that occur: the actor as it is spawned, then turns, between which the
  other tasks of the relay may change outboxes, registry and mailbox in any way.\<close>

inductive room_reach :: "('r, 'm) relay_ops \<Rightarrow> string \<Rightarrow> string list \<Rightarrow> room_actor \<Rightarrow> ('r, 'm) room_env \<Rightarrow> bool"
  for ops room members where
  room_spawned: "room_reach ops room members
    (sl_actor (rs_slots (snd (rooms_spawn ops now room members s)) (fst (rooms_spawn ops now room members s)))) (rs_env s)"
| room_turn: "room_reach ops room members a e \<Longrightarrow> run_event ops inp ev a e = Inr ((ret, a'), e') \<Longrightarrow> room_reach ops room members a' e'"
| room_world: "room_reach ops room members a e \<Longrightarrow> room_reach ops room members a e'"

lemma spawned_actor:
  "sl_actor (rs_slots (snd (rooms_spawn ops now room members s)) (fst (rooms_spawn ops now room members s)))
   = \<lparr>ra_room_id = room, ra_member_fps = members, ra_online = [],
      ra_pending = map_of (rev (load_pending (ro_sink ops) now room (rv_mailbox (rs_env s))))\<rparr>"
  by (simp add: rooms_spawn_def Let_def upd_slot_def)

lemma room_reach_ok:
  "room_reach ops room members a e \<Longrightarrow> room_ok a \<and> ra_room_id a = room \<and> ra_member_fps a = members"
proof (induction rule: room_reach.induct)
  case (room_spawned now s)
  show ?case unfolding spawned_actor by (simp add: room_ok_def)
next
  case (room_turn a e inp ev ret a' e')
  then show ?case using run_event_room_ok by metis
qed

subsection \<open>Where a clip goes\<close>

text \<open>A step for one recipient leaves the other members' entries, and outboxes that are not
  theirs, alone.\<close>

lemma route_one_frame:
  assumes run: "route_one ops inp s ct r a e = Inr (a', e')" and "q \<noteq> r"
  shows "map_of (ra_online a') q = map_of (ra_online a) q \<and> ra_pending a' q = ra_pending a q"
    and "\<forall>m. map_of (ra_online a) r = Some m \<longrightarrow> om_outbox m \<noteq> h \<Longrightarrow> rv_outboxes e' h = rv_outboxes e h"
    and "rv_registry e' = rv_registry e"
proof -
  have "(map_of (ra_online a') q = map_of (ra_online a) q \<and> ra_pending a' q = ra_pending a q)
    \<and> ((\<forall>m. map_of (ra_online a) r = Some m \<longrightarrow> om_outbox m \<noteq> h) \<longrightarrow> rv_outboxes e' h = rv_outboxes e h)
    \<and> rv_registry e' = rv_registry e"
    using run
  proof (cases rule: route_one_cases)
    case (overflow m sent e1)
    from overflow(3) show ?thesis
      by (cases rule: room_send_cases) (use overflow assms(2) in \<open>auto simp: map_of_delete\<close>)
  qed (use assms(2) in auto)
  then show "map_of (ra_online a') q = map_of (ra_online a) q \<and> ra_pending a' q = ra_pending a q"
    "\<forall>m. map_of (ra_online a) r = Some m \<longrightarrow> om_outbox m \<noteq> h \<Longrightarrow> rv_outboxes e' h = rv_outboxes e h"
    "rv_registry e' = rv_registry e" by auto
qed

text \<open>What a recipient gets: the stamped frame at the end of its queue; or, when that does not
  fit, the end of its connection; or, offline, the clip as its only pending one.\<close>

definition clip_outcome ::
  "('r, 'm) relay_ops \<Rightarrow> string \<Rightarrow> string \<Rightarrow> string \<Rightarrow> room_actor \<Rightarrow> ('r, 'm) room_env \<Rightarrow> room_actor \<Rightarrow> ('r, 'm) room_env \<Rightarrow> bool" where
  "clip_outcome ops s ct r a e a' e' =
     (case map_of (ra_online a) r of
        None \<Rightarrow> map_of (ra_online a') r = None \<and> ra_pending a' r = Some \<lparr>pc_origin_device = s, pc_ciphertext_b64 = ct\<rparr>
      | Some m \<Rightarrow>
          (let b = rv_outboxes e (om_outbox m); b' = rv_outboxes e' (om_outbox m) in
           ra_pending a' r = ra_pending a r \<and>
           (map_of (ra_online a') r = Some m
              \<and> (case encode_frame (ro_crates ops) (ro_frames ops) (Clip (ra_room_id a) ct s False) of
                   Inr x \<Rightarrow> ob_queue b' = ob_queue b @ [OutFrame x] | Inl _ \<Rightarrow> False)
            \<or> map_of (ra_online a') r = None \<and> (ob_force_close b' \<or> last (ob_queue b') = OutClose))))"

lemma route_one_outcome:
  assumes ok: "room_ok a" and run: "route_one ops inp s ct r a e = Inr (a', e')" and "r \<noteq> s"
  shows "clip_outcome ops s ct r a e a' e'"
  using run
proof (cases rule: route_one_cases)
  case (overflow m sent e1)
  then show ?thesis using ok by (simp add: clip_outcome_def map_of_delete Let_def close_outbox_def)
qed (use assms(3) in \<open>simp_all add: clip_outcome_def Let_def\<close>)

definition outboxes_apart :: "room_actor \<Rightarrow> bool" where
  "outboxes_apart a \<longleftrightarrow> (\<forall>p q m n. map_of (ra_online a) p = Some m \<and> map_of (ra_online a) q = Some n
     \<and> om_outbox m = om_outbox n \<longrightarrow> p = q)"

lemma route_one_online:
  assumes "route_one ops inp s ct r a e = Inr (a', e')"
  shows "map_of (ra_online a') q = map_of (ra_online a) q \<or> map_of (ra_online a') q = None"
    and "outboxes_apart a \<Longrightarrow> outboxes_apart a'"
proof -
  have sub: "map_of (ra_online a') q = map_of (ra_online a) q \<or> map_of (ra_online a') q = None" for q
    using assms by (cases rule: route_one_cases) (auto simp: map_of_delete)
  from sub [of q] show "map_of (ra_online a') q = map_of (ra_online a) q \<or> map_of (ra_online a') q = None" .
  show "outboxes_apart a'" if "outboxes_apart a"
    unfolding outboxes_apart_def
  proof (intro allI impI, elim conjE)
    fix p q m n
    assume "map_of (ra_online a') p = Some m" "map_of (ra_online a') q = Some n" "om_outbox m = om_outbox n"
    moreover from this have "map_of (ra_online a) p = Some m" "map_of (ra_online a) q = Some n"
      using sub [of p] sub [of q] by auto
    ultimately show "p = q" using that unfolding outboxes_apart_def by blast
  qed
qed

lemma route_clip_frame:
  assumes "route_clip ops inp s ct rs a e = Inr (a', e')" "q \<notin> set rs"
  shows "map_of (ra_online a') q = map_of (ra_online a) q \<and> ra_pending a' q = ra_pending a q
    \<and> ((\<forall>r\<in>set rs. \<forall>m. map_of (ra_online a) r = Some m \<longrightarrow> om_outbox m \<noteq> h) \<longrightarrow> rv_outboxes e' h = rv_outboxes e h)"
  using assms
proof (induction rs arbitrary: a e)
  case (Cons r rs)
  obtain a1 e1 where one: "route_one ops inp s ct r a e = Inr (a1, e1)" "route_clip ops inp s ct rs a1 e1 = Inr (a', e')"
    using Cons.prems(1) by (auto split: sum.splits)
  have neq: "q \<noteq> r" "q \<notin> set rs" using Cons.prems(2) by auto
  note f = route_one_frame [OF one(1) neq(1)]
  note ih = Cons.IH [OF one(2) neq(2)]
  have "rv_outboxes e' h = rv_outboxes e h"
    if apart: "\<forall>r\<in>set (r # rs). \<forall>m. map_of (ra_online a) r = Some m \<longrightarrow> om_outbox m \<noteq> h"
  proof -
    have "\<forall>r\<in>set rs. \<forall>m. map_of (ra_online a1) r = Some m \<longrightarrow> om_outbox m \<noteq> h"
      using apart route_one_online(1) [OF one(1)] by (metis list.set_intros(2) option.distinct(1))
    moreover have "rv_outboxes e1 h = rv_outboxes e h" using apart by (intro f(2)) simp
    ultimately show ?thesis using ih by simp
  qed
  then show ?case using f(1) ih by simp
qed simp

lemma clip_outcome_before:
  assumes "map_of (ra_online a) r = map_of (ra_online a1) r" "ra_pending a r = ra_pending a1 r" "ra_room_id a = ra_room_id a1"
    and "\<And>m. map_of (ra_online a) r = Some m \<Longrightarrow> rv_outboxes e (om_outbox m) = rv_outboxes e1 (om_outbox m)"
  shows "clip_outcome ops s ct r a e a' e' = clip_outcome ops s ct r a1 e1 a' e'"
  unfolding clip_outcome_def using assms by (auto simp: Let_def split: option.splits)

lemma clip_outcome_after:
  assumes "map_of (ra_online a') r = map_of (ra_online a1) r" "ra_pending a' r = ra_pending a1 r"
    and "\<And>m. map_of (ra_online a) r = Some m \<Longrightarrow> rv_outboxes e' (om_outbox m) = rv_outboxes e1 (om_outbox m)"
  shows "clip_outcome ops s ct r a e a' e' = clip_outcome ops s ct r a e a1 e1"
  unfolding clip_outcome_def using assms by (auto simp: Let_def split: option.splits)

lemma route_clip_outcome:
  assumes "room_ok a" "outboxes_apart a" "distinct rs" "r \<in> set rs" "r \<noteq> s"
    and "route_clip ops inp s ct rs a e = Inr (a', e')"
  shows "clip_outcome ops s ct r a e a' e'"
  using assms
proof (induction rs arbitrary: a e)
  case (Cons q rs)
  obtain a1 e1 where one: "route_one ops inp s ct q a e = Inr (a1, e1)" "route_clip ops inp s ct rs a1 e1 = Inr (a', e')"
    using Cons.prems(6) by (auto split: sum.splits)
  note ok1 = route_one_room_ok [OF Cons.prems(1) one(1)]
  have apart: "om_outbox m \<noteq> om_outbox n" if "map_of (ra_online a) x = Some m" "map_of (ra_online a) y = Some n" "x \<noteq> y" for x y m n
    using Cons.prems(2) that unfolding outboxes_apart_def by blast
  show ?case
  proof (cases "r = q")
    case True
    have rest: "r \<notin> set rs" using Cons.prems(3) True by simp
    have "rv_outboxes e' (om_outbox m) = rv_outboxes e1 (om_outbox m)" if "map_of (ra_online a) r = Some m" for m
    proof -
      have "\<forall>x\<in>set rs. \<forall>n. map_of (ra_online a1) x = Some n \<longrightarrow> om_outbox n \<noteq> om_outbox m"
        using apart [OF that] route_one_online(1) [OF one(1)] rest by (metis option.distinct(1))
      then show ?thesis using route_clip_frame [OF one(2) rest] by blast
    qed
    then have "clip_outcome ops s ct r a e a' e' = clip_outcome ops s ct r a e a1 e1"
      using route_clip_frame [OF one(2) rest] by (intro clip_outcome_after) simp_all
    then show ?thesis using route_one_outcome [OF Cons.prems(1) one(1)] Cons.prems(5) True by simp
  next
    case False
    then have "r \<in> set rs" "distinct rs" using Cons.prems(3,4) by auto
    then have "clip_outcome ops s ct r a1 e1 a' e'"
      using Cons.IH ok1 route_one_online(2) [OF one(1) Cons.prems(2)] Cons.prems(5) one(2) by blast
    moreover have "clip_outcome ops s ct r a1 e1 a' e' = clip_outcome ops s ct r a e a' e'"
    proof (rule clip_outcome_before)
      show "map_of (ra_online a1) r = map_of (ra_online a) r" "ra_pending a1 r = ra_pending a r" "ra_room_id a1 = ra_room_id a"
        using route_one_frame(1) [OF one(1) False] ok1 by auto
      show "rv_outboxes e1 (om_outbox m) = rv_outboxes e (om_outbox m)" if "map_of (ra_online a1) r = Some m" for m
        using route_one_frame(2) [OF one(1) False] apart [of q _ r m] that False
          route_one_frame(1) [OF one(1) False] by metis
    qed
    ultimately show ?thesis by simp
  qed
qed simp

end
