(* ===== verification/Room_Runs.thy ===== *)
theory Room_Runs
  imports Room
begin

text \<open>
  What the room actors of crates/server/src/room.rs guarantee over their runs: what a join and a
  clip do, that at most one actor serves a room, and that inboxes keep their budget. The last
  section records two ways in which an actor fails its clients.
\<close>

section \<open>A concrete room\<close>

definition demo_A :: string where "demo_A = fst demo_members"
definition demo_B :: string where "demo_B = snd demo_members"

definition demo_ops :: "(rooms, unit) relay_ops" where
  "demo_ops = \<lparr>ro_crates = demo_crates,
     ro_frames = table_json [JoinOk, MailboxEmpty, Clip demo_room_id [] demo_A False, Clip demo_room_id [] demo_A True],
     ro_registry = in_memory_ops, ro_sink = noop_sink\<rparr>"

definition demo_room_env :: "(rooms, unit) room_env" where
  "demo_room_env = \<lparr>rv_outboxes = (\<lambda>_. outbox_new 8 100), rv_registry = [], rv_mailbox = ()\<rparr>"

definition demo_input :: room_input where "demo_input = \<lparr>rn_now_ms = 9, rn_fault = None\<rparr>"

definition demo_actor :: "(string \<times> online_member) list \<Rightarrow> room_actor" where
  "demo_actor online = \<lparr>ra_room_id = demo_room_id, ra_member_fps = [demo_A, demo_B], ra_online = online, ra_pending = Map.empty\<rparr>"

definition demo_member :: "u64 \<Rightarrow> online_member" where
  "demo_member n = \<lparr>om_connection_id = n, om_outbox = n\<rparr>"

definition demo_joined :: "u64 \<Rightarrow> (rooms, unit) room_env \<Rightarrow> (rooms, unit) room_env" where
  "demo_joined n = upd_outbox n (enqueue_two [2, 10] [1, 2, 10])"

lemma demo_names: "demo_A \<noteq> demo_B" "is_lower_hex 32 demo_room_id"
  by (simp_all add: demo_A_def demo_B_def demo_members_def) code_simp

lemma demo_encode [simp]:
  "encode_frame demo_crates (ro_frames demo_ops) JoinOk = Inr [2, 10]"
  "encode_frame demo_crates (ro_frames demo_ops) MailboxEmpty = Inr [1, 2, 10]"
  "encode_frame demo_crates (ro_frames demo_ops) (Clip demo_room_id [] demo_A False) = Inr [1, 1, 2, 10]"
  "encode_frame demo_crates (ro_frames demo_ops) (Clip demo_room_id [] demo_A True) = Inr [1, 1, 1, 2, 10]"
proof -
  have "validate_frame demo_crates (Clip demo_room_id [] demo_A b) = Inr ()" for b
    using demo_names(2) by (simp add: validate_room_id_def validate_lower_hex_def validate_base64_def demo_crates_def)
  then show
    "encode_frame demo_crates (ro_frames demo_ops) JoinOk = Inr [2, 10]"
    "encode_frame demo_crates (ro_frames demo_ops) MailboxEmpty = Inr [1, 2, 10]"
    "encode_frame demo_crates (ro_frames demo_ops) (Clip demo_room_id [] demo_A False) = Inr [1, 1, 2, 10]"
    "encode_frame demo_crates (ro_frames demo_ops) (Clip demo_room_id [] demo_A True) = Inr [1, 1, 1, 2, 10]"
    by (simp_all add: encode_frame_def encode_json_def ensure_size_def MAX_FRAME_BYTES_def demo_ops_def table_json_def)
qed

lemma demo_ops_simps [simp]: "ro_crates demo_ops = demo_crates" "ro_registry demo_ops = in_memory_ops" "ro_sink demo_ops = noop_sink"
  by (simp_all add: demo_ops_def)

text \<open>A join on a fresh outbox of a room nobody has registered is admitted.\<close>

lemma demo_join:
  assumes "map_of online fp = None" "rv_registry e = []" "rv_outboxes e n = outbox_new 8 100"
  shows "on_join demo_ops demo_input fp [] n n (demo_actor online) e
    = Inr (demo_actor (online @ [(fp, demo_member n)]), demo_joined n e)"
proof -
  have upd: "AList.update fp m online = online @ [(fp, m)]" for m
    using assms(1) by (induction online) auto
  show ?thesis
    using assms upd
    by (simp add: on_join_def replace_old_def take_bootstrap_def demo_actor_def room_reserve_def try_reserve_frame_def
        has_slot_def outbox_new_def Let_def in_memory_ops_def mem_activate_on_first_join_def upd_outbox_def
        send_reserved_def demo_joined_def enqueue_two_def demo_member_def)
qed

lemma demo_spawned: "room_reach demo_ops demo_room_id [demo_A, demo_B] (demo_actor []) demo_room_env"
  using room_spawned [of demo_ops demo_room_id "[demo_A, demo_B]" 0 "\<lparr>rs_map = Map.empty, rs_slots = undefined, rs_next = 0, rs_env = demo_room_env\<rparr>"]
  unfolding spawned_actor by (simp add: noop_sink_def demo_actor_def)

lemma demo_joined_A: "room_reach demo_ops demo_room_id [demo_A, demo_B] (demo_actor [(demo_A, demo_member 1)]) (demo_joined 1 demo_room_env)"
proof -
  have "run_event demo_ops demo_input (RoomJoin demo_A [] 1 1) (demo_actor []) demo_room_env
      = Inr ((False, demo_actor [(demo_A, demo_member 1)]), demo_joined 1 demo_room_env)"
    using demo_join [of "[]" demo_A demo_room_env 1] by (simp add: demo_room_env_def)
  then show ?thesis by (rule room_turn [OF demo_spawned])
qed

lemma demo_joined_B:
  "on_join demo_ops demo_input demo_B [] 2 2 (demo_actor [(demo_A, demo_member 1)]) (demo_joined 1 demo_room_env)
   = Inr (demo_actor [(demo_A, demo_member 1), (demo_B, demo_member 2)], demo_joined 2 (demo_joined 1 demo_room_env))"
  using demo_join [of "[(demo_A, demo_member 1)]" demo_B "demo_joined 1 demo_room_env" 2] demo_names(1)
  by (simp add: demo_room_env_def demo_joined_def)

lemma demo_both:
  "room_reach demo_ops demo_room_id [demo_A, demo_B] (demo_actor [(demo_A, demo_member 1), (demo_B, demo_member 2)])
     (demo_joined 2 (demo_joined 1 demo_room_env))"
proof -
  have "run_event demo_ops demo_input (RoomJoin demo_B [] 2 2) (demo_actor [(demo_A, demo_member 1)]) (demo_joined 1 demo_room_env)
      = Inr ((False, demo_actor [(demo_A, demo_member 1), (demo_B, demo_member 2)]), demo_joined 2 (demo_joined 1 demo_room_env))"
    using demo_joined_B by simp
  then show ?thesis by (rule room_turn [OF demo_joined_A])
qed

section \<open>Joins and clips\<close>

text \<open>A member that is online, with connection \<open>c\<close>: an event of another connection for the
  same fingerprint changes nothing.\<close>

definition fenced :: "('r, 'm) relay_ops \<Rightarrow> string \<Rightarrow> u64 \<Rightarrow> room_actor \<Rightarrow> ('r, 'm) room_env \<Rightarrow> bool" where
  "fenced ops fp c a e \<longleftrightarrow> (\<forall>inp c' ct n. c' \<noteq> c \<longrightarrow>
     run_event ops inp (RoomClip fp c' ct n) a e = Inr ((False, a), e)
     \<and> run_event ops inp (RoomDisconnect fp c') a e = Inr ((False, a), e))"

lemma current_fences:
  assumes "map_of (ra_online a) fp = Some m" shows "fenced ops fp (om_connection_id m) a e"
proof -
  have "ra_online a \<noteq> []" using assms by auto
  then show ?thesis using assms by (auto simp: fenced_def on_clip_def on_disconnect_def Let_def)
qed

definition bootstrap_of :: "string \<Rightarrow> room_actor \<Rightarrow> frame" where
  "bootstrap_of fp a = (case ra_pending a fp of
       Some clip \<Rightarrow> Clip (ra_room_id a) (pc_ciphertext_b64 clip) (pc_origin_device clip) True | None \<Rightarrow> MailboxEmpty)"

definition encoded :: "('r, 'm) relay_ops \<Rightarrow> frame \<Rightarrow> outbound" where
  "encoded ops f = OutFrame (case encode_frame (ro_crates ops) (ro_frames ops) f of Inr x \<Rightarrow> x | Inl _ \<Rightarrow> [])"

text \<open>The two outcomes of a join on an outbox of its own.\<close>

definition join_outcome ::
  "('r, 'm) relay_ops \<Rightarrow> room_input \<Rightarrow> string \<Rightarrow> u64 \<Rightarrow> outbox_handle \<Rightarrow> room_actor \<Rightarrow> ('r, 'm) room_env
   \<Rightarrow> room_actor \<Rightarrow> ('r, 'm) room_env \<Rightarrow> bool" where
  "join_outcome ops inp fp c h a e a' e' =
     (let q = ob_queue (rv_outboxes e h); q' = ob_queue (rv_outboxes e' h);
          activation = activate_on_first_join (ro_registry ops) (rn_fault inp) (ra_room_id a) fp (rn_now_ms inp) (rv_registry e) in
      case map_of (ra_online a') fp of
        Some m \<Rightarrow> m = \<lparr>om_connection_id = c, om_outbox = h\<rparr> \<and> is_ok (fst activation) \<and> rv_registry e' = snd activation
          \<and> q' = q @ [encoded ops JoinOk, encoded ops (bootstrap_of fp a)] \<and> fenced ops fp c a' e'
      | None \<Rightarrow> q' = q
          \<or> \<not> is_ok (fst activation) \<and> (\<exists>closing. q' = q @ closing
             \<and> set closing \<subseteq> {encoded ops (Error ''registry_failed'' ''room activation could not be persisted''), OutClose}))"

lemma error_and_close_queue:
  assumes "error_and_close X J code message b = Some b'"
  shows "\<exists>x closing. ob_queue b' = ob_queue b @ closing \<and> encode_frame X J (Error code message) = Inr x
    \<and> set closing \<subseteq> {OutFrame x, OutClose}"
proof -
  from assms obtain r b1 where b: "send_frame X J (Error code message) b = Some (r, b1)" "b' = close_outbox b1"
    by (auto simp: error_and_close_def)
  then obtain x where x: "encode_frame X J (Error code message) = Inr x" by (auto simp: send_frame_def split: sum.splits)
  have "\<exists>xs. ob_queue b1 = ob_queue b @ xs \<and> set xs \<subseteq> {OutFrame x}"
    using b(1) by (cases rule: send_frame_cases) (use x in auto)
  then obtain xs where xs: "ob_queue b1 = ob_queue b @ xs" "set xs \<subseteq> {OutFrame x}" by blast
  let ?closing = "xs @ (if has_slot b1 then [OutClose] else [])"
  have "ob_queue b' = ob_queue b @ ?closing" "set ?closing \<subseteq> {OutFrame x, OutClose}"
    using xs b(2) by (auto simp: close_outbox_def)
  then show ?thesis using x by blast
qed

lemma on_join_outcome:
  assumes run: "on_join ops inp fp dev c h a e = Inr (a', e')"
    and fresh: "\<And>m. map_of (ra_online a) fp = Some m \<Longrightarrow> om_outbox m \<noteq> h"
  shows "join_outcome ops inp fp c h a e a' e'"
    and "ra_pending a' = (ra_pending a)(fp := None)"
    and "q \<noteq> fp \<Longrightarrow> map_of (ra_online a') q = map_of (ra_online a) q"
proof -
  obtain boot a2 e2 where prep: "join_prepared ops fp a e = (boot, a2, e2)" by (metis prod_cases3)
  note f = join_prepared_facts [OF prep]
  have h: "rv_outboxes e2 h = rv_outboxes e h" using f(7) fresh by (auto split: option.splits)
  have off: "map_of (ra_online a2) fp = None" by (simp add: f map_of_delete)
  have boot: "boot = bootstrap_of fp a" by (simp add: f bootstrap_of_def)
  from run prep
  have "join_outcome ops inp fp c h a e a' e' \<and> ra_pending a' = (ra_pending a)(fp := None)
    \<and> (q \<noteq> fp \<longrightarrow> map_of (ra_online a') q = map_of (ra_online a) q)"
  proof (cases rule: on_join_cases)
    case refused
    then show ?thesis using h off f by (auto simp: join_outcome_def Let_def map_of_delete)
  next
    case (failed err reg b)
    from error_and_close_queue [OF failed(2)] obtain x closing where
      x: "ob_queue b = ob_queue (rv_outboxes e h) @ closing" "set closing \<subseteq> {OutFrame x, OutClose}"
        "encode_frame (ro_crates ops) (ro_frames ops)
           (Error ''registry_failed'' ''room activation could not be persisted'') = Inr x" using h by auto
    then have "join_outcome ops inp fp c h a e a' e'"
      using failed off f by (auto simp: join_outcome_def Let_def encoded_def is_ok_def)
    then show ?thesis using failed f by (auto simp: map_of_delete)
  next
    case (joined new reg x y)
    have on: "map_of (ra_online a') fp = Some \<lparr>om_connection_id = c, om_outbox = h\<rparr>"
      using joined by (simp add: map_of_update)
    have "fenced ops fp c a' e'" using current_fences [OF on] by simp
    then have "join_outcome ops inp fp c h a e a' e'"
      using joined on f h boot by (simp add: join_outcome_def Let_def encoded_def is_ok_def enqueue_two_def)
    then show ?thesis using joined f by (auto simp: map_of_update map_of_delete)
  qed simp
  then show "join_outcome ops inp fp c h a e a' e'" "ra_pending a' = (ra_pending a)(fp := None)"
    "q \<noteq> fp \<Longrightarrow> map_of (ra_online a') q = map_of (ra_online a) q" by auto
qed

text \<open>C29: a join turn admits a member completely or not at all. If the member is online afterwards
  it is with this connection and outbox, the registry has recorded the activation, and exactly two
  frames were queued, in this order: the join confirmation and the bootstrap, which is the pending
  clip marked as mailbox, or the empty mark; and events of any earlier connection of the same
  fingerprint no longer have an effect. Otherwise nothing was queued, or, when the activation could
  not be persisted, at most the error and the close. Other members are untouched and the invariant
  holds: nobody is online with a clip pending.\<close>

theorem join_admits_completely:
  assumes "room_reach ops room members a e" "on_join ops inp fp dev c h a e = Inr (a', e')"
    and "\<And>q m. map_of (ra_online a) q = Some m \<Longrightarrow> om_outbox m \<noteq> h"
  shows "join_outcome ops inp fp c h a e a' e' \<and> room_ok a' \<and> ra_pending a' fp = None
    \<and> (\<forall>q. q \<noteq> fp \<longrightarrow> map_of (ra_online a') q = map_of (ra_online a) q \<and> ra_pending a' q = ra_pending a q)"
  using on_join_outcome [OF assms(2,3)] on_join_room_ok [OF conjunct1 [OF room_reach_ok [OF assms(1)]] assms(2)] by simp

theorem join_admits_completely_witness:
  "join_outcome demo_ops demo_input demo_B 2 2 (demo_actor [(demo_A, demo_member 1)]) (demo_joined 1 demo_room_env)
     (demo_actor [(demo_A, demo_member 1), (demo_B, demo_member 2)]) (demo_joined 2 (demo_joined 1 demo_room_env))
   \<and> map_of (ra_online (demo_actor [(demo_A, demo_member 1), (demo_B, demo_member 2)])) demo_B = Some (demo_member 2)"
proof -
  have fresh: "om_outbox m \<noteq> 2" if "map_of (ra_online (demo_actor [(demo_A, demo_member 1)])) q = Some m" for q m
    using that by (auto simp: demo_actor_def demo_member_def split: if_splits)
  from join_admits_completely [OF demo_joined_A demo_joined_B fresh] demo_names(1) show ?thesis
    by (simp add: demo_actor_def)
qed

lemma route_clip_sender:
  "route_clip ops inp s ct rs a e = Inr (a', e') \<Longrightarrow> map_of (ra_online a') s = map_of (ra_online a) s"
proof (induction rs arbitrary: a e)
  case (Cons q qs)
  obtain a1 e1 where one: "route_one ops inp s ct q a e = Inr (a1, e1)" "route_clip ops inp s ct qs a1 e1 = Inr (a', e')"
    using Cons.prems by (auto split: sum.splits)
  have "map_of (ra_online a1) s = map_of (ra_online a) s"
  proof (cases "q = s")
    case True
    then show ?thesis using one(1) by (simp add: route_one_def)
  next
    case False
    then show ?thesis using route_one_frame(1) [OF one(1), of s] by simp
  qed
  then show ?case using Cons.IH [OF one(2)] by simp
qed simp

text \<open>C30: a clip from the connection that currently holds the sender's place reaches every other
  member of the room: an online member's queue gets, as its last frame, the clip stamped with the
  authenticated sender and not marked as mailbox; if that does not fit, the member's connection is
  closed and it is taken offline; an offline member gets it as its one pending clip. The actor's
  invariant is kept. (The actor is a reachable one, its members are distinct, and no two members
  share an outbox.)\<close>

theorem clip_reaches_every_member:
  assumes "room_reach ops room members a e" "distinct members" "outboxes_apart a"
    and "map_of (ra_online a) s = Some m" "om_connection_id m = c"
    and "on_clip ops inp s c ct a e = Inr (a', e')"
  shows "room_ok a' \<and> (\<forall>r. r \<in> set members \<and> r \<noteq> s \<longrightarrow> clip_outcome ops s ct r a e a' e')
    \<and> map_of (ra_online a') s = Some m"
proof -
  have a: "room_ok a" "ra_member_fps a = members" using room_reach_ok [OF assms(1)] by auto
  have run: "route_clip ops inp s ct members a e = Inr (a', e')" using assms(4-6) a by (simp add: on_clip_def)
  have "map_of (ra_online a') s = map_of (ra_online a) s" by (rule route_clip_sender [OF run])
  then show ?thesis
    using route_clip_outcome [OF a(1) assms(3,2) _ _ run] route_clip_room_ok [OF a(1) run] assms(4) by simp
qed

theorem clip_reaches_every_member_witness:
  "\<exists>a' e'. on_clip demo_ops demo_input demo_A 1 [] (demo_actor [(demo_A, demo_member 1), (demo_B, demo_member 2)])
       (demo_joined 2 (demo_joined 1 demo_room_env)) = Inr (a', e')
   \<and> map_of (ra_online a') demo_B = Some (demo_member 2)
   \<and> clip_outcome demo_ops demo_A [] demo_B (demo_actor [(demo_A, demo_member 1), (demo_B, demo_member 2)])
       (demo_joined 2 (demo_joined 1 demo_room_env)) a' e'"
proof -
  let ?a = "demo_actor [(demo_A, demo_member 1), (demo_B, demo_member 2)]"
  let ?e = "demo_joined 2 (demo_joined 1 demo_room_env)"
  let ?e' = "upd_outbox 2 (\<lambda>b. b\<lparr>ob_pending_bytes := ob_pending_bytes b + Suc (Suc (Suc (Suc 0))), ob_queue := ob_queue b @ [OutFrame [1, 1, 2, 10]]\<rparr>) ?e"
  have run: "on_clip demo_ops demo_input demo_A 1 [] ?a ?e = Inr (?a, ?e')"
    using demo_names(1)
    by (simp add: on_clip_def demo_actor_def demo_member_def route_one_def room_send_def send_frame_def try_frame_def
        has_slot_def demo_joined_def demo_room_env_def outbox_new_def enqueue_two_def upd_outbox_def Let_def)
  have apart: "outboxes_apart ?a" using demo_names(1)
    by (auto simp: outboxes_apart_def demo_actor_def demo_member_def split: if_splits)
  have m: "map_of (ra_online ?a) demo_A = Some (demo_member 1)" "om_connection_id (demo_member 1) = 1"
    "map_of (ra_online ?a) demo_B = Some (demo_member 2)"
    using demo_names(1) by (simp_all add: demo_actor_def demo_member_def)
  have d: "distinct [demo_A, demo_B]" using demo_names(1) by simp
  from clip_reaches_every_member [OF demo_both d apart m(1,2) run] demo_names(1) run m(3) show ?thesis by auto
qed

lemma offline_peer_clip:
  assumes "set members = {s, r}" "distinct members" "s \<noteq> r" "ra_member_fps a = members"
    and "map_of (ra_online a) s = Some m" "map_of (ra_online a) r = None"
  shows "on_clip ops inp s (om_connection_id m) ct a e
    = Inr (a\<lparr>ra_pending := (ra_pending a)(r \<mapsto> \<lparr>pc_origin_device = s, pc_ciphertext_b64 = ct\<rparr>)\<rparr>,
           e\<lparr>rv_mailbox := clip_pending (ro_sink ops) (rn_now_ms inp) (ra_room_id a) r
               \<lparr>pc_origin_device = s, pc_ciphertext_b64 = ct\<rparr> (rv_mailbox e)\<rparr>)"
proof -
  have "card (set members) = 2" using assms(1,3) by simp
  then have "length members = 2" using distinct_card [OF assms(2)] by simp
  then obtain x y where "members = [x, y]" by (cases members rule: remdups_adj.cases) auto
  then have "members = [s, r] \<or> members = [r, s]" using assms(1,3) by (auto simp: doubleton_eq_iff)
  then show ?thesis using assms(3-6) by (auto simp: on_clip_def route_one_def Let_def)
qed



section \<open>The table of rooms\<close>

definition no_slot :: room_slot where
  "no_slot = \<lparr>sl_inbox = [], sl_pending_bytes = 0, sl_open = False,
     sl_actor = \<lparr>ra_room_id = [], ra_member_fps = [], ra_online = [], ra_pending = Map.empty\<rparr>\<rparr>"

definition rooms_new :: "('r, 'm) room_env \<Rightarrow> ('r, 'm) rooms_state" where
  "rooms_new e = \<lparr>rs_map = Map.empty, rs_slots = (\<lambda>_. no_slot), rs_next = 0, rs_env = e\<rparr>"

text \<open>Everything the connections and the actors may do to the table, in any order; the other
  tasks of the relay may change outboxes, registry and mailbox at any time. The steps of one
  \<open>join\<close> (taking the table entry, sending to the handle, dropping a stale handle) interleave
  with everything else, so each is a step of its own, on any handle. A returning actor removes its
  entry and closes its inbox in one step: what is sent to the old handle in between is lost as if
  it had been queued before.\<close>

inductive rooms_reach :: "limits \<Rightarrow> ('r, 'm) relay_ops \<Rightarrow> ('r, 'm) rooms_state \<Rightarrow> bool" for l ops where
  rooms_start: "rooms_reach l ops (rooms_new e)"
| rooms_did_join: "rooms_reach l ops s \<Longrightarrow> rooms_reach l ops (snd (rooms_join l ops now room members fp dev c h s))"
| rooms_did_entry: "rooms_reach l ops s \<Longrightarrow> rooms_reach l ops (snd (room_entry ops now room members s))"
| rooms_did_send: "rooms_reach l ops s \<Longrightarrow> inbox_try_send l ev (rs_slots s i) = (ok, sl) \<Longrightarrow> rooms_reach l ops (upd_slot i sl s)"
| rooms_did_drop: "rooms_reach l ops s \<Longrightarrow> \<not> sl_open (rs_slots s i) \<Longrightarrow> rooms_reach l ops (remove_if_same room i s)"
| rooms_did_clip: "rooms_reach l ops s \<Longrightarrow> rooms_reach l ops (snd (rooms_clip l room fp c ct n s))"
| rooms_did_disconnect: "rooms_reach l ops s \<Longrightarrow> rooms_reach l ops (rooms_disconnect l room fp c s)"
| rooms_did_turn: "rooms_reach l ops s \<Longrightarrow> rooms_reach l ops (actor_turn ops inp i s)"
| rooms_did_world: "rooms_reach l ops s \<Longrightarrow> rooms_reach l ops (s\<lparr>rs_env := e\<rparr>)"

text \<open>An inbox keeps its budgets and its byte counter counts what is queued; a stopped actor's
  counter may keep the bytes of the events that were dropped.\<close>

definition slot_ok :: "limits \<Rightarrow> room_slot \<Rightarrow> bool" where
  "slot_ok l sl \<longleftrightarrow> length (sl_inbox sl) \<le> li_inbox_max_events l \<and> sl_pending_bytes sl \<le> li_inbox_max_bytes l
     \<and> sum_list (map payload_size (sl_inbox sl)) \<le> sl_pending_bytes sl
     \<and> (sl_open sl \<longrightarrow> sl_pending_bytes sl = sum_list (map payload_size (sl_inbox sl)))
     \<and> room_ok (sl_actor sl)"

definition table_ok :: "limits \<Rightarrow> ('r, 'm) rooms_state \<Rightarrow> bool" where
  "table_ok l s \<longleftrightarrow> (\<forall>i. slot_ok l (rs_slots s i))
     \<and> (\<forall>i. rs_next s \<le> i \<longrightarrow> \<not> sl_open (rs_slots s i))
     \<and> (\<forall>room i. rs_map s room = Some i \<longrightarrow> i < rs_next s \<and> ra_room_id (sl_actor (rs_slots s i)) = room)
     \<and> (\<forall>i. sl_open (rs_slots s i) \<longrightarrow> rs_map s (ra_room_id (sl_actor (rs_slots s i))) = Some i)"

lemma table_ok_env [simp]: "table_ok l (s\<lparr>rs_env := e\<rparr>) = table_ok l s"
  by (simp add: table_ok_def)

lemma inbox_try_send_ok:
  assumes "inbox_try_send l ev sl = (ok, sl')" "slot_ok l sl"
  shows "slot_ok l sl' \<and> sl_open sl' = sl_open sl \<and> sl_actor sl' = sl_actor sl"
  using assms by (auto simp: inbox_try_send_def slot_ok_def Let_def split: if_splits)

text \<open>Replacing a slot by one for the same room that is open only if the old one was.\<close>

lemma table_ok_upd:
  assumes "table_ok l s" "slot_ok l sl" "ra_room_id (sl_actor sl) = ra_room_id (sl_actor (rs_slots s i))"
    and "sl_open sl \<Longrightarrow> sl_open (rs_slots s i)"
  shows "table_ok l (upd_slot i sl s)"
  using assms by (auto simp: table_ok_def upd_slot_def)

lemma table_ok_send:
  assumes "table_ok l s" "inbox_try_send l ev (rs_slots s i) = (ok, sl)"
  shows "table_ok l (upd_slot i sl s)"
proof -
  have "slot_ok l (rs_slots s i)" using assms(1) by (simp add: table_ok_def)
  from inbox_try_send_ok [OF assms(2) this] show ?thesis by (intro table_ok_upd [OF assms(1)]) auto
qed

lemma table_ok_remove:
  assumes "table_ok l s" "\<not> sl_open (rs_slots s i)" shows "table_ok l (remove_if_same room i s)"
  using assms by (auto simp: table_ok_def remove_if_same_def)

lemma room_entry_ok:
  assumes "table_ok l s" "room_entry ops now room members s = (i, s')" shows "table_ok l s'"
proof (cases "rs_map s room")
  case (Some j)
  then show ?thesis using assms by (simp add: room_entry_def)
next
  case None
  let ?actor = "\<lparr>ra_room_id = room, ra_member_fps = members, ra_online = [],
     ra_pending = map_of (rev (load_pending (ro_sink ops) now room (rv_mailbox (rs_env s))))\<rparr>"
  let ?sl = "\<lparr>sl_inbox = [], sl_pending_bytes = 0, sl_open = True, sl_actor = ?actor\<rparr>"
  have s': "s' = s\<lparr>rs_next := Suc (rs_next s), rs_slots := (rs_slots s)(rs_next s := ?sl), rs_map := (rs_map s)(room \<mapsto> rs_next s)\<rparr>"
    using assms(2) None by (auto simp: room_entry_def rooms_spawn_def upd_slot_def Let_def)
  have new: "slot_ok l ?sl" by (simp add: slot_ok_def room_ok_def)
  have other: "ra_room_id (sl_actor (rs_slots s i)) \<noteq> room" if "sl_open (rs_slots s i)" for i
    using assms(1) that None by (auto simp: table_ok_def)
  show ?thesis
    using assms(1) new other unfolding s' table_ok_def by (auto simp: less_Suc_eq)
qed

lemma join_attempts_ok:
  "table_ok l s \<Longrightarrow> table_ok l (snd (join_attempts n l ops now room members ev s))"
proof (induction n arbitrary: s)
  case (Suc n)
  obtain i s1 where e: "room_entry ops now room members s = (i, s1)" by fastforce
  have ok1: "table_ok l s1" by (rule room_entry_ok [OF Suc.prems e])
  obtain ok sl where t: "inbox_try_send l ev (rs_slots s1 i) = (ok, sl)" by fastforce
  show ?case
    using e t table_ok_send [OF ok1 t] table_ok_remove [OF ok1] Suc.IH ok1 by (cases ok) simp_all
qed simp

lemma actor_turn_ok:
  assumes ok: "table_ok l s" shows "table_ok l (actor_turn ops inp i s)"
proof -
  let ?sl = "rs_slots s i"
  have slot: "slot_ok l ?sl" using ok by (simp add: table_ok_def)
  show ?thesis
  proof (cases "sl_inbox ?sl = [] \<or> \<not> sl_open ?sl")
    case True
    then show ?thesis using ok by (auto simp: actor_turn_def Let_def split: list.splits)
  next
    case False
    then obtain ev rest where q: "sl_inbox ?sl = ev # rest" "sl_open ?sl" by (cases "sl_inbox ?sl") auto
    let ?sl1 = "?sl\<lparr>sl_inbox := rest, sl_pending_bytes := sl_pending_bytes ?sl - payload_size ev\<rparr>"
    have slot1: "slot_ok l ?sl1" using slot q by (simp add: slot_ok_def)
    note run = actor_turn_def [of ops inp i s, unfolded Let_def q(1) list.case]
    show ?thesis
    proof (cases "run_event ops inp ev (sl_actor ?sl) (rs_env s)")
      case (Inl e)
      have "table_ok l (upd_slot i (stopped ?sl1) (s\<lparr>rs_env := e\<rparr>))"
        using slot1 ok by (intro table_ok_upd) (simp_all add: slot_ok_def stopped_def)
      then show ?thesis using run q(2) Inl by simp
    next
      case (Inr p)
      obtain ret a e where r: "run_event ops inp ev (sl_actor ?sl) (rs_env s) = Inr ((ret, a), e)"
        using Inr by (metis surj_pair)
      have a: "room_ok a" "ra_room_id a = ra_room_id (sl_actor ?sl)"
        using run_event_room_ok [OF _ r] slot by (auto simp: slot_ok_def)
      have go: "table_ok l (upd_slot i (?sl1\<lparr>sl_actor := a\<rparr>) (s\<lparr>rs_env := e\<rparr>))"
        using slot1 a q(2) ok by (intro table_ok_upd) (simp_all add: slot_ok_def)
      have stop: "table_ok l (remove_if_same (ra_room_id a) i (upd_slot i (stopped (?sl1\<lparr>sl_actor := a\<rparr>)) (s\<lparr>rs_env := e\<rparr>)))"
        using slot1 a ok by (intro table_ok_remove table_ok_upd) (simp_all add: slot_ok_def stopped_def upd_slot_def)
      show ?thesis using run q(2) r go stop by (cases ret) simp_all
    qed
  qed
qed

lemma rooms_reach_ok: "rooms_reach l ops s \<Longrightarrow> table_ok l s"
proof (induction rule: rooms_reach.induct)
  case (rooms_start e)
  show ?case by (simp add: table_ok_def rooms_new_def slot_ok_def no_slot_def room_ok_def)
next
  case (rooms_did_join s now room members fp dev c h)
  then show ?case by (simp add: rooms_join_def join_attempts_ok)
next
  case (rooms_did_entry s now room members)
  then show ?case by (metis room_entry_ok prod.collapse)
next
  case (rooms_did_clip s room fp c ct n)
  then show ?case using table_ok_send by (auto simp: rooms_clip_def split: option.splits prod.splits)
next
  case (rooms_did_disconnect s room fp c)
  then show ?case using table_ok_send [OF rooms_did_disconnect(2)]
    by (auto simp: rooms_disconnect_def split: option.splits) (metis surjective_pairing)
qed (simp_all add: actor_turn_ok table_ok_send table_ok_remove)

text \<open>C32: every room has at most one running actor. Whatever joins, clips, disconnects and actor
  turns (also those that panic) come in whatever order, two running actors serve different rooms,
  the table leads to each of them under its room id, and in each of them no member is at once
  online and waiting for a pending clip.\<close>

theorem one_actor_per_room:
  assumes "rooms_reach l ops s" "sl_open (rs_slots s i)"
  shows "rs_map s (ra_room_id (sl_actor (rs_slots s i))) = Some i
    \<and> (\<forall>j. sl_open (rs_slots s j) \<and> ra_room_id (sl_actor (rs_slots s j)) = ra_room_id (sl_actor (rs_slots s i)) \<longrightarrow> j = i)
    \<and> dom (map_of (ra_online (sl_actor (rs_slots s i)))) \<inter> dom (ra_pending (sl_actor (rs_slots s i))) = {}"
proof -
  have ok: "table_ok l s" by (rule rooms_reach_ok [OF assms(1)])
  then have "slot_ok l (rs_slots s i)" by (simp add: table_ok_def)
  then have dis: "dom (map_of (ra_online (sl_actor (rs_slots s i)))) \<inter> dom (ra_pending (sl_actor (rs_slots s i))) = {}"
    by (simp add: slot_ok_def room_ok_def)
  have map: "rs_map s (ra_room_id (sl_actor (rs_slots s j))) = Some j" if "sl_open (rs_slots s j)" for j
    using ok that by (simp add: table_ok_def)
  have uniq: "j = i" if "sl_open (rs_slots s j)"
      "ra_room_id (sl_actor (rs_slots s j)) = ra_room_id (sl_actor (rs_slots s i))" for j
    using map [OF that(1)] map [OF assms(2)] unfolding that(2) by (metis option.inject)
  show ?thesis
  proof (intro conjI allI impI)
    show "rs_map s (ra_room_id (sl_actor (rs_slots s i))) = Some i" by (rule map [OF assms(2)])
    show "dom (map_of (ra_online (sl_actor (rs_slots s i)))) \<inter> dom (ra_pending (sl_actor (rs_slots s i))) = {}" by (rule dis)
  qed (elim conjE, rule uniq)
qed

theorem one_actor_per_room_witness:
  "\<exists>s. snd (rooms_join limits_default demo_ops 9 demo_room_id [demo_A, demo_B] demo_A [] 1 1 (rooms_new demo_room_env)) = s
     \<and> sl_open (rs_slots s 0) \<and> rs_map s demo_room_id = Some 0"
proof -
  let ?s = "snd (rooms_join limits_default demo_ops 9 demo_room_id [demo_A, demo_B] demo_A [] 1 1 (rooms_new demo_room_env))"
  have o: "sl_open (rs_slots ?s 0)" "ra_room_id (sl_actor (rs_slots ?s 0)) = demo_room_id"
    by (simp_all add: rooms_join_def room_entry_def rooms_spawn_def rooms_new_def upd_slot_def inbox_try_send_def
        limits_default_def Let_def numeral_2_eq_2)
  from one_actor_per_room [OF rooms_did_join [OF rooms_start] o(1)] o show ?thesis by simp
qed

text \<open>The events and bytes waiting for a room never exceed the inbox budgets, and the byte
  counter of a running actor's inbox is exactly the size of the clips queued in it.\<close>

theorem inbox_within_budget:
  assumes "rooms_reach l ops s"
  shows "length (sl_inbox (rs_slots s i)) \<le> li_inbox_max_events l
    \<and> sum_list (map payload_size (sl_inbox (rs_slots s i))) \<le> li_inbox_max_bytes l
    \<and> (sl_open (rs_slots s i) \<longrightarrow> sl_pending_bytes (rs_slots s i) = sum_list (map payload_size (sl_inbox (rs_slots s i))))"
proof -
  have "slot_ok l (rs_slots s i)" using rooms_reach_ok [OF assms] by (simp add: table_ok_def)
  then show ?thesis by (auto simp: slot_ok_def)
qed

theorem inbox_within_budget_witness:
  "\<exists>s. snd (rooms_join limits_default demo_ops 9 demo_room_id [demo_A, demo_B] demo_A [] 1 1 (rooms_new demo_room_env)) = s
     \<and> sl_inbox (rs_slots s 0) = [RoomJoin demo_A [] 1 1] \<and> length (sl_inbox (rs_slots s 0)) \<le> li_inbox_max_events limits_default"
proof -
  let ?s = "snd (rooms_join limits_default demo_ops 9 demo_room_id [demo_A, demo_B] demo_A [] 1 1 (rooms_new demo_room_env))"
  have "sl_inbox (rs_slots ?s 0) = [RoomJoin demo_A [] 1 1]"
    by (simp add: rooms_join_def room_entry_def rooms_spawn_def rooms_new_def upd_slot_def inbox_try_send_def
        limits_default_def Let_def numeral_2_eq_2)
  then show ?thesis using inbox_within_budget [OF rooms_did_join [OF rooms_start], of limits_default demo_ops 9
      demo_room_id "[demo_A, demo_B]" demo_A "[]" 1 1 demo_room_env 0] by simp
qed

section \<open>Where an actor fails its clients\<close>

text \<open>A join that was accepted into the inbox behind the disconnect of the last online member is
  dropped when the actor returns: no frame is queued for the new connection, and the room has no
  actor.\<close>

lemma queued_join_lost:
  assumes "sl_inbox (rs_slots s i) = RoomDisconnect fp c # RoomJoin fp' dev c' h # rest" "sl_open (rs_slots s i)"
    and "ra_online (sl_actor (rs_slots s i)) = [(fp, m)]" "om_connection_id m = c"
    and "rs_map s (ra_room_id (sl_actor (rs_slots s i))) = Some i"
  shows "let s' = actor_turn ops inp i s in
    rs_env s' = rs_env s \<and> sl_inbox (rs_slots s' i) = [] \<and> \<not> sl_open (rs_slots s' i)
    \<and> rs_map s' (ra_room_id (sl_actor (rs_slots s i))) = None"
  using assms by (simp add: actor_turn_def Let_def on_disconnect_def remove_if_same_def upd_slot_def stopped_def)

text \<open>When the stamped frame cannot be encoded (it is longer than the frame the sender was allowed
  to send), the actor panics, its inbox is closed and dropped, and the table keeps leading to it. A
  pending clip of that kind keeps its recipient out: its join panics the actor too or is refused.\<close>

lemma oversize_clip_panics:
  assumes "map_of (ra_online a) s = Some m" "om_connection_id m = c" "ra_member_fps a = [r, s] \<or> ra_member_fps a = [s, r]"
    and "r \<noteq> s" "map_of (ra_online a) r = Some n"
    and "encode_frame (ro_crates ops) (ro_frames ops) (Clip (ra_room_id a) ct s False) = Inl err"
  shows "on_clip ops inp s c ct a e = Inl e"
  using assms by (auto simp: on_clip_def route_one_def room_send_def send_frame_def)

lemma oversize_bootstrap_panics:
  assumes "ra_pending a fp = Some clip"
    and "encode_frame (ro_crates ops) (ro_frames ops)
      (Clip (ra_room_id a) (pc_ciphertext_b64 clip) (pc_origin_device clip) True) = Inl err"
  shows "(\<exists>e'. on_join ops inp fp dev c h a e = Inl e')
    \<or> (\<exists>a' e'. on_join ops inp fp dev c h a e = Inr (a', e') \<and> map_of (ra_online a') fp = None)"
proof -
  obtain boot a2 e2 where prep: "join_prepared ops fp a e = (boot, a2, e2)" by (metis prod_cases3)
  note f = join_prepared_facts [OF prep]
  have off: "map_of (ra_online a2) fp = None" by (simp add: f map_of_delete)
  show ?thesis
    by (cases rule: on_join_cases [OF refl prep, of inp dev c h]) (use f(1) assms off in auto)
qed

end
