(* ===== verification/Mailbox.thy ===== *)
theory Mailbox
  imports Registry Mailbox_Sink
begin

text \<open>
  The persistent mailbox of crates/server/src/mailbox.rs.

  The state holds the shared maps, the signal channel, the directory (file name to contents; the
  temporary file is never read, so only the outcome of a replacement is kept), and the local state
  of the tasks that interleave: the publication worker (\<open>worker\<close>, with the rooms still to do
  from a retry tick), the time-to-live sweeper, and the calls of \<open>clip_pending\<close> that have
  stored their snapshot but not yet signalled it. Every access to a shared map is a step of its own;
  the operations of the source are the compositions of these steps.

  The clock, the failing step of a write and failing removals are arguments. Sizes are natural
  numbers: they are lengths of buffers and files.
\<close>

section \<open>Data\<close>

definition MAILBOX_MAX_BYTES :: nat where "MAILBOX_MAX_BYTES = REGISTRY_MAX_ROOMS * 24 * 1024 * 1024"

text \<open>Durations in milliseconds.\<close>

definition MAILBOX_TTL :: nat where "MAILBOX_TTL = 7 * 24 * 60 * 60 * 1000"

record mailbox_options =
  mo_max_bytes :: nat
  mo_ttl :: nat
  mo_retry_interval :: nat

definition mailbox_options_default :: mailbox_options where
  "mailbox_options_default = \<lparr>mo_max_bytes = MAILBOX_MAX_BYTES, mo_ttl = MAILBOX_TTL, mo_retry_interval = 5000\<rparr>"

record health =
  hp_degraded :: bool
  hp_last_error :: "io_error option"

definition is_healthy :: "health \<Rightarrow> bool" where "is_healthy h \<longleftrightarrow> \<not> hp_degraded h"

definition mark_degraded :: "io_error \<Rightarrow> health \<Rightarrow> health" where
  "mark_degraded e h = h\<lparr>hp_last_error := Some e, hp_degraded := True\<rparr>"

definition mark_healthy :: "health \<Rightarrow> health" where
  "mark_healthy h = h\<lparr>hp_degraded := False, hp_last_error := None\<rparr>"

record disk_mailbox =
  dm_version :: u32
  dm_room_id :: string
  dm_recipient_fp :: string
  dm_origin_fp :: string
  dm_ciphertext_b64 :: string
  dm_ts_ms :: int

record snapshot =
  sn_recipient_fp :: string
  sn_origin_fp :: string
  sn_ciphertext_b64 :: string
  sn_ts_ms :: int

definition mailbox_validate_room_id :: "string \<Rightarrow> io_error + unit" where
  "mailbox_validate_room_id room =
     (if is_lower_hex 32 room then Inr ()
      else Inl (IoInvalidInput ''room id must be 32 lowercase hex characters''))"

definition validate_fingerprint :: "string \<Rightarrow> io_error + unit" where
  "validate_fingerprint fp =
     (if is_lower_hex 64 fp then Inr ()
      else Inl (IoInvalidData ''fingerprint must be 64 lowercase hex characters''))"

definition into_snapshot :: "crates \<Rightarrow> disk_mailbox \<Rightarrow> io_error + snapshot" where
  "into_snapshot X d =
     (if dm_version d \<noteq> 1
      then Inl (IoInvalidData (''unsupported mailbox version '' @ show_nat (unat (dm_version d))))
      else and_then (mailbox_validate_room_id (dm_room_id d)) (\<lambda>_.
           and_then (validate_fingerprint (dm_recipient_fp d)) (\<lambda>_.
           and_then (validate_fingerprint (dm_origin_fp d)) (\<lambda>_.
           and_then (map_err IoInvalidData (b64_decode X (dm_ciphertext_b64 d))) (\<lambda>decoded.
             if b64_encode X decoded \<noteq> dm_ciphertext_b64 d
             then Inl (IoInvalidData ''ciphertext_b64 must be canonical padded STANDARD base64'')
             else if dm_ts_ms d \<le> 0 then Inl (IoInvalidData ''ts_ms must be positive'')
             else Inr \<lparr>sn_recipient_fp = dm_recipient_fp d, sn_origin_fp = dm_origin_fp d,
                       sn_ciphertext_b64 = dm_ciphertext_b64 d, sn_ts_ms = dm_ts_ms d\<rparr>)))))"

definition to_disk :: "snapshot \<Rightarrow> string \<Rightarrow> disk_mailbox" where
  "to_disk s room = \<lparr>dm_version = 1, dm_room_id = room, dm_recipient_fp = sn_recipient_fp s,
     dm_origin_fp = sn_origin_fp s, dm_ciphertext_b64 = sn_ciphertext_b64 s, dm_ts_ms = sn_ts_ms s\<rparr>"

definition to_pending_clip :: "snapshot \<Rightarrow> pending_clip" where
  "to_pending_clip s = \<lparr>pc_origin_device = sn_origin_fp s, pc_ciphertext_b64 = sn_ciphertext_b64 s\<rparr>"

definition ttl_ms :: "nat \<Rightarrow> int" where
  "ttl_ms ttl = (if int ttl \<le> i64_max then int ttl else i64_max)"

definition is_expired :: "int \<Rightarrow> int \<Rightarrow> int \<Rightarrow> bool" where
  "is_expired ts now ttl \<longleftrightarrow> saturating_sub now ts > ttl"

text \<open>Where the worker stands: waiting; a room taken from the channel or the retry batch; its
  \<open>queued\<close> mark removed; its snapshot taken out of \<open>dirty\<close>; encoded and within the quota;
  written or failed; its size recorded. The last component is what is left of a retry batch.\<close>

datatype worker =
    WIdle
  | WTaken string "string list"
  | WPublish string "string list"
  | WWriting string snapshot "string list"
  | WRenaming string snapshot bytes "string list"
  | WDone string snapshot "io_error + nat" "string list"
  | WSized string snapshot "string list"

text \<open>The sweeper: between sweeps; rooms to do; index entry removed; size removed.\<close>

datatype sweeper =
    SwIdle
  | SwRooms "string list" nat
  | SwIndexed string "string list" nat
  | SwSized string "string list" nat

record mailbox =
  mb_options :: mailbox_options
  mb_files :: "(string \<times> bytes) list"
  mb_index :: "(string \<times> snapshot) list"
  mb_dirty :: "string \<rightharpoonup> snapshot"
  mb_queued :: "string set"
  mb_sizes :: "(string \<times> nat) list"
  mb_channel :: "string list"
  mb_health :: health
  mb_writes_done :: nat
  mb_in_flight :: bool
  mb_retry :: "string list"
  mb_worker :: worker
  mb_sweeper :: sweeper
  mb_signalling :: "string list"

definition snapshot_name :: "string \<Rightarrow> string" where "snapshot_name room = room @ ''.json''"

definition strip_suffix :: "string \<Rightarrow> string \<Rightarrow> string option" where
  "strip_suffix suffix s =
     (if length suffix \<le> length s \<and> drop (length s - length suffix) s = suffix
      then Some (take (length s - length suffix) s) else None)"

section \<open>Opening\<close>

definition read_snapshot :: "crates \<Rightarrow> disk_mailbox json \<Rightarrow> bytes \<Rightarrow> string \<Rightarrow> io_error + snapshot" where
  "read_snapshot X J contents room =
     and_then (map_err IoInvalidData (from_json J contents)) (\<lambda>disk.
       if dm_room_id disk \<noteq> room then Inl (IoInvalidData ''snapshot room_id does not match its filename'')
       else into_snapshot X disk)"

text \<open>The faults of a scan: the directory or an entry cannot be read, a file cannot be read or
  removed, its size cannot be determined. The clock is read at every entry.\<close>

record scan_env =
  sc_dir_fails :: bool
  sc_read_fails :: "string \<Rightarrow> bool"
  sc_remove_fails :: "string \<Rightarrow> bool"
  sc_metadata_fails :: "string \<Rightarrow> bool"
  sc_now :: "string \<Rightarrow> int"

type_synonym scan = "(string \<times> snapshot) list \<times> (string \<times> nat) list \<times> (string \<times> bytes) list"

definition scan_entry ::
  "crates \<Rightarrow> disk_mailbox json \<Rightarrow> scan_env \<Rightarrow> int \<Rightarrow> string \<times> bytes \<Rightarrow> scan \<Rightarrow> io_error + scan" where
  "scan_entry X J env ttl entry acc =
     (case (entry, acc) of ((name, contents), (index, sizes, fl)) \<Rightarrow>
        case strip_suffix ''.json'' name of
          None \<Rightarrow> Inr acc
        | Some room \<Rightarrow>
            (if \<not> is_ok (mailbox_validate_room_id room) then Inr acc
             else case (if sc_read_fails env name then Inl IoOs else read_snapshot X J contents room) of
               Inl _ \<Rightarrow> Inr acc
             | Inr s \<Rightarrow>
                 (if is_expired (sn_ts_ms s) (sc_now env name) ttl
                  then Inr (index, sizes, if sc_remove_fails env name then fl else AList.delete name fl)
                  else if sc_metadata_fails env name then Inl IoOs
                  else Inr (AList.update room s index, AList.update room (length contents) sizes, fl))))"

fun scan_dir ::
  "crates \<Rightarrow> disk_mailbox json \<Rightarrow> scan_env \<Rightarrow> int \<Rightarrow> (string \<times> bytes) list \<Rightarrow> scan \<Rightarrow> io_error + scan" where
  "scan_dir X J env ttl [] acc = Inr acc"
| "scan_dir X J env ttl (entry # entries) acc =
     and_then (scan_entry X J env ttl entry acc) (scan_dir X J env ttl entries)"

definition open_mailbox ::
  "crates \<Rightarrow> disk_mailbox json \<Rightarrow> scan_env \<Rightarrow> mailbox_options \<Rightarrow> (string \<times> bytes) list \<Rightarrow> io_error + mailbox" where
  "open_mailbox X J env options fl =
     (if sc_dir_fails env then Inl IoOs
      else and_then (scan_dir X J env (ttl_ms (mo_ttl options)) fl ([], [], fl)) (\<lambda>(index, sizes, fl).
        Inr \<lparr>mb_options = options, mb_files = fl, mb_index = index, mb_dirty = Map.empty, mb_queued = {},
             mb_sizes = sizes, mb_channel = [], mb_health = \<lparr>hp_degraded = False, hp_last_error = None\<rparr>,
             mb_writes_done = 0, mb_in_flight = False, mb_retry = [], mb_worker = WIdle, mb_sweeper = SwIdle,
             mb_signalling = []\<rparr>))"

definition completed_writes :: "mailbox \<Rightarrow> nat" where "completed_writes m = mb_writes_done m"

definition write_in_flight :: "mailbox \<Rightarrow> bool" where "write_in_flight m = mb_in_flight m"

section \<open>The sink\<close>

text \<open>\<open>Option::or_else\<close>.\<close>

fun or_else :: "'a option \<Rightarrow> 'a option \<Rightarrow> 'a option" where
  "or_else (Some x) b = Some x"
| "or_else None b = b"

text \<open>\<open>clip_pending\<close> stores the snapshot, then signals the room unless it is already queued.\<close>

definition store_pending :: "int \<Rightarrow> string \<Rightarrow> string \<Rightarrow> pending_clip \<Rightarrow> mailbox \<Rightarrow> mailbox" where
  "store_pending now room recipient_fp clip m =
     m\<lparr>mb_dirty := (mb_dirty m)(room \<mapsto> \<lparr>sn_recipient_fp = recipient_fp, sn_origin_fp = pc_origin_device clip,
          sn_ciphertext_b64 = pc_ciphertext_b64 clip, sn_ts_ms = now\<rparr>)\<rparr>"

definition signal_pending :: "string \<Rightarrow> mailbox \<Rightarrow> mailbox" where
  "signal_pending room m =
     (if room \<in> mb_queued m then m
      else m\<lparr>mb_queued := insert room (mb_queued m), mb_channel := mb_channel m @ [room]\<rparr>)"

definition mailbox_clip_pending :: "int \<Rightarrow> string \<Rightarrow> string \<Rightarrow> pending_clip \<Rightarrow> mailbox \<Rightarrow> mailbox" where
  "mailbox_clip_pending now room recipient_fp clip m =
     (if \<not> is_ok (mailbox_validate_room_id room) then m
      else signal_pending room (store_pending now room recipient_fp clip m))"

definition mailbox_load_pending :: "int \<Rightarrow> string \<Rightarrow> mailbox \<Rightarrow> (string \<times> pending_clip) list" where
  "mailbox_load_pending now room m =
     (let ttl = ttl_ms (mo_ttl (mb_options m));
          snapshot = or_else (mb_dirty m room) (map_of (mb_index m) room) in
      case snapshot of
        Some s \<Rightarrow> if \<not> is_expired (sn_ts_ms s) now ttl then [(sn_recipient_fp s, to_pending_clip s)] else []
      | None \<Rightarrow> [])"

definition persistent_sink :: "mailbox mailbox_sink" where
  "persistent_sink = \<lparr>clip_pending = mailbox_clip_pending, clip_consumed = (\<lambda>_ _ m. m),
     load_pending = mailbox_load_pending, health_probe = (\<lambda>m. Some (is_healthy (mb_health m)))\<rparr>"

section \<open>Publication\<close>

text \<open>The first half of \<open>write_snapshot\<close>: encode and check the quota under the sizes lock.\<close>

definition check_quota :: "disk_mailbox json \<Rightarrow> string \<Rightarrow> snapshot \<Rightarrow> mailbox \<Rightarrow> io_error + bytes" where
  "check_quota J room s m =
     and_then (map_err IoOther (to_json J (to_disk s room))) (\<lambda>encoded.
       let sizes = mb_sizes m;
           prospective = sum_list (map snd sizes) - (case map_of sizes room of Some n \<Rightarrow> n | None \<Rightarrow> 0) + length encoded in
       if prospective > mo_max_bytes (mb_options m)
       then Inl (IoQuotaExceeded (''mailbox storage quota exceeded: '' @ show_nat prospective @ '' > ''
                                  @ show_nat (mo_max_bytes (mb_options m))))
       else Inr encoded)"

text \<open>The second half: replace the room's file.\<close>

definition replace_file :: "write_step option \<Rightarrow> string \<Rightarrow> bytes \<Rightarrow> mailbox \<Rightarrow> (io_error + nat) \<times> mailbox" where
  "replace_file fault room encoded m =
     (let w = write_outcome_of relay_style fault False in
      (if write_ok w then Inr (length encoded) else Inl IoOs,
       m\<lparr>mb_files := after_write w (mb_files m) (AList.update (snapshot_name room) encoded (mb_files m))\<rparr>))"

definition write_snapshot ::
  "disk_mailbox json \<Rightarrow> write_step option \<Rightarrow> string \<Rightarrow> snapshot \<Rightarrow> mailbox \<Rightarrow> (io_error + nat) \<times> mailbox" where
  "write_snapshot J fault room s m =
     (case check_quota J room s m of Inl e \<Rightarrow> (Inl e, m) | Inr encoded \<Rightarrow> replace_file fault room encoded m)"

definition take_dirty :: "string \<Rightarrow> mailbox \<Rightarrow> mailbox" where
  "take_dirty room m = m\<lparr>mb_dirty := (mb_dirty m)(room := None), mb_in_flight := True\<rparr>"

definition record_size :: "string \<Rightarrow> nat \<Rightarrow> mailbox \<Rightarrow> mailbox" where
  "record_size room n m = m\<lparr>mb_in_flight := False, mb_sizes := AList.update room n (mb_sizes m)\<rparr>"

definition record_published :: "string \<Rightarrow> snapshot \<Rightarrow> mailbox \<Rightarrow> mailbox" where
  "record_published room s m = m\<lparr>mb_index := AList.update room s (mb_index m),
     mb_health := mark_healthy (mb_health m), mb_writes_done := Suc (mb_writes_done m)\<rparr>"

definition record_failed :: "string \<Rightarrow> snapshot \<Rightarrow> io_error \<Rightarrow> mailbox \<Rightarrow> mailbox" where
  "record_failed room s e m = m\<lparr>mb_in_flight := False, mb_health := mark_degraded e (mb_health m),
     mb_dirty := (mb_dirty m)(room \<mapsto> (case mb_dirty m room of Some newer \<Rightarrow> newer | None \<Rightarrow> s)),
     mb_retry := List.insert room (mb_retry m)\<rparr>"

text \<open>\<open>publish\<close>, run without interruption.\<close>

definition publish :: "disk_mailbox json \<Rightarrow> write_step option \<Rightarrow> string \<Rightarrow> mailbox \<Rightarrow> mailbox" where
  "publish J fault room m =
     (case mb_dirty m room of
        None \<Rightarrow> m
      | Some s \<Rightarrow>
          (case write_snapshot J fault room s (take_dirty room m) of
             (Inr n, m) \<Rightarrow> record_published room s (record_size room n m)
           | (Inl e, m) \<Rightarrow> record_failed room s e m))"

text \<open>\<open>run_worker\<close>: the two branches of its \<open>select!\<close>, and the steps of the turn they
  start. \<open>rooms\<close> is the order in which the retry set is drained.\<close>

fun next_room :: "string list \<Rightarrow> worker" where
  "next_room [] = WIdle"
| "next_room (r # rs) = WTaken r rs"

definition worker_recv :: "mailbox \<Rightarrow> mailbox" where
  "worker_recv m =
     (case (mb_worker m, mb_channel m) of
        (WIdle, r # rs) \<Rightarrow> m\<lparr>mb_channel := rs, mb_worker := WTaken r []\<rparr>
      | _ \<Rightarrow> m)"

definition worker_tick :: "string list \<Rightarrow> mailbox \<Rightarrow> mailbox" where
  "worker_tick rooms m =
     (if mb_worker m = WIdle \<and> mb_retry m \<noteq> [] then m\<lparr>mb_retry := [], mb_worker := next_room rooms\<rparr> else m)"

definition worker_step :: "disk_mailbox json \<Rightarrow> write_step option \<Rightarrow> mailbox \<Rightarrow> mailbox" where
  "worker_step J fault m =
     (case mb_worker m of
        WIdle \<Rightarrow> m
      | WTaken r rs \<Rightarrow> m\<lparr>mb_queued := mb_queued m - {r}, mb_worker := WPublish r rs\<rparr>
      | WPublish r rs \<Rightarrow>
          (case mb_dirty m r of
             None \<Rightarrow> m\<lparr>mb_worker := next_room rs\<rparr>
           | Some s \<Rightarrow> (take_dirty r m)\<lparr>mb_worker := WWriting r s rs\<rparr>)
      | WWriting r s rs \<Rightarrow>
          (case check_quota J r s m of
             Inl e \<Rightarrow> m\<lparr>mb_worker := WDone r s (Inl e) rs\<rparr>
           | Inr encoded \<Rightarrow> m\<lparr>mb_worker := WRenaming r s encoded rs\<rparr>)
      | WRenaming r s encoded rs \<Rightarrow>
          (case replace_file fault r encoded m of (res, m) \<Rightarrow> m\<lparr>mb_worker := WDone r s res rs\<rparr>)
      | WDone r s res rs \<Rightarrow>
          (case res of
             Inr n \<Rightarrow> (record_size r n m)\<lparr>mb_worker := WSized r s rs\<rparr>
           | Inl e \<Rightarrow> (record_failed r s e m)\<lparr>mb_worker := next_room rs\<rparr>)
      | WSized r s rs \<Rightarrow> (record_published r s m)\<lparr>mb_worker := next_room rs\<rparr>)"

section \<open>The sweeper\<close>

definition expired_rooms :: "int \<Rightarrow> mailbox \<Rightarrow> string list" where
  "expired_rooms now m =
     map fst (filter (\<lambda>(_, s). is_expired (sn_ts_ms s) now (ttl_ms (mo_ttl (mb_options m)))) (mb_index m))"

definition sweep_collect :: "int \<Rightarrow> mailbox \<Rightarrow> mailbox" where
  "sweep_collect now m = m\<lparr>mb_sweeper := SwRooms (expired_rooms now m) 0\<rparr>"

text \<open>The three removals for a room; a file that cannot be removed stays.\<close>

definition drop_index :: "string \<Rightarrow> mailbox \<Rightarrow> mailbox" where
  "drop_index r m = m\<lparr>mb_index := AList.delete r (mb_index m)\<rparr>"

definition drop_size :: "string \<Rightarrow> mailbox \<Rightarrow> mailbox" where
  "drop_size r m = m\<lparr>mb_sizes := AList.delete r (mb_sizes m)\<rparr>"

definition drop_file :: "bool \<Rightarrow> string \<Rightarrow> mailbox \<Rightarrow> mailbox" where
  "drop_file fails r m = (if fails then m else m\<lparr>mb_files := AList.delete (snapshot_name r) (mb_files m)\<rparr>)"

text \<open>The loop, one removal at a time, and run without interruption (with the number of removed
  snapshots).\<close>

definition sweep_step :: "bool \<Rightarrow> mailbox \<Rightarrow> mailbox" where
  "sweep_step remove_fails m =
     (case mb_sweeper m of
        SwIdle \<Rightarrow> m
      | SwRooms [] removed \<Rightarrow> m\<lparr>mb_sweeper := SwIdle\<rparr>
      | SwRooms (r # rs) removed \<Rightarrow>
          (if map_of (mb_index m) r = None then m\<lparr>mb_sweeper := SwRooms rs removed\<rparr>
           else (drop_index r m)\<lparr>mb_sweeper := SwIndexed r rs removed\<rparr>)
      | SwIndexed r rs removed \<Rightarrow> (drop_size r m)\<lparr>mb_sweeper := SwSized r rs removed\<rparr>
      | SwSized r rs removed \<Rightarrow> (drop_file remove_fails r m)\<lparr>mb_sweeper := SwRooms rs (Suc removed)\<rparr>)"

fun sweep_rooms :: "(string \<Rightarrow> bool) \<Rightarrow> string list \<Rightarrow> nat \<Rightarrow> mailbox \<Rightarrow> nat \<times> mailbox" where
  "sweep_rooms fails [] removed m = (removed, m)"
| "sweep_rooms fails (r # rs) removed m =
     (if map_of (mb_index m) r = None then sweep_rooms fails rs removed m
      else sweep_rooms fails rs (Suc removed) (drop_file (fails r) r (drop_size r (drop_index r m))))"

definition sweep_expired :: "(string \<Rightarrow> bool) \<Rightarrow> int \<Rightarrow> mailbox \<Rightarrow> nat \<times> mailbox" where
  "sweep_expired fails now m = sweep_rooms fails (expired_rooms now m) 0 m"

section \<open>Facts\<close>

lemma check_quota_cong:
  "mb_sizes m = mb_sizes m' \<Longrightarrow> mb_options m = mb_options m' \<Longrightarrow> check_quota J r s m = check_quota J r s m'"
  by (simp only: check_quota_def)

text \<open>What the worker does in one uninterrupted turn is \<open>publish\<close>.\<close>

lemma publish_is_worker_turn:
  assumes "mb_worker m = WPublish r rs"
  shows "\<exists>n. (worker_step J fault ^^ n) m = (publish J fault r m)\<lparr>mb_worker := next_room rs\<rparr>"
proof (cases "mb_dirty m r")
  case None
  then have "(worker_step J fault ^^ 1) m = (publish J fault r m)\<lparr>mb_worker := next_room rs\<rparr>"
    using assms by (simp add: worker_step_def publish_def)
  then show ?thesis by blast
next
  case (Some s)
  let ?m1 = "(take_dirty r m)\<lparr>mb_worker := WWriting r s rs\<rparr>"
  have one: "worker_step J fault m = ?m1" using assms Some by (simp add: worker_step_def)
  have quota: "check_quota J r s ?m1 = check_quota J r s (take_dirty r m)"
    by (rule check_quota_cong) (simp_all add: take_dirty_def)
  show ?thesis
  proof (cases "check_quota J r s (take_dirty r m)")
    case (Inl e)
    then have "(worker_step J fault ^^ 3) m = (publish J fault r m)\<lparr>mb_worker := next_room rs\<rparr>"
      using one quota Some
      by (simp add: numeral_3_eq_3 worker_step_def publish_def write_snapshot_def record_failed_def)
    then show ?thesis by blast
  next
    case (Inr encoded)
    have "(worker_step J fault ^^ (if write_ok (write_outcome_of relay_style fault False) then 5 else 4)) m
        = (publish J fault r m)\<lparr>mb_worker := next_room rs\<rparr>"
      using one quota Some Inr
      by (simp add: eval_nat_numeral worker_step_def publish_def write_snapshot_def record_failed_def
          replace_file_def record_size_def record_published_def Let_def split: if_splits)
    then show ?thesis by blast
  qed
qed

section \<open>The contract of the sink\<close>

definition rooms_valid :: "mailbox \<Rightarrow> bool" where
  "rooms_valid m \<longleftrightarrow> (\<forall>r. mb_dirty m r \<noteq> None \<or> map_of (mb_index m) r \<noteq> None \<longrightarrow> is_lower_hex 32 r)"

lemma mailbox_validate_Inr: "is_ok (mailbox_validate_room_id room) \<longleftrightarrow> is_lower_hex 32 room"
  by (simp add: mailbox_validate_room_id_def is_ok_def)

lemma signal_pending_simps [simp]:
  "mb_dirty (signal_pending r m) = mb_dirty m" "mb_index (signal_pending r m) = mb_index m"
  "mb_options (signal_pending r m) = mb_options m" "mb_files (signal_pending r m) = mb_files m"
  "mb_sizes (signal_pending r m) = mb_sizes m" "mb_worker (signal_pending r m) = mb_worker m"
  "mb_retry (signal_pending r m) = mb_retry m" "mb_sweeper (signal_pending r m) = mb_sweeper m"
  "mb_signalling (signal_pending r m) = mb_signalling m"
  by (simp_all add: signal_pending_def)

lemma load_after_clip:
  assumes "rooms_valid m"
  shows "set (mailbox_load_pending now' room (mailbox_clip_pending now room fp clip m)) \<subseteq> {(fp, clip)}"
proof (cases "is_lower_hex 32 room")
  case True
  then show ?thesis
    by (cases clip) (auto simp: mailbox_clip_pending_def mailbox_validate_Inr mailbox_load_pending_def store_pending_def
        to_pending_clip_def Let_def)
next
  case False
  then have "mb_dirty m room = None" "map_of (mb_index m) room = None"
    using assms by (auto simp: rooms_valid_def)
  then show ?thesis using False
    by (simp add: mailbox_clip_pending_def mailbox_validate_Inr mailbox_load_pending_def Let_def)
qed

interpretation persistent: mailbox_laws persistent_sink rooms_valid
proof unfold_locales
  show "rooms_valid (clip_pending persistent_sink now room fp clip m)" if "rooms_valid m" for m now room fp clip
    using that by (auto simp: persistent_sink_def mailbox_clip_pending_def mailbox_validate_Inr rooms_valid_def store_pending_def)
  show "length (load_pending persistent_sink now room m) \<le> 1" for m now room
    by (simp add: persistent_sink_def mailbox_load_pending_def Let_def split: option.split)
  show "set (load_pending persistent_sink now' room (clip_pending persistent_sink now room fp clip m)) \<subseteq> {(fp, clip)}"
    if "rooms_valid m" for m now now' room fp clip
    using load_after_clip [OF that] by (simp add: persistent_sink_def)
  show "load_pending persistent_sink now' room' (clip_pending persistent_sink now room fp clip m)
      = load_pending persistent_sink now' room' m" if "room' \<noteq> room" for m now now' room room' fp clip
    using that by (simp add: persistent_sink_def mailbox_clip_pending_def mailbox_load_pending_def store_pending_def
        split: option.split)
qed (simp_all add: persistent_sink_def)

end
