(* ===== verification/Mailbox_Runs.thy ===== *)
theory Mailbox_Runs
  imports Mailbox
begin

text \<open>
  What the persistent mailbox guarantees over its runs, in which calls of \<open>clip_pending\<close>, the
  publication worker and the sweeper interleave at the granularity of their accesses to shared
  maps: no clip is forgotten (every unpublished room is on its way to the worker), the newest clip
  of a room is always in \<open>dirty\<close>, in the worker's hands or in the index, what the index holds
  can be read back from the directory, and the storage quota is kept. The last section records two
  races.
\<close>

section \<open>Runs\<close>

definition snapshot_ok :: "crates \<Rightarrow> snapshot \<Rightarrow> bool" where
  "snapshot_ok X s \<longleftrightarrow> is_lower_hex 64 (sn_recipient_fp s) \<and> is_lower_hex 64 (sn_origin_fp s)
     \<and> (\<exists>bs. b64_decode X (sn_ciphertext_b64 s) = Inr bs \<and> b64_encode X bs = sn_ciphertext_b64 s) \<and> sn_ts_ms s > 0"

definition pending_snapshot :: "int \<Rightarrow> string \<Rightarrow> pending_clip \<Rightarrow> snapshot" where
  "pending_snapshot now fp clip = \<lparr>sn_recipient_fp = fp, sn_origin_fp = pc_origin_device clip,
     sn_ciphertext_b64 = pc_ciphertext_b64 clip, sn_ts_ms = now\<rparr>"

lemma store_pending_eq: "store_pending now r fp clip m = m\<lparr>mb_dirty := (mb_dirty m)(r \<mapsto> pending_snapshot now fp clip)\<rparr>"
  by (simp add: store_pending_def pending_snapshot_def)

text \<open>The runs of a mailbox \<open>m0\<close> as opened; \<open>latest\<close> is the newest clip of each room and
  \<open>swept\<close> the rooms a sweep has ever found expired.\<close>

inductive mb_reach ::
  "crates \<Rightarrow> disk_mailbox json \<Rightarrow> mailbox \<Rightarrow> mailbox \<Rightarrow> (string \<rightharpoonup> snapshot) \<Rightarrow> string set \<Rightarrow> bool"
  for X J m0 where
  mb_open: "open_mailbox X J env options fl = Inr m0 \<Longrightarrow> distinct (map fst fl)
    \<Longrightarrow> mb_reach X J m0 m0 (map_of (mb_index m0)) {}"
| mb_store: "mb_reach X J m0 m latest swept \<Longrightarrow> is_lower_hex 32 r \<Longrightarrow> snapshot_ok X (pending_snapshot now fp clip)
    \<Longrightarrow> mb_reach X J m0 ((store_pending now r fp clip m)\<lparr>mb_signalling := r # mb_signalling m\<rparr>)
          (latest(r \<mapsto> pending_snapshot now fp clip)) swept"
| mb_signal: "mb_reach X J m0 m latest swept \<Longrightarrow> r \<in> set (mb_signalling m)
    \<Longrightarrow> mb_reach X J m0 ((signal_pending r m)\<lparr>mb_signalling := remove1 r (mb_signalling m)\<rparr>) latest swept"
| mb_recv: "mb_reach X J m0 m latest swept \<Longrightarrow> mb_reach X J m0 (worker_recv m) latest swept"
| mb_tick: "mb_reach X J m0 m latest swept \<Longrightarrow> set rooms = set (mb_retry m) \<Longrightarrow> mb_reach X J m0 (worker_tick rooms m) latest swept"
| mb_step: "mb_reach X J m0 m latest swept \<Longrightarrow> mb_reach X J m0 (worker_step J fault m) latest swept"
| mb_collect: "mb_reach X J m0 m latest swept \<Longrightarrow> mb_sweeper m = SwIdle
    \<Longrightarrow> mb_reach X J m0 (sweep_collect now m) latest (swept \<union> set (expired_rooms now m))"
| mb_sweep: "mb_reach X J m0 m latest swept \<Longrightarrow> mb_reach X J m0 (sweep_step fails m) latest swept"

text \<open>A call of \<open>clip_pending\<close> that nothing interrupts is two of these steps.\<close>

lemma mb_clip_pending:
  assumes "mb_reach X J m0 m latest swept" "is_lower_hex 32 r" "snapshot_ok X (pending_snapshot now fp clip)"
  shows "mb_reach X J m0 (clip_pending persistent_sink now r fp clip m) (latest(r \<mapsto> pending_snapshot now fp clip)) swept"
proof -
  have "(signal_pending r ((store_pending now r fp clip m)\<lparr>mb_signalling := r # mb_signalling m\<rparr>))
      \<lparr>mb_signalling := mb_signalling m\<rparr> = clip_pending persistent_sink now r fp clip m"
    using assms(2) by (simp add: persistent_sink_def mailbox_clip_pending_def mailbox_validate_Inr signal_pending_def store_pending_def)
  then show ?thesis using mb_signal [OF mb_store [OF assms], of r] by simp
qed

section \<open>No lost wake-up\<close>

text \<open>The rooms the worker has still to look at in its turn.\<close>

fun todo :: "worker \<Rightarrow> string list" where
  "todo WIdle = []"
| "todo (WTaken r rs) = r # rs"
| "todo (WPublish r rs) = r # rs"
| "todo (WWriting r s rs) = rs"
| "todo (WRenaming r s bs rs) = rs"
| "todo (WDone r s (Inl e) rs) = r # rs"
| "todo (WDone r s (Inr n) rs) = rs"
| "todo (WSized r s rs) = rs"

fun taken :: "worker \<Rightarrow> string set" where
  "taken (WTaken r rs) = {r}"
| "taken _ = {}"

definition awaited :: "mailbox \<Rightarrow> string set" where
  "awaited m = set (mb_signalling m) \<union> set (mb_channel m) \<union> set (mb_retry m) \<union> set (todo (mb_worker m))"

definition wake_ok :: "mailbox \<Rightarrow> bool" where
  "wake_ok m \<longleftrightarrow> dom (mb_dirty m) \<subseteq> awaited m \<and> mb_queued m \<subseteq> set (mb_channel m) \<union> taken (mb_worker m)"

lemma todo_next_room [simp]: "todo (next_room rs) = rs" by (cases rs) simp_all
lemma taken_next_room [simp]: "taken (next_room rs) = set (take 1 rs)" by (cases rs) simp_all

lemma taken_todo: "taken w \<subseteq> set (todo w)" by (cases w) simp_all

lemma open_mailbox_fresh:
  assumes "open_mailbox X J env options fl = Inr m"
  shows "mb_dirty m = Map.empty" "mb_queued m = {}" "mb_channel m = []" "mb_retry m = []" "mb_worker m = WIdle"
    "mb_sweeper m = SwIdle" "mb_signalling m = []" "mb_options m = options"
    and "\<exists>index sizes fl'. scan_dir X J env (ttl_ms (mo_ttl options)) fl ([], [], fl) = Inr (index, sizes, fl')
      \<and> mb_index m = index \<and> mb_sizes m = sizes \<and> mb_files m = fl'"
  using assms by (auto simp: open_mailbox_def and_then_eq_Inr split: if_splits)

lemma worker_step_wake: "wake_ok m \<Longrightarrow> wake_ok (worker_step J fault m)"
proof (cases "mb_worker m")
  case (WDone r s res rs)
  assume "wake_ok m"
  with WDone show ?thesis
    by (cases res) (auto simp: worker_step_def wake_ok_def awaited_def record_size_def record_failed_def split: if_splits)
qed (auto simp: worker_step_def wake_ok_def awaited_def take_dirty_def replace_file_def record_published_def Let_def
       split: option.splits sum.splits if_splits)

lemma mb_reach_wake: "mb_reach X J m0 m latest swept \<Longrightarrow> wake_ok m"
proof (induction rule: mb_reach.induct)
  case (mb_open env options fl)
  show ?case using open_mailbox_fresh [OF mb_open(1)] by (simp add: wake_ok_def)
next
  case (mb_store m latest swept r now fp clip)
  then show ?case by (auto simp: wake_ok_def awaited_def store_pending_def split: if_splits)
next
  case (mb_signal m latest swept r)
  let ?m = "(signal_pending r m)\<lparr>mb_signalling := remove1 r (mb_signalling m)\<rparr>"
  have "r \<in> set (mb_channel ?m) \<union> set (todo (mb_worker ?m))"
    using mb_signal taken_todo [of "mb_worker m"] by (auto simp: wake_ok_def signal_pending_def)
  moreover have "set (mb_signalling m) \<subseteq> insert r (set (remove1 r (mb_signalling m)))"
    by (metis in_set_remove1 insert_iff subsetI)
  moreover have "set (mb_channel m) \<subseteq> set (mb_channel ?m)" by (auto simp: signal_pending_def)
  ultimately have "awaited m \<subseteq> awaited ?m" by (auto simp: awaited_def)
  moreover have "mb_queued ?m \<subseteq> set (mb_channel ?m) \<union> taken (mb_worker ?m)"
    using mb_signal by (auto simp: wake_ok_def signal_pending_def)
  ultimately show ?case using mb_signal by (auto simp: wake_ok_def)
next
  case (mb_recv m latest swept)
  then show ?case by (auto simp: wake_ok_def awaited_def worker_recv_def split: worker.splits list.splits)
next
  case (mb_tick m latest swept rooms)
  then show ?case by (auto simp: wake_ok_def awaited_def worker_tick_def)
next
  case (mb_step m latest swept fault)
  then show ?case by (simp add: worker_step_wake)
next
  case (mb_collect m latest swept now)
  then show ?case by (simp add: wake_ok_def awaited_def sweep_collect_def)
next
  case (mb_sweep m latest swept fails)
  then show ?case
    by (auto simp: wake_ok_def awaited_def sweep_step_def drop_index_def drop_size_def drop_file_def split: sweeper.splits list.splits)
qed

section \<open>The newest clip\<close>

fun hand :: "worker \<Rightarrow> (string \<times> snapshot) option" where
  "hand (WWriting r s rs) = Some (r, s)"
| "hand (WRenaming r s bs rs) = Some (r, s)"
| "hand (WDone r s res rs) = Some (r, s)"
| "hand (WSized r s rs) = Some (r, s)"
| "hand _ = None"

definition held :: "worker \<Rightarrow> string \<Rightarrow> snapshot option" where
  "held w r = (case hand w of Some (q, s) \<Rightarrow> if q = r then Some s else None | None \<Rightarrow> None)"

definition newest :: "mailbox \<Rightarrow> string \<Rightarrow> snapshot option" where
  "newest m r = or_else (mb_dirty m r) (or_else (held (mb_worker m) r) (map_of (mb_index m) r))"

lemma hand_next_room [simp]: "hand (next_room rs) = None" by (cases rs) simp_all

definition sweeping :: "sweeper \<Rightarrow> string set" where
  "sweeping sw = (case sw of SwIdle \<Rightarrow> {} | SwRooms rs n \<Rightarrow> set rs | SwIndexed r rs n \<Rightarrow> insert r (set rs)
     | SwSized r rs n \<Rightarrow> insert r (set rs))"

lemma worker_step_newest: "newest (worker_step J fault m) r = newest m r"
proof (cases "mb_worker m")
  case (WDone q s res rs)
  then show ?thesis
    by (cases res) (auto simp: worker_step_def newest_def held_def record_size_def record_failed_def split: option.splits)
qed (auto simp: worker_step_def newest_def held_def take_dirty_def replace_file_def record_published_def Let_def map_of_update
       split: option.splits sum.splits)

lemma mb_reach_newest:
  "mb_reach X J m0 m latest swept \<Longrightarrow> (\<forall>r. r \<notin> swept \<longrightarrow> newest m r = latest r) \<and> sweeping (mb_sweeper m) \<subseteq> swept"
proof (induction rule: mb_reach.induct)
  case (mb_open env options fl)
  show ?case using open_mailbox_fresh [OF mb_open(1)] by (simp add: newest_def held_def sweeping_def)
next
  case (mb_store m latest swept r now fp clip)
  then show ?case by (auto simp: newest_def held_def store_pending_eq)
next
  case (mb_signal m latest swept r)
  then show ?case by (simp add: newest_def held_def)
next
  case (mb_recv m latest swept)
  then show ?case by (auto simp: newest_def held_def worker_recv_def split: worker.splits list.splits)
next
  case (mb_tick m latest swept rooms)
  then show ?case by (auto simp: newest_def held_def worker_tick_def)
next
  case (mb_step m latest swept fault)
  have "mb_sweeper (worker_step J fault m) = mb_sweeper m"
    by (auto simp: worker_step_def take_dirty_def replace_file_def record_published_def record_size_def record_failed_def Let_def
        split: worker.splits option.splits sum.splits)
  then show ?case using mb_step by (simp add: worker_step_newest)
next
  case (mb_collect m latest swept now)
  then show ?case by (auto simp: newest_def held_def sweep_collect_def sweeping_def)
next
  case (mb_sweep m latest swept fails)
  have "newest (sweep_step fails m) r = newest m r" if "r \<notin> swept" for r
    using mb_sweep that
    by (auto simp: newest_def held_def sweep_step_def drop_index_def drop_size_def drop_file_def sweeping_def map_of_delete
        split: sweeper.splits list.splits option.splits)
  moreover have "sweeping (mb_sweeper (sweep_step fails m)) \<subseteq> sweeping (mb_sweeper m)"
    by (auto simp: sweep_step_def drop_index_def drop_size_def drop_file_def sweeping_def split: sweeper.splits list.splits)
  ultimately show ?case using mb_sweep by auto
qed

section \<open>What is on disk\<close>

definition readable :: "crates \<Rightarrow> disk_mailbox json \<Rightarrow> (string \<times> bytes) list \<Rightarrow> string \<Rightarrow> snapshot \<Rightarrow> bool" where
  "readable X J fl r s \<longleftrightarrow> (\<exists>bs. map_of fl (snapshot_name r) = Some bs \<and> read_snapshot X J bs r = Inr s)"

lemma snapshot_name_eq [simp]: "snapshot_name r = snapshot_name q \<longleftrightarrow> r = q"
  by (simp add: snapshot_name_def)

lemma strip_suffix_name: "strip_suffix ''.json'' name = Some r \<longleftrightarrow> name = snapshot_name r"
proof
  assume "strip_suffix ''.json'' name = Some r"
  then have "r = take (length name - length ''.json'') name" "drop (length name - length ''.json'') name = ''.json''"
    by (auto simp: strip_suffix_def split: if_splits)
  then show "name = snapshot_name r" unfolding snapshot_name_def by (metis append_take_drop_id)
qed (simp add: strip_suffix_def snapshot_name_def)

text \<open>A written snapshot is read back.\<close>

lemma read_back:
  assumes "json_law J" "is_lower_hex 32 r" "snapshot_ok X s" "to_json J (to_disk s r) = Inr bs"
  shows "read_snapshot X J bs r = Inr s"
  using assms
  by (auto simp: json_law_def read_snapshot_def into_snapshot_def to_disk_def snapshot_ok_def mailbox_validate_room_id_def
      validate_fingerprint_def)

lemma read_snapshot_ok:
  assumes "read_snapshot X J bs r = Inr s" shows "is_lower_hex 32 r \<and> snapshot_ok X s"
  using assms
  by (auto simp: read_snapshot_def into_snapshot_def snapshot_ok_def mailbox_validate_room_id_def validate_fingerprint_def
      and_then_eq_Inr map_err_def split: sum.splits if_splits)

text \<open>All unpublished snapshots can be stored, and a room that is neither unpublished nor in the
  worker's hands is readable from its file unless a sweep got to it; so is a snapshot the worker has
  just written.\<close>

definition just_written :: "worker \<Rightarrow> (string \<times> snapshot) option" where
  "just_written w = (case w of WDone r s (Inr n) rs \<Rightarrow> Some (r, s) | WSized r s rs \<Rightarrow> Some (r, s) | _ \<Rightarrow> None)"

definition disk_ok :: "crates \<Rightarrow> disk_mailbox json \<Rightarrow> string set \<Rightarrow> mailbox \<Rightarrow> bool" where
  "disk_ok X J swept m \<longleftrightarrow>
     (\<forall>r s. mb_dirty m r = Some s \<or> held (mb_worker m) r = Some s \<longrightarrow> is_lower_hex 32 r \<and> snapshot_ok X s)
     \<and> (\<forall>r s bs rs. mb_worker m = WRenaming r s bs rs \<longrightarrow> to_json J (to_disk s r) = Inr bs)
     \<and> (\<forall>r s n rs. mb_worker m = WDone r s (Inr n) rs \<longrightarrow> (\<exists>bs. to_json J (to_disk s r) = Inr bs \<and> n = length bs))
     \<and> (\<forall>r s. just_written (mb_worker m) = Some (r, s) \<and> r \<notin> swept \<longrightarrow> readable X J (mb_files m) r s)
     \<and> (\<forall>r s. r \<notin> swept \<and> mb_dirty m r = None \<and> held (mb_worker m) r = None \<and> map_of (mb_index m) r = Some s
          \<longrightarrow> readable X J (mb_files m) r s)"

lemma just_written_next_room [simp]: "just_written (next_room rs) = None"
  by (cases rs) (simp_all add: just_written_def)

lemma held_simps [simp]:
  "held WIdle r = None" "held (WTaken q rs) r = None" "held (WPublish q rs) r = None" "held (next_room rs) r = None"
  "held (WWriting q s rs) r = (if q = r then Some s else None)" "held (WRenaming q s bs rs) r = (if q = r then Some s else None)"
  "held (WDone q s res rs) r = (if q = r then Some s else None)" "held (WSized q s rs) r = (if q = r then Some s else None)"
  by (simp_all add: held_def)

lemma just_written_simps [simp]:
  "just_written WIdle = None" "just_written (WTaken q rs) = None" "just_written (WPublish q rs) = None"
  "just_written (WWriting q s rs) = None" "just_written (WRenaming q s bs rs) = None"
  "just_written (WDone q s (Inl e) rs) = None" "just_written (WDone q s (Inr n) rs) = Some (q, s)"
  "just_written (WSized q s rs) = Some (q, s)"
  by (simp_all add: just_written_def)

lemma next_room_not_renaming [simp]: "next_room rs \<noteq> WRenaming r s bs qs" by (cases rs) simp_all

lemma next_room_not_done [simp]: "next_room rs \<noteq> WDone r s res qs" by (cases rs) simp_all

lemma readable_update:
  "readable X J (AList.update (snapshot_name q) bs fl) r s
     \<longleftrightarrow> (if r = q then read_snapshot X J bs r = Inr s else readable X J fl r s)"
  by (auto simp: readable_def map_of_update)

lemma check_quota_encoded: "check_quota J r s m = Inr bs \<Longrightarrow> to_json J (to_disk s r) = Inr bs"
  by (auto simp: check_quota_def and_then_eq_Inr map_err_def Let_def split: if_splits sum.splits)

lemma worker_step_disk:
  assumes law: "json_law J" and ok: "disk_ok X J swept m"
  shows "disk_ok X J swept (worker_step J fault m)"
proof (cases "mb_worker m")
  case (WPublish r rs)
  then show ?thesis using ok
    by (cases "mb_dirty m r") (auto simp: worker_step_def disk_ok_def take_dirty_def split: if_splits)
next
  case (WWriting r s rs)
  then show ?thesis using ok check_quota_encoded
    by (cases "check_quota J r s m") (auto simp: worker_step_def disk_ok_def split: if_splits)
next
  case (WRenaming r s bs rs)
  have rb: "read_snapshot X J bs r = Inr s"
    using ok WRenaming by (intro read_back [OF law]) (auto simp: disk_ok_def)
  show ?thesis
    using ok WRenaming rb
    by (cases "write_outcome_of relay_style fault False")
       (auto simp: worker_step_def disk_ok_def replace_file_def Let_def readable_update split: if_splits)
next
  case (WDone r s res rs)
  then show ?thesis using ok
    by (cases res) (auto simp: worker_step_def disk_ok_def record_size_def record_failed_def split: if_splits option.splits)
next
  case (WSized r s rs)
  then show ?thesis using ok by (auto simp: worker_step_def disk_ok_def record_published_def map_of_update split: if_splits)
qed (use ok in \<open>auto simp: worker_step_def disk_ok_def\<close>)

lemma sweep_step_disk:
  assumes "disk_ok X J swept m" "sweeping (mb_sweeper m) \<subseteq> swept"
  shows "disk_ok X J swept (sweep_step fails m)"
proof -
  have del: "readable X J (AList.delete (snapshot_name q) fl) r s \<longleftrightarrow> readable X J fl r s" if "r \<noteq> q" for q r s fl
    using that by (auto simp: readable_def map_of_delete)
  show ?thesis
  proof (cases "mb_sweeper m")
    case (SwSized q rs n)
    then have "q \<in> swept" using assms(2) by (simp add: sweeping_def)
    then show ?thesis using assms(1) SwSized del
      by (auto simp: disk_ok_def sweep_step_def drop_file_def) (metis del)+
  next
    case (SwRooms rs n)
    then show ?thesis using assms
      by (cases rs) (auto simp: disk_ok_def sweep_step_def drop_index_def map_of_delete sweeping_def split: if_splits)
  qed (use assms in \<open>auto simp: disk_ok_def sweep_step_def drop_size_def\<close>)
qed

text \<open>What a scan builds: the index holds what the remaining files say, and the sizes belong to
  distinct rooms.\<close>

definition scan_ok :: "crates \<Rightarrow> disk_mailbox json \<Rightarrow> (string \<times> bytes) list \<Rightarrow> scan \<Rightarrow> bool" where
  "scan_ok X J entries acc = (case acc of (index, sizes, fl) \<Rightarrow>
     (\<forall>r s. map_of index r = Some s \<longrightarrow> readable X J fl r s \<and> snapshot_name r \<notin> fst ` set entries)
     \<and> (\<forall>n c. (n, c) \<in> set entries \<longrightarrow> map_of fl n = Some c) \<and> distinct (map fst sizes))"

lemma scan_entry_cases:
  assumes "scan_entry X J env ttl (name, c) (index, sizes, fl) = Inr acc"
  obtains (skipped) "acc = (index, sizes, fl)"
  | (expired) r s where "acc = (index, sizes, AList.delete name fl)" "name = snapshot_name r" "read_snapshot X J c r = Inr s"
      "is_expired (sn_ts_ms s) (sc_now env name) ttl"
  | (kept) r s where "name = snapshot_name r" "read_snapshot X J c r = Inr s"
      "acc = (AList.update r s index, AList.update r (length c) sizes, fl)"
  using assms
  by (auto simp: scan_entry_def strip_suffix_name split: option.splits sum.splits if_splits)

lemma scan_entry_ok:
  assumes acc: "scan_ok X J ((name, c) # entries) acc" and dist: "name \<notin> fst ` set entries"
    and run: "scan_entry X J env ttl (name, c) acc = Inr acc'"
  shows "scan_ok X J entries acc'"
proof -
  obtain index sizes fl where a: "acc = (index, sizes, fl)" by (cases acc)
  have del: "readable X J (AList.delete name fl) q t \<longleftrightarrow> readable X J fl q t" if "snapshot_name q \<noteq> name" for q t
    using that by (simp add: readable_def map_of_delete)
  from run [unfolded a] show ?thesis
  proof (cases rule: scan_entry_cases)
    case (expired r s)
    have "readable X J (AList.delete name fl) q t \<and> snapshot_name q \<notin> fst ` set entries" if "map_of index q = Some t" for q t
      using acc a del that by (auto simp: scan_ok_def)
    moreover have "map_of (AList.delete name fl) n = Some d" if "(n, d) \<in> set entries" for n d
      using acc a dist that by (force simp: scan_ok_def map_of_delete)
    moreover have "distinct (map fst sizes)" using acc a by (simp add: scan_ok_def)
    ultimately show ?thesis using expired(1) by (simp add: scan_ok_def)
  next
    case (kept r s)
    have "readable X J fl r s" using acc a kept by (auto simp: scan_ok_def readable_def)
    then show ?thesis using acc dist a kept by (auto simp: scan_ok_def map_of_update distinct_update split: if_splits)
  qed (use acc a in \<open>auto simp: scan_ok_def\<close>)
qed

lemma scan_dir_ok:
  "scan_ok X J entries acc \<Longrightarrow> distinct (map fst entries) \<Longrightarrow> scan_dir X J env ttl entries acc = Inr acc'
    \<Longrightarrow> scan_ok X J [] acc'"
proof (induction entries arbitrary: acc)
  case (Cons e entries)
  obtain name c where e: "e = (name, c)" by (cases e)
  obtain acc1 where one: "scan_entry X J env ttl (name, c) acc = Inr acc1" "scan_dir X J env ttl entries acc1 = Inr acc'"
    using Cons.prems(3) e by (auto simp: and_then_eq_Inr)
  have "scan_ok X J entries acc1"
    using scan_entry_ok [OF _ _ one(1)] Cons.prems(1,2) e by auto
  then show ?case using Cons.IH [OF _ _ one(2)] Cons.prems(2) by simp
qed simp

lemma scan_files_distinct:
  "scan_dir X J env ttl entries (index, sizes, fl) = Inr (index', sizes', fl') \<Longrightarrow> distinct (map fst fl) \<Longrightarrow> distinct (map fst fl')"
proof (induction entries arbitrary: index sizes fl)
  case (Cons e entries)
  obtain name c where e: "e = (name, c)" by (cases e)
  obtain acc1 where one: "scan_entry X J env ttl (name, c) (index, sizes, fl) = Inr acc1"
      "scan_dir X J env ttl entries acc1 = Inr (index', sizes', fl')"
    using Cons.prems(1) e by (auto simp: and_then_eq_Inr)
  from one(1) show ?case
    by (cases rule: scan_entry_cases) (use Cons.IH Cons.prems(2) one(2) distinct_delete [of fl name] in auto)
qed simp

lemma open_mailbox_disk:
  assumes "open_mailbox X J env options fl = Inr m" "distinct (map fst fl)"
  shows "disk_ok X J {} m" "distinct (map fst (mb_sizes m))" "distinct (map fst (mb_files m))"
proof -
  obtain index sizes fl' where scan: "scan_dir X J env (ttl_ms (mo_ttl options)) fl ([], [], fl) = Inr (index, sizes, fl')"
    "mb_index m = index" "mb_sizes m = sizes" "mb_files m = fl'"
    using open_mailbox_fresh(9) [OF assms(1)] by auto
  have "scan_ok X J fl ([], [], fl)" using assms(2) by (auto simp: scan_ok_def)
  then have "scan_ok X J [] (index, sizes, fl')" using assms(2) scan(1) by (rule scan_dir_ok)
  then show "disk_ok X J {} m" "distinct (map fst (mb_sizes m))"
    using open_mailbox_fresh [OF assms(1)] scan by (simp_all add: disk_ok_def scan_ok_def)
  show "distinct (map fst (mb_files m))" using scan_files_distinct [OF scan(1) assms(2)] scan(4) by simp
qed

lemma disk_ok_mono: "disk_ok X J swept m \<Longrightarrow> swept \<subseteq> swept' \<Longrightarrow> disk_ok X J swept' m"
  unfolding disk_ok_def by blast

lemma mb_reach_disk:
  assumes law: "json_law J"
  shows "mb_reach X J m0 m latest swept \<Longrightarrow> disk_ok X J swept m \<and> distinct (map fst (mb_files m))"
proof (induction rule: mb_reach.induct)
  case (mb_open env options fl)
  then show ?case using open_mailbox_disk by blast
next
  case (mb_store m latest swept r now fp clip)
  then show ?case by (auto simp: disk_ok_def store_pending_eq split: if_splits)
next
  case (mb_signal m latest swept r)
  then show ?case by (simp add: disk_ok_def)
next
  case (mb_recv m latest swept)
  then show ?case by (auto simp: disk_ok_def worker_recv_def split: worker.splits list.splits)
next
  case (mb_tick m latest swept rooms)
  then show ?case by (auto simp: disk_ok_def worker_tick_def)
next
  case (mb_step m latest swept fault)
  have "distinct (map fst (mb_files (worker_step J fault m)))"
    using mb_step by (auto simp: worker_step_def take_dirty_def replace_file_def record_published_def record_size_def
        record_failed_def Let_def after_write_def distinct_update split: worker.splits option.splits sum.splits)
  then show ?case using mb_step worker_step_disk [OF law] by blast
next
  case (mb_collect m latest swept now)
  then have "disk_ok X J (swept \<union> set (expired_rooms now m)) m" using disk_ok_mono by blast
  then show ?case using mb_collect by (simp add: disk_ok_def sweep_collect_def)
next
  case (mb_sweep m latest swept fails)
  have "sweeping (mb_sweeper m) \<subseteq> swept" using mb_reach_newest [OF mb_sweep(1)] by blast
  moreover have "distinct (map fst (mb_files (sweep_step fails m)))"
    using mb_sweep by (auto simp: sweep_step_def drop_index_def drop_size_def drop_file_def distinct_delete
        split: sweeper.splits list.splits)
  ultimately show ?case using mb_sweep sweep_step_disk by blast
qed

section \<open>Reopening\<close>

text \<open>Without faults a scan puts exactly the readable, unexpired snapshots into the index.\<close>

lemma scan_dir_index:
  assumes "\<And>n. \<not> sc_read_fails env n" "\<And>n. \<not> sc_metadata_fails env n" "distinct (map fst entries)"
  shows "\<exists>index' sizes' fl'. scan_dir X J env ttl entries (index, sizes, fl) = Inr (index', sizes', fl')
    \<and> (\<forall>r s c. map_of entries (snapshot_name r) = Some c \<and> read_snapshot X J c r = Inr s
          \<and> \<not> is_expired (sn_ts_ms s) (sc_now env (snapshot_name r)) ttl \<longrightarrow> map_of index' r = Some s)
    \<and> (\<forall>r. map_of entries (snapshot_name r) = None \<longrightarrow> map_of index' r = map_of index r)"
  using assms(3)
proof (induction entries arbitrary: index sizes fl)
  case (Cons e entries)
  obtain name c where e: "e = (name, c)" by (cases e)
  have one: "\<exists>acc1. scan_entry X J env ttl (name, c) (index, sizes, fl) = Inr acc1"
    using assms(1,2) by (auto simp: scan_entry_def split: option.split sum.split)
  then obtain index1 sizes1 fl1 where one: "scan_entry X J env ttl (name, c) (index, sizes, fl) = Inr (index1, sizes1, fl1)"
    by auto
  have dist: "distinct (map fst entries)" using Cons.prems by simp
  from Cons.IH [OF dist, of index1 sizes1 fl1] obtain index' sizes' fl' where
    rest: "scan_dir X J env ttl entries (index1, sizes1, fl1) = Inr (index', sizes', fl')"
    and known: "\<forall>r s c. map_of entries (snapshot_name r) = Some c \<and> read_snapshot X J c r = Inr s
          \<and> \<not> is_expired (sn_ts_ms s) (sc_now env (snapshot_name r)) ttl \<longrightarrow> map_of index' r = Some s"
    and absent: "\<forall>r. map_of entries (snapshot_name r) = None \<longrightarrow> map_of index' r = map_of index1 r" by blast
  have new: "map_of entries name = None" using Cons.prems e by (simp add: map_of_eq_None_iff)
  have here: "map_of index1 r = Some s"
    if "name = snapshot_name r" "read_snapshot X J c r = Inr s" "\<not> is_expired (sn_ts_ms s) (sc_now env name) ttl" for r s
    using one that assms(1,2) read_snapshot_ok [OF that(2)]
    by (auto simp: scan_entry_def strip_suffix_name [THEN iffD2] mailbox_validate_Inr map_of_update split: option.splits)
  have other: "map_of index1 r = map_of index r" if "snapshot_name r \<noteq> name" for r
    using one by (cases rule: scan_entry_cases) (use that in \<open>auto simp: map_of_update\<close>)
  have "map_of index' r = Some s"
    if "map_of (e # entries) (snapshot_name r) = Some d" "read_snapshot X J d r = Inr s"
      "\<not> is_expired (sn_ts_ms s) (sc_now env (snapshot_name r)) ttl" for r s d
  proof (cases "snapshot_name r = name")
    case True
    then show ?thesis using that e here new absent by simp
  next
    case False
    then show ?thesis using that e known by simp
  qed
  moreover have "map_of index' r = map_of index r" if "map_of (e # entries) (snapshot_name r) = None" for r
    using that e other absent by (simp split: if_splits)
  moreover have "scan_dir X J env ttl (e # entries) (index, sizes, fl) = Inr (index', sizes', fl')" using one rest e by simp
  ultimately show ?case by blast
qed simp

section \<open>A concrete mailbox\<close>

definition demo_pending_clip :: pending_clip where
  "demo_pending_clip = \<lparr>pc_origin_device = fst demo_members, pc_ciphertext_b64 = []\<rparr>"

definition demo_snapshot :: snapshot where
  "demo_snapshot = pending_snapshot 9 (snd demo_members) demo_pending_clip"

definition demo_disk_json :: "disk_mailbox json" where
  "demo_disk_json = table_json [to_disk demo_snapshot demo_room_id]"

definition demo_scan :: scan_env where
  "demo_scan = \<lparr>sc_dir_fails = False, sc_read_fails = (\<lambda>_. False), sc_remove_fails = (\<lambda>_. False),
     sc_metadata_fails = (\<lambda>_. False), sc_now = (\<lambda>_. 9)\<rparr>"

definition demo_mailbox :: mailbox where
  "demo_mailbox = \<lparr>mb_options = mailbox_options_default, mb_files = [], mb_index = [], mb_dirty = Map.empty, mb_queued = {},
     mb_sizes = [], mb_channel = [], mb_health = \<lparr>hp_degraded = False, hp_last_error = None\<rparr>,
     mb_writes_done = 0, mb_in_flight = False, mb_retry = [], mb_worker = WIdle, mb_sweeper = SwIdle, mb_signalling = []\<rparr>"

definition demo_stored :: mailbox where
  "demo_stored = clip_pending persistent_sink 9 demo_room_id (snd demo_members) demo_pending_clip demo_mailbox"

lemma demo_hex: "is_lower_hex 32 demo_room_id" "is_lower_hex 64 (fst demo_members)" "is_lower_hex 64 (snd demo_members)"
  by code_simp+

lemma demo_snapshot_ok: "snapshot_ok demo_crates demo_snapshot"
  using demo_hex by (simp add: snapshot_ok_def demo_snapshot_def pending_snapshot_def demo_pending_clip_def demo_crates_def)

lemma demo_mailbox_reach: "mb_reach demo_crates demo_disk_json demo_mailbox demo_mailbox Map.empty {}"
proof -
  have "open_mailbox demo_crates demo_disk_json demo_scan mailbox_options_default [] = Inr demo_mailbox"
    by (simp add: open_mailbox_def demo_scan_def demo_mailbox_def)
  from mb_open [OF this] show ?thesis by (simp add: demo_mailbox_def)
qed

lemma demo_stored_reach:
  "mb_reach demo_crates demo_disk_json demo_mailbox demo_stored [demo_room_id \<mapsto> demo_snapshot] {}"
  using mb_clip_pending [OF demo_mailbox_reach demo_hex(1), of 9 "snd demo_members" demo_pending_clip] demo_snapshot_ok
  by (simp add: demo_stored_def demo_snapshot_def)

lemma demo_stored_eq:
  "demo_stored = demo_mailbox\<lparr>mb_dirty := [demo_room_id \<mapsto> demo_snapshot], mb_queued := {demo_room_id}, mb_channel := [demo_room_id]\<rparr>"
  using demo_hex(1) by (simp add: demo_stored_def persistent_sink_def mailbox_clip_pending_def mailbox_validate_Inr
      signal_pending_def store_pending_eq demo_mailbox_def demo_snapshot_def)

definition quiescent :: "mailbox \<Rightarrow> bool" where
  "quiescent m \<longleftrightarrow> mb_worker m = WIdle \<and> mb_channel m = [] \<and> mb_retry m = [] \<and> mb_signalling m = []"

section \<open>The storage quota\<close>

definition stored :: "(string \<times> nat) list \<Rightarrow> nat" where "stored sizes = sum_list (map snd sizes)"

lemma stored_delete_le: "stored (AList.delete r sizes) \<le> stored sizes"
  by (induction sizes) (auto simp: stored_def)

lemma stored_delete_swap: "stored (AList.delete r (AList.delete q sizes)) \<le> stored (AList.delete r sizes)"
  by (simp add: delete_twist [of r q] stored_delete_le)

lemma stored_without:
  "distinct (map fst sizes) \<Longrightarrow> stored sizes - (case map_of sizes r of Some n \<Rightarrow> n | None \<Rightarrow> 0) = stored (AList.delete r sizes)"
proof (induction sizes)
  case (Cons p sizes)
  obtain q n where p: "p = (q, n)" by (cases p)
  show ?case
  proof (cases "q = r")
    case True
    then have "AList.delete r sizes = sizes" using Cons.prems p by (simp add: delete_idem)
    then show ?thesis using True p by (simp add: stored_def)
  next
    case False
    have "(case map_of sizes r of Some n \<Rightarrow> n | None \<Rightarrow> 0) \<le> stored sizes"
      by (auto simp: stored_def split: option.split dest!: map_of_SomeD intro!: member_le_sum_list rev_image_eqI)
    then show ?thesis using Cons False p by (simp add: stored_def)
  qed
qed (simp add: stored_def)

lemma stored_update: "distinct (map fst sizes) \<Longrightarrow> stored (AList.update r n sizes) = stored (AList.delete r sizes) + n"
proof (induction sizes)
  case (Cons p sizes)
  then show ?case
    by (cases p) (auto simp: stored_def delete_idem rev_image_eqI)
qed (simp add: stored_def)

definition quota_ok :: "nat \<Rightarrow> mailbox \<Rightarrow> bool" where
  "quota_ok b m \<longleftrightarrow> distinct (map fst (mb_sizes m)) \<and> stored (mb_sizes m) \<le> max b (mo_max_bytes (mb_options m))
     \<and> (\<forall>r s bs rs. mb_worker m = WRenaming r s bs rs
          \<longrightarrow> stored (AList.delete r (mb_sizes m)) + length bs \<le> mo_max_bytes (mb_options m))
     \<and> (\<forall>r s n rs. mb_worker m = WDone r s (Inr n) rs
          \<longrightarrow> stored (AList.delete r (mb_sizes m)) + n \<le> mo_max_bytes (mb_options m))"

lemma check_quota_fits:
  assumes "distinct (map fst (mb_sizes m))"
  shows "check_quota J r s m = Inr bs \<longleftrightarrow>
    to_json J (to_disk s r) = Inr bs \<and> stored (AList.delete r (mb_sizes m)) + length bs \<le> mo_max_bytes (mb_options m)"
  using stored_without [OF assms, of r]
  by (cases "to_json J (to_disk s r)") (auto simp: check_quota_def Let_def stored_def map_err_def split: if_splits)

lemma worker_step_quota:
  assumes "quota_ok b m" shows "quota_ok b (worker_step J fault m)"
proof (cases "mb_worker m")
  case (WWriting r s rs)
  then show ?thesis using assms check_quota_fits [of m J r s]
    by (cases "check_quota J r s m") (auto simp: worker_step_def quota_ok_def)
next
  case (WDone r s res rs)
  show ?thesis
  proof (cases res)
    case (Inl e)
    then show ?thesis using assms WDone by (auto simp: worker_step_def quota_ok_def record_failed_def)
  next
    case (Inr n)
    then have "stored (AList.update r n (mb_sizes m)) \<le> mo_max_bytes (mb_options m)"
      using assms WDone stored_update [of "mb_sizes m" r n] by (simp add: quota_ok_def)
    then show ?thesis using assms WDone Inr by (auto simp: worker_step_def quota_ok_def record_size_def distinct_update)
  qed
qed (use assms in \<open>auto simp: worker_step_def quota_ok_def take_dirty_def replace_file_def record_published_def Let_def
       split: option.splits if_splits\<close>)

lemma sweep_step_quota:
  assumes "quota_ok b m" shows "quota_ok b (sweep_step fails m)"
proof (cases "mb_sweeper m")
  case (SwIndexed q rs n)
  let ?sizes = "AList.delete q (mb_sizes m)"
  have "stored ?sizes \<le> max b (mo_max_bytes (mb_options m))"
    using assms stored_delete_le [of q "mb_sizes m"] by (simp add: quota_ok_def)
  then show ?thesis using assms SwIndexed stored_delete_swap [of _ q "mb_sizes m"]
    by (auto simp: sweep_step_def quota_ok_def drop_size_def distinct_delete) (meson add_le_mono1 le_trans)+
qed (use assms in \<open>auto simp: sweep_step_def quota_ok_def drop_index_def drop_file_def split: list.split\<close>)

lemma mb_reach_quota:
  "mb_reach X J m0 m latest swept \<Longrightarrow> quota_ok (stored (mb_sizes m0)) m \<and> mb_options m = mb_options m0"
proof (induction rule: mb_reach.induct)
  case (mb_open env options fl)
  show ?case using open_mailbox_disk(2) [OF mb_open] open_mailbox_fresh(5) [OF mb_open(1)] by (simp add: quota_ok_def)
next
  case (mb_store m latest swept r now fp clip)
  then show ?case by (auto simp: quota_ok_def store_pending_eq)
next
  case (mb_signal m latest swept r)
  then show ?case by (auto simp: quota_ok_def)
next
  case (mb_recv m latest swept)
  then show ?case by (auto simp: quota_ok_def worker_recv_def split: worker.splits list.splits)
next
  case (mb_tick m latest swept rooms)
  then show ?case by (auto simp: quota_ok_def worker_tick_def)
next
  case (mb_step m latest swept fault)
  have "mb_options (worker_step J fault m) = mb_options m"
    by (auto simp: worker_step_def take_dirty_def replace_file_def record_published_def record_size_def record_failed_def Let_def
        split: worker.splits option.splits sum.splits)
  then show ?case using mb_step worker_step_quota by simp
next
  case (mb_collect m latest swept now)
  then show ?case by (auto simp: quota_ok_def sweep_collect_def)
next
  case (mb_sweep m latest swept fails)
  have "mb_options (sweep_step fails m) = mb_options m"
    by (auto simp: sweep_step_def drop_index_def drop_size_def drop_file_def split: sweeper.splits list.splits)
  then show ?case using mb_sweep sweep_step_quota by simp
qed

text \<open>C35: the storage quota is kept. Whatever clips, publications, failures and sweeps interleave,
  the recorded sizes of the snapshots never sum up to more than the quota, or than what the directory
  held when it was opened if that was more already.\<close>

theorem quota_kept:
  assumes "mb_reach X J m0 m latest swept"
  shows "sum_list (map snd (mb_sizes m)) \<le> max (sum_list (map snd (mb_sizes m0))) (mo_max_bytes (mb_options m0))"
  using mb_reach_quota [OF assms] by (auto simp: quota_ok_def stored_def)

theorem quota_kept_witness:
  "sum_list (map snd (mb_sizes demo_stored)) \<le> MAILBOX_MAX_BYTES \<and> mb_dirty demo_stored demo_room_id = Some demo_snapshot"
  using quota_kept [OF demo_stored_reach] by (simp add: demo_stored_eq demo_mailbox_def mailbox_options_default_def)

section \<open>The worker finishes\<close>

text \<open>One turn of the worker left to itself, with no write failing.\<close>

definition worker_turn :: "disk_mailbox json \<Rightarrow> mailbox \<Rightarrow> mailbox" where
  "worker_turn J m =
     (if mb_worker m \<noteq> WIdle then worker_step J None m
      else if mb_channel m \<noteq> [] then worker_recv m else worker_tick (mb_retry m) m)"

text \<open>At most \<open>card R\<close> rooms, each with a snapshot of at most \<open>B\<close> bytes, within the quota.\<close>

definition fits :: "disk_mailbox json \<Rightarrow> string set \<Rightarrow> nat \<Rightarrow> mailbox \<Rightarrow> bool" where
  "fits J R B m \<longleftrightarrow> finite R \<and> card R * B \<le> mo_max_bytes (mb_options m) \<and> distinct (map fst (mb_sizes m))
     \<and> (\<forall>r n. (r, n) \<in> set (mb_sizes m) \<longrightarrow> r \<in> R \<and> n \<le> B)
     \<and> (\<forall>r s. mb_dirty m r = Some s \<or> held (mb_worker m) r = Some s
          \<longrightarrow> r \<in> R \<and> (\<exists>bs. to_json J (to_disk s r) = Inr bs \<and> length bs \<le> B))
     \<and> (\<forall>r s bs rs. mb_worker m = WRenaming r s bs rs \<longrightarrow> to_json J (to_disk s r) = Inr bs)
     \<and> (\<forall>r s n rs. mb_worker m = WDone r s (Inr n) rs \<longrightarrow> n \<le> B)"

fun phase :: "worker \<Rightarrow> nat" where
  "phase WIdle = 0"
| "phase (WTaken r rs) = 7 + 8 * length rs"
| "phase (WPublish r rs) = 6 + 8 * length rs"
| "phase (WWriting r s rs) = 5 + 8 * length rs"
| "phase (WRenaming r s bs rs) = 4 + 8 * length rs"
| "phase (WDone r s (Inl e) rs) = 11 + 8 * length rs"
| "phase (WDone r s (Inr n) rs) = 3 + 8 * length rs"
| "phase (WSized r s rs) = 2 + 8 * length rs"

definition work_left :: "mailbox \<Rightarrow> nat" where
  "work_left m = 8 * (length (mb_channel m) + length (mb_retry m)) + phase (mb_worker m)"

lemma phase_next_room: "phase (next_room rs) \<le> 8 * length rs" by (cases rs) simp_all

lemma stored_bound:
  assumes "finite R" "distinct (map fst sizes)" "\<forall>r n. (r, n) \<in> set sizes \<longrightarrow> r \<in> R \<and> n \<le> B"
  shows "stored sizes \<le> card R * B"
proof -
  have "stored sizes \<le> length sizes * B"
    using assms(3) by (induction sizes) (auto simp: stored_def intro!: add_mono)
  moreover have "length sizes \<le> card R"
    using card_mono [OF assms(1), of "fst ` set sizes"] distinct_card [OF assms(2)] assms(3) by fastforce
  ultimately show ?thesis by (meson le_trans mult_le_mono1)
qed

lemma fits_quota:
  assumes fits: "fits J R B m" and live: "mb_dirty m r = Some s \<or> held (mb_worker m) r = Some s"
  shows "\<exists>bs. check_quota J r s m = Inr bs \<and> length bs \<le> B"
proof -
  have R: "finite R" "card R * B \<le> mo_max_bytes (mb_options m)" "distinct (map fst (mb_sizes m))"
    "\<forall>q n. (q, n) \<in> set (mb_sizes m) \<longrightarrow> q \<in> R \<and> n \<le> B" using fits by (simp_all add: fits_def)
  have "r \<in> R \<and> (\<exists>bs. to_json J (to_disk s r) = Inr bs \<and> length bs \<le> B)"
    using fits live unfolding fits_def by blast
  then obtain bs where bs: "to_json J (to_disk s r) = Inr bs" "length bs \<le> B" "r \<in> R" by blast
  have "\<forall>q n. (q, n) \<in> set (AList.delete r (mb_sizes m)) \<longrightarrow> q \<in> R - {r} \<and> n \<le> B"
    using R(4) by (auto simp: AList.delete_eq)
  then have "stored (AList.delete r (mb_sizes m)) \<le> card (R - {r}) * B"
    using R by (intro stored_bound) (auto simp: distinct_delete)
  moreover have "card (R - {r}) * B + B = card R * B"
    using card_Suc_Diff1 [OF R(1) bs(3)] by (metis add.commute mult_Suc)
  ultimately have "stored (AList.delete r (mb_sizes m)) + length bs \<le> mo_max_bytes (mb_options m)"
    using R(2) bs(2) by linarith
  then show ?thesis using check_quota_fits [OF R(3)] bs(1,2) by blast
qed

lemma alist_update_subset: "set (AList.update k v al) \<subseteq> insert (k, v) (set al)"
  by (induction al) auto

lemma worker_step_fits:
  assumes fits: "fits J R B m" shows "fits J R B (worker_step J None m)"
    and "mb_worker m \<noteq> WIdle \<Longrightarrow> work_left (worker_step J None m) < work_left m"
proof -
  have "fits J R B (worker_step J None m) \<and> (mb_worker m \<noteq> WIdle \<longrightarrow> work_left (worker_step J None m) < work_left m)"
  proof (cases "mb_worker m")
    case (WPublish r rs)
    then show ?thesis using fits phase_next_room [of rs]
      by (cases "mb_dirty m r") (auto simp: worker_step_def fits_def take_dirty_def work_left_def split: if_splits)
  next
    case (WWriting r s rs)
    then obtain bs where bs: "check_quota J r s m = Inr bs" "length bs \<le> B" using fits_quota [OF fits, of r s] by auto
    then show ?thesis using fits WWriting check_quota_encoded [OF bs(1)]
      by (auto simp: worker_step_def fits_def work_left_def split: if_splits)
  next
    case (WRenaming r s bs rs)
    have "\<exists>bs'. to_json J (to_disk s r) = Inr bs' \<and> length bs' \<le> B" "to_json J (to_disk s r) = Inr bs"
      using fits WRenaming unfolding fits_def by (metis held_simps(6))+
    then have "length bs \<le> B" by simp
    moreover have "write_outcome_of relay_style None False = Written" by (simp add: write_outcome_of_def relay_style_def)
    ultimately show ?thesis using fits WRenaming
      by (auto simp: worker_step_def fits_def replace_file_def Let_def work_left_def split: if_splits)
  next
    case (WDone r s res rs)
    show ?thesis
    proof (cases res)
      case (Inl e)
      have "length (List.insert r (mb_retry m)) \<le> Suc (length (mb_retry m))" by (simp add: List.insert_def)
      then show ?thesis using fits WDone Inl phase_next_room [of rs]
        by (auto simp: worker_step_def fits_def record_failed_def work_left_def split: if_splits option.splits)
    next
      case (Inr n)
      have r: "r \<in> R" "n \<le> B" using fits WDone Inr unfolding fits_def by (metis held_simps(7))+
      have "set (AList.update r n (mb_sizes m)) \<subseteq> insert (r, n) (set (mb_sizes m))"
        by (rule alist_update_subset)
      then show ?thesis using fits WDone Inr r
        by (auto simp: worker_step_def fits_def record_size_def work_left_def distinct_update split: if_splits)
    qed
  next
    case (WSized r s rs)
    then show ?thesis using fits phase_next_room [of rs]
      by (auto simp: worker_step_def fits_def record_published_def work_left_def split: if_splits)
  qed (use fits in \<open>auto simp: worker_step_def fits_def work_left_def\<close>)
  then show "fits J R B (worker_step J None m)" "mb_worker m \<noteq> WIdle \<Longrightarrow> work_left (worker_step J None m) < work_left m"
    by auto
qed

lemma worker_turn_fits:
  assumes "fits J R B m" "mb_signalling m = []"
  shows "fits J R B (worker_turn J m)" "mb_signalling (worker_turn J m) = []" "newest (worker_turn J m) = newest m"
    and "\<not> quiescent m \<Longrightarrow> work_left (worker_turn J m) < work_left m"
proof -
  consider (busy) "mb_worker m \<noteq> WIdle" | (signal) r rs where "mb_worker m = WIdle" "mb_channel m = r # rs"
    | (retry) r rs where "mb_worker m = WIdle" "mb_channel m = []" "mb_retry m = r # rs"
    | (idle) "mb_worker m = WIdle" "mb_channel m = []" "mb_retry m = []"
    by (metis list.exhaust)
  then have "fits J R B (worker_turn J m) \<and> mb_signalling (worker_turn J m) = [] \<and> newest (worker_turn J m) = newest m
    \<and> (\<not> quiescent m \<longrightarrow> work_left (worker_turn J m) < work_left m)"
  proof cases
    case busy
    have "mb_signalling (worker_step J None m) = []"
      using assms(2) by (auto simp: worker_step_def take_dirty_def replace_file_def record_published_def record_size_def
          record_failed_def Let_def split: worker.splits option.splits sum.splits)
    then show ?thesis using busy worker_step_fits [OF assms(1)] worker_step_newest [of J None m]
      by (auto simp: worker_turn_def)
  next
    case signal
    then show ?thesis using assms
      by (auto simp: worker_turn_def worker_recv_def fits_def work_left_def newest_def)
  next
    case retry
    then show ?thesis using assms
      by (auto simp: worker_turn_def worker_tick_def fits_def work_left_def newest_def)
  next
    case idle
    then show ?thesis using assms by (auto simp: worker_turn_def worker_tick_def quiescent_def)
  qed
  then show "fits J R B (worker_turn J m)" "mb_signalling (worker_turn J m) = []" "newest (worker_turn J m) = newest m"
    "\<not> quiescent m \<Longrightarrow> work_left (worker_turn J m) < work_left m" by auto
qed

lemma worker_turn_reach:
  "mb_reach X J m0 m latest swept \<Longrightarrow> mb_reach X J m0 ((worker_turn J ^^ n) m) latest swept"
proof (induction n)
  case (Suc n)
  let ?m = "(worker_turn J ^^ n) m"
  have reach: "mb_reach X J m0 ?m latest swept" using Suc by simp
  show ?case using mb_step [OF reach, of None] mb_recv [OF reach] mb_tick [OF reach, of "mb_retry ?m"]
    unfolding funpow.simps o_apply worker_turn_def [of J ?m] by simp
qed simp

lemma worker_quiesces:
  assumes "fits J R B m" "mb_signalling m = []"
  shows "\<exists>n. quiescent ((worker_turn J ^^ n) m) \<and> newest ((worker_turn J ^^ n) m) = newest m"
  using assms
proof (induction "work_left m" arbitrary: m rule: less_induct)
  case less
  show ?case
  proof (cases "quiescent m")
    case True
    then have "quiescent ((worker_turn J ^^ 0) m) \<and> newest ((worker_turn J ^^ 0) m) = newest m" by simp
    then show ?thesis by blast
  next
    case False
    note t = worker_turn_fits [OF less.prems]
    obtain n where "quiescent ((worker_turn J ^^ n) (worker_turn J m)) \<and> newest ((worker_turn J ^^ n) (worker_turn J m)) = newest (worker_turn J m)"
      using less.hyps [OF t(4) [OF False] t(1,2)] by blast
    then have "quiescent ((worker_turn J ^^ Suc n) m) \<and> newest ((worker_turn J ^^ Suc n) m) = newest m"
      using t(3) by (simp add: funpow_swap1)
    then show ?thesis by blast
  qed
qed

text \<open>C34: the worker catches up. From any reachable state with no clip half way through
  \<open>clip_pending\<close>, if at most as many rooms are involved as the registry admits and every
  snapshot takes at most 24 MiB on disk (the production quota then never refuses one), finitely
  many turns of the worker without a failing write bring it to rest with nothing unpublished and the
  newest clip of every room in the index.\<close>

theorem worker_catches_up:
  assumes "mb_reach X J m0 m latest swept" "mb_signalling m = []" "mo_max_bytes (mb_options m) = MAILBOX_MAX_BYTES"
    and "finite R" "card R \<le> REGISTRY_MAX_ROOMS"
    and "\<forall>r n. (r, n) \<in> set (mb_sizes m) \<longrightarrow> r \<in> R \<and> n \<le> 24 * 1024 * 1024"
    and "\<forall>r s. mb_dirty m r = Some s \<or> held (mb_worker m) r = Some s
       \<longrightarrow> r \<in> R \<and> (\<exists>bs. to_json J (to_disk s r) = Inr bs \<and> length bs \<le> 24 * 1024 * 1024)"
    and "json_law J"
  shows "\<exists>n. quiescent ((worker_turn J ^^ n) m) \<and> mb_dirty ((worker_turn J ^^ n) m) = Map.empty
    \<and> (\<forall>r. map_of (mb_index ((worker_turn J ^^ n) m)) r = newest m r)"
proof -
  have "distinct (map fst (mb_sizes m))" using mb_reach_quota [OF assms(1)] by (simp add: quota_ok_def)
  moreover have "card R * (24 * 1024 * 1024) \<le> MAILBOX_MAX_BYTES"
    using mult_le_mono1 [OF assms(5), of "24 * 1024 * 1024"] by (simp add: MAILBOX_MAX_BYTES_def mult.assoc)
  moreover have "\<forall>r s bs rs. mb_worker m = WRenaming r s bs rs \<longrightarrow> to_json J (to_disk s r) = Inr bs"
    using mb_reach_disk [OF assms(8,1)] by (simp add: disk_ok_def)
  moreover have "\<forall>r s n rs. mb_worker m = WDone r s (Inr n) rs \<longrightarrow> n \<le> 24 * 1024 * 1024"
    using mb_reach_disk [OF assms(8,1)] assms(7) unfolding disk_ok_def by (metis held_simps(7) sum.inject(2))
  ultimately have fits: "fits J R (24 * 1024 * 1024) m"
    using assms(4,6,7) unfolding fits_def assms(3) by (intro conjI)
  from worker_quiesces [OF fits assms(2)] obtain n where
    n: "quiescent ((worker_turn J ^^ n) m)" "newest ((worker_turn J ^^ n) m) = newest m" by blast
  let ?m = "(worker_turn J ^^ n) m"
  have q: "mb_worker ?m = WIdle" "awaited ?m = {}" using n(1) by (auto simp: quiescent_def awaited_def)
  have clean: "mb_dirty ?m = Map.empty"
    using mb_reach_wake [OF worker_turn_reach [OF assms(1)], of n] q(2) by (simp add: wake_ok_def)
  have "map_of (mb_index ?m) r = newest m r" for r
    using n(2) clean q(1) by (metis newest_def or_else.simps(2) held_simps(1))
  then show ?thesis using n(1) clean by blast
qed

lemma demo_fits:
  "mb_signalling demo_stored = []" "mo_max_bytes (mb_options demo_stored) = MAILBOX_MAX_BYTES"
  "\<forall>r n. (r, n) \<in> set (mb_sizes demo_stored) \<longrightarrow> r \<in> {demo_room_id} \<and> n \<le> 24 * 1024 * 1024"
  "\<forall>r s. mb_dirty demo_stored r = Some s \<or> held (mb_worker demo_stored) r = Some s
     \<longrightarrow> r \<in> {demo_room_id} \<and> (\<exists>bs. to_json demo_disk_json (to_disk s r) = Inr bs \<and> length bs \<le> 24 * 1024 * 1024)"
  by (auto simp: demo_stored_eq demo_mailbox_def mailbox_options_default_def demo_disk_json_def table_json_def split: if_splits)

theorem worker_catches_up_witness:
  "\<exists>n. quiescent ((worker_turn demo_disk_json ^^ n) demo_stored)
     \<and> map_of (mb_index ((worker_turn demo_disk_json ^^ n) demo_stored)) demo_room_id = Some demo_snapshot"
proof -
  have "newest demo_stored demo_room_id = Some demo_snapshot" by (simp add: newest_def demo_stored_eq)
  moreover have "card {demo_room_id} \<le> REGISTRY_MAX_ROOMS" by (simp add: REGISTRY_MAX_ROOMS_def)
  moreover have "json_law demo_disk_json" by (simp add: demo_disk_json_def)
  ultimately show ?thesis
    using worker_catches_up [OF demo_stored_reach demo_fits(1,2) _ _ demo_fits(3,4)] by (metis finite.emptyI finite_insert)
qed

section \<open>Restarting\<close>

text \<open>C33: the newest clip of a room survives a restart of the relay. Whatever calls of
  \<open>clip_pending\<close>, worker steps with failing writes, retries and sweeps interleave, once the
  worker has nothing left to do nothing is unpublished; and a mailbox that is then opened on the same
  directory replays, for every room no sweep has found expired, exactly the newest clip to its
  recipient (while it has not expired).\<close>

theorem newest_clip_survives_restart:
  assumes "json_law J" "mb_reach X J m0 m latest swept" "quiescent m"
    and "\<not> sc_dir_fails env" "\<And>n. \<not> sc_read_fails env n" "\<And>n. \<not> sc_metadata_fails env n"
  shows "mb_dirty m = Map.empty
    \<and> (\<exists>m'. open_mailbox X J env options (mb_files m) = Inr m'
        \<and> (\<forall>r s now. latest r = Some s \<and> r \<notin> swept \<and> \<not> is_expired (sn_ts_ms s) now (ttl_ms (mo_ttl options))
             \<and> \<not> is_expired (sn_ts_ms s) (sc_now env (snapshot_name r)) (ttl_ms (mo_ttl options))
             \<longrightarrow> load_pending persistent_sink now r m' = [(sn_recipient_fp s, to_pending_clip s)]))"
proof -
  have q: "mb_worker m = WIdle" "awaited m = {}" using assms(3) by (auto simp: quiescent_def awaited_def)
  have clean: "mb_dirty m = Map.empty" using mb_reach_wake [OF assms(2)] q(2) by (simp add: wake_ok_def)
  have disk: "disk_ok X J swept m" "distinct (map fst (mb_files m))" using mb_reach_disk [OF assms(1,2)] by auto
  from scan_dir_index [of env "mb_files m" X J "ttl_ms (mo_ttl options)" "[]" "[]" "mb_files m", OF assms(5,6) disk(2)]
  obtain index sizes fl where scan: "scan_dir X J env (ttl_ms (mo_ttl options)) (mb_files m) ([], [], mb_files m) = Inr (index, sizes, fl)"
    and known: "\<forall>r s c. map_of (mb_files m) (snapshot_name r) = Some c \<and> read_snapshot X J c r = Inr s
      \<and> \<not> is_expired (sn_ts_ms s) (sc_now env (snapshot_name r)) (ttl_ms (mo_ttl options)) \<longrightarrow> map_of index r = Some s"
    by blast
  obtain m' where m': "open_mailbox X J env options (mb_files m) = Inr m'" "mb_index m' = index" "mb_dirty m' = Map.empty"
      "mb_options m' = options" using assms(4) scan by (simp add: open_mailbox_def)
  have "load_pending persistent_sink now r m' = [(sn_recipient_fp s, to_pending_clip s)]"
    if "latest r = Some s" "r \<notin> swept" "\<not> is_expired (sn_ts_ms s) now (ttl_ms (mo_ttl options))"
      "\<not> is_expired (sn_ts_ms s) (sc_now env (snapshot_name r)) (ttl_ms (mo_ttl options))" for r s now
  proof -
    have "map_of (mb_index m) r = Some s"
      using mb_reach_newest [OF assms(2)] that(1,2) clean q(1) by (auto simp: newest_def)
    then have "readable X J (mb_files m) r s" using disk(1) that(2) clean q(1) by (simp add: disk_ok_def)
    then have "map_of index r = Some s" using known that(4) by (auto simp: readable_def)
    then show ?thesis using m' that(3) by (simp add: persistent_sink_def mailbox_load_pending_def Let_def)
  qed
  then show ?thesis using clean m'(1) by blast
qed

lemma demo_published:
  "quiescent ((worker_turn demo_disk_json ^^ 7) demo_stored)"
  "mb_reach demo_crates demo_disk_json demo_mailbox ((worker_turn demo_disk_json ^^ 7) demo_stored) [demo_room_id \<mapsto> demo_snapshot] {}"
proof -
  show "mb_reach demo_crates demo_disk_json demo_mailbox ((worker_turn demo_disk_json ^^ 7) demo_stored) [demo_room_id \<mapsto> demo_snapshot] {}"
    by (rule worker_turn_reach [OF demo_stored_reach])
  have "to_json demo_disk_json (to_disk demo_snapshot demo_room_id) = Inr [2]"
    by (simp add: demo_disk_json_def table_json_def)
  moreover have "(f ^^ 7) m = f (f (f (f (f (f (f m))))))" for f and m :: mailbox by (simp add: eval_nat_numeral)
  ultimately show "quiescent ((worker_turn demo_disk_json ^^ 7) demo_stored)"
    by (simp add: worker_turn_def worker_recv_def worker_tick_def worker_step_def demo_stored_eq demo_mailbox_def
        take_dirty_def check_quota_def replace_file_def record_size_def record_published_def write_outcome_of_def
        relay_style_def mailbox_options_default_def MAILBOX_MAX_BYTES_def REGISTRY_MAX_ROOMS_def quiescent_def Let_def)
qed

theorem newest_clip_survives_restart_witness:
  "\<exists>m'. open_mailbox demo_crates demo_disk_json demo_scan mailbox_options_default
       (mb_files ((worker_turn demo_disk_json ^^ 7) demo_stored)) = Inr m'
     \<and> load_pending persistent_sink 9 demo_room_id m' = [(snd demo_members, demo_pending_clip)]"
proof -
  have J: "json_law demo_disk_json" by (simp add: demo_disk_json_def)
  have env: "\<not> sc_dir_fails demo_scan" "\<And>n. \<not> sc_read_fails demo_scan n" "\<And>n. \<not> sc_metadata_fails demo_scan n"
    "sc_now demo_scan n = 9" for n by (simp_all add: demo_scan_def)
  have "\<not> is_expired (sn_ts_ms demo_snapshot) 9 (ttl_ms (mo_ttl mailbox_options_default))"
    by (simp add: demo_snapshot_def pending_snapshot_def is_expired_def saturating_sub_def ttl_ms_def mailbox_options_default_def
        MAILBOX_TTL_def i64_min_def i64_max_def)
  moreover have "sn_recipient_fp demo_snapshot = snd demo_members" "to_pending_clip demo_snapshot = demo_pending_clip"
    by (simp_all add: demo_snapshot_def pending_snapshot_def to_pending_clip_def demo_pending_clip_def)
  ultimately show ?thesis
    using newest_clip_survives_restart [OF J demo_published(2,1) env(1-3), of mailbox_options_default] env(4) by fastforce
qed

section \<open>Two races\<close>

text \<open>While the worker writes a snapshot it is neither in \<open>dirty\<close> nor in the index: a room
  actor spawned meanwhile is given the snapshot published before, or none.\<close>

lemma clip_in_flight_not_replayed:
  assumes "mb_worker m = WPublish r rs" "mb_dirty m r = Some s"
  shows "mailbox_load_pending now r (worker_step J fault m) = mailbox_load_pending now r (m\<lparr>mb_dirty := (mb_dirty m)(r := None)\<rparr>)"
  using assms by (simp add: worker_step_def take_dirty_def mailbox_load_pending_def)

text \<open>A sweep that has dropped the index entry of an expired snapshot deletes the file by name: if
  the worker has replaced the file in between, the new clip is in the index and nowhere on disk.\<close>

lemma sweep_deletes_new_snapshot:
  assumes "mb_worker m = WRenaming r s bs []" "mb_sweeper m = SwSized r rs n"
  shows "let m' = sweep_step False (worker_step J None (worker_step J None (worker_step J None m))) in
    map_of (mb_index m') r = Some s \<and> map_of (mb_files m') (snapshot_name r) = None \<and> mb_dirty m' = mb_dirty m"
  using assms
  by (simp add: Let_def worker_step_def replace_file_def write_outcome_of_def relay_style_def record_size_def
      record_published_def sweep_step_def drop_file_def map_of_update map_of_delete)

end
