(* ===== verification/Relay_Pairing.thy ===== *)
theory Relay_Pairing
  imports Crypto Room
begin

text \<open>
  The pairing-code rendezvous of crates/server/src/pairing.rs: offers, claims, the attempt limit,
  and the handler trait with its two implementations.

  A call runs under one mutex, so it is atomic; it takes the outboxes and the registry
  (\<open>room_env\<close>) and the live connections (connection id to outbox), and returns the answer, the
  pairing state and the surroundings. \<open>Inl\<close> is a panic: a frame that cannot be encoded. Time is
  the monotonic clock in any unit. The locale \<open>pairing_laws\<close> is what a connection relies on: a
  refused frame is answered by an error frame and has queued nothing.
\<close>

section \<open>Data\<close>

definition CODE_ALPHABET :: string where "CODE_ALPHABET = ''23456789ABCDEFGHJKMNPQRSTVWXYZ''"

type_synonym connections = "u64 \<rightharpoonup> outbox_handle"

record pairing_config =
  pf_offer_ttl :: nat
  pf_max_offers :: nat
  pf_attempts_per_window :: nat
  pf_rate_window :: nat

text \<open>Durations in seconds.\<close>

definition pairing_config_default :: pairing_config where
  "pairing_config_default = \<lparr>pf_offer_ttl = 300, pf_max_offers = 100, pf_attempts_per_window = 5, pf_rate_window = 60\<rparr>"

datatype offer_state = Preparing | Published | Claimed | Terminal

record offer =
  of_connection_id :: u64
  of_bundle :: pub_bundle
  of_fingerprint :: string
  of_expires_at :: nat
  of_state :: offer_state

record rate_entry =
  rt_window_start :: nat
  rt_attempts :: nat

record pairing_state =
  ps_offers :: "(string \<times> offer) list"
  ps_rates :: "ip_addr \<rightharpoonup> rate_entry"

definition pairing_new :: pairing_state where
  "pairing_new = \<lparr>ps_offers = [], ps_rates = Map.empty\<rparr>"

text \<open>The context of a call: connection, the bundle of its hello, its outbox, the live connections,
  and the two clocks.\<close>

record pair_context =
  px_connection_id :: u64
  px_hello_bundle :: pub_bundle
  px_outbox :: outbox_handle
  px_connections :: connections
  px_now :: nat
  px_unix_ms :: int
  px_fault :: "write_step option"

type_synonym ('p, 'r, 'm) pair_result = "('r, 'm) room_env + (frame + unit) \<times> 'p \<times> ('r, 'm) room_env"

section \<open>The relay\<close>

definition valid_code :: "string \<Rightarrow> bool" where
  "valid_code code \<longleftrightarrow> length code = 6 \<and> list_all (\<lambda>c. c \<in> set CODE_ALPHABET) code"

definition is_published :: "string \<Rightarrow> nat \<Rightarrow> pairing_state \<Rightarrow> bool" where
  "is_published code now st =
     (case map_of (ps_offers st) code of Some o' \<Rightarrow> of_state o' = Published \<and> now < of_expires_at o' | None \<Rightarrow> False)"

definition allow_attempt :: "pairing_config \<Rightarrow> ip_addr \<Rightarrow> nat \<Rightarrow> pairing_state \<Rightarrow> bool \<times> pairing_state" where
  "allow_attempt cfg ip now st =
     (let entry = (case ps_rates st ip of Some en \<Rightarrow> en | None \<Rightarrow> \<lparr>rt_window_start = now, rt_attempts = 0\<rparr>);
          entry = (if now - rt_window_start entry \<ge> pf_rate_window cfg
                   then \<lparr>rt_window_start = now, rt_attempts = 0\<rparr> else entry) in
      if rt_attempts entry \<ge> pf_attempts_per_window cfg then (False, st\<lparr>ps_rates := (ps_rates st)(ip \<mapsto> entry)\<rparr>)
      else (True, st\<lparr>ps_rates := (ps_rates st)(ip \<mapsto> entry\<lparr>rt_attempts := rt_attempts entry + 1\<rparr>)\<rparr>))"

definition set_offer :: "string \<Rightarrow> offer_state \<Rightarrow> pairing_state \<Rightarrow> pairing_state" where
  "set_offer code new st = st\<lparr>ps_offers := AList.map_entry code (\<lambda>off. off\<lparr>of_state := new\<rparr>) (ps_offers st)\<rparr>"

definition on_offer ::
  "('r, 'm) relay_ops \<Rightarrow> pairing_config \<Rightarrow> pair_context \<Rightarrow> string \<Rightarrow> pub_bundle \<Rightarrow> pairing_state \<Rightarrow> ('r, 'm) room_env
   \<Rightarrow> (pairing_state, 'r, 'm) pair_result" where
  "on_offer ops cfg px code bundle st e =
     (if \<not> valid_code code
      then Inr (Inl (Error ''bad_code'' ''pairing code must use the six-character alphabet''), st, e)
      else if bundle \<noteq> px_hello_bundle px
      then Inr (Inl (Error ''bad_auth'' ''pairing bundle does not match hello''), st, e)
      else let st = st\<lparr>ps_offers := filter (\<lambda>(_, off). px_now px < of_expires_at off) (ps_offers st)\<rparr> in
      if map_of (ps_offers st) code \<noteq> None
      then Inr (Inl (Error ''code_in_use'' ''pairing code collision''), st, e)
      else if length (ps_offers st) \<ge> pf_max_offers cfg
      then Inr (Inl (Error ''server_full'' ''pairing offer limit exceeded''), st, e)
      else if px_connections px (px_connection_id px) = None
      then Inr (Inl (Error ''peer_unavailable'' ''pairing connection is stale''), st, e)
      else let st = st\<lparr>ps_offers := AList.update code \<lparr>of_connection_id = px_connection_id px, of_bundle = bundle,
             of_fingerprint = bundle_fp (ro_crates ops) bundle, of_expires_at = px_now px + pf_offer_ttl cfg,
             of_state = Preparing\<rparr> (ps_offers st)\<rparr> in
      case room_send ops (px_outbox px) PairOfferOk e of
        Inl e \<Rightarrow> Inl e
      | Inr (False, e) \<Rightarrow>
          Inr (Inl (Error ''peer_unavailable'' ''offerer outbound queue is full''), set_offer code Terminal st, e)
      | Inr (True, e) \<Rightarrow> Inr (Inr (), set_offer code Published st, e))"

text \<open>The end of a claim on a published offer: commit the room, then reserve both queues, then send
  to both.\<close>

definition notify_both ::
  "('r, 'm) relay_ops \<Rightarrow> outbox_handle \<Rightarrow> frame \<Rightarrow> outbox_handle \<Rightarrow> frame \<Rightarrow> ('r, 'm) room_env
   \<Rightarrow> ('r, 'm) room_env + (frame + unit) \<times> ('r, 'm) room_env" where
  "notify_both ops offer_outbox offer_peer claim_outbox claim_peer e =
     (case room_reserve ops offer_outbox offer_peer e of
        Inl e \<Rightarrow> Inl e
      | Inr (None, e) \<Rightarrow> Inr (Inl (Error ''peer_unavailable'' ''offerer outbound queue is full''), e)
      | Inr (Some offer_reservation, e) \<Rightarrow>
        (case room_reserve ops claim_outbox claim_peer e of
           Inl e \<Rightarrow> Inl (upd_outbox offer_outbox (drop_reserved offer_reservation) e)
         | Inr (None, e) \<Rightarrow> Inr (Inl (Error ''peer_unavailable'' ''claimer outbound queue is full''),
                              upd_outbox offer_outbox (drop_reserved offer_reservation) e)
         | Inr (Some claim_reservation, e) \<Rightarrow>
             Inr (Inr (), upd_outbox claim_outbox (send_reserved claim_reservation)
                            (upd_outbox offer_outbox (send_reserved offer_reservation) e))))"

definition on_claim ::
  "('r, 'm) relay_ops \<Rightarrow> pair_context \<Rightarrow> string \<Rightarrow> pub_bundle \<Rightarrow> pairing_state \<Rightarrow> ('r, 'm) room_env
   \<Rightarrow> (pairing_state, 'r, 'm) pair_result" where
  "on_claim ops px code bundle st e =
     (if \<not> valid_code code
      then Inr (Inl (Error ''bad_code'' ''pairing code must use the six-character alphabet''), st, e)
      else case map_of (ps_offers st) code of
        None \<Rightarrow> Inr (Inl (Error ''code_expired'' ''pairing code is unavailable''), st, e)
      | Some off \<Rightarrow>
        (if px_now px \<ge> of_expires_at off \<or> of_state off \<noteq> Published
         then Inr (Inl (Error ''code_expired'' ''pairing code is unavailable''), set_offer code Terminal st, e)
         else let st = set_offer code Claimed st;
                  fail = (\<lambda>f e. Inr (Inl f, set_offer code Terminal st, e));
                  claim_fp = bundle_fp (ro_crates ops) bundle in
         if bundle \<noteq> px_hello_bundle px then fail (Error ''bad_auth'' ''pairing bundle does not match hello'') e
         else if claim_fp = of_fingerprint off then fail (Error ''same_identity'' ''an identity cannot pair with itself'') e
         else case px_connections px (of_connection_id off) of
           None \<Rightarrow> fail (Error ''peer_unavailable'' ''offerer disconnected'') e
         | Some offer_outbox \<Rightarrow>
           (let room = room_id (ro_crates ops) (of_bundle off) bundle;
                members = (of_fingerprint off, claim_fp) in
            case commit_room (ro_registry ops) (px_fault px) room members (px_unix_ms px) (rv_registry e) of
              (Inl _, reg) \<Rightarrow> fail (Error ''registry_failed'' ''room registry commit failed'') (e\<lparr>rv_registry := reg\<rparr>)
            | (Inr _, reg) \<Rightarrow>
              (case notify_both ops offer_outbox (PairPeer bundle) (px_outbox px) (PairPeer (of_bundle off)) (e\<lparr>rv_registry := reg\<rparr>) of
                 Inl e \<Rightarrow> Inl e
               | Inr (Inl f, e) \<Rightarrow> fail f e
               | Inr (Inr _, e) \<Rightarrow> Inr (Inr (), set_offer code Terminal st, e)))))"

fun on_pair_frame ::
  "('r, 'm) relay_ops \<Rightarrow> pairing_config \<Rightarrow> ip_addr \<Rightarrow> pair_context \<Rightarrow> frame \<Rightarrow> pairing_state \<Rightarrow> ('r, 'm) room_env
   \<Rightarrow> (pairing_state, 'r, 'm) pair_result" where
  "on_pair_frame ops cfg ip px f st e =
     (case allow_attempt cfg ip (px_now px) st of
        (False, st) \<Rightarrow>
          Inr (Inl (Error ''rate_limited'' ''pairing attempts exceeded''),
               (case f of PairClaim code _ \<Rightarrow> set_offer code Terminal st | _ \<Rightarrow> st), e)
      | (True, st) \<Rightarrow>
          (case f of
             PairOffer code bundle \<Rightarrow> on_offer ops cfg px code bundle st e
           | PairClaim code bundle \<Rightarrow> on_claim ops px code bundle st e
           | _ \<Rightarrow> Inr (Inl (Error ''bad_frame'' ''expected a pairing frame''), st, e)))"

declare on_pair_frame.simps [simp del]

definition pairing_disconnect :: "u64 \<Rightarrow> pairing_state \<Rightarrow> pairing_state" where
  "pairing_disconnect connection_id st =
     st\<lparr>ps_offers := map (\<lambda>(code, off). (code, if of_connection_id off = connection_id \<and> of_state off \<noteq> Terminal
                                                then off\<lparr>of_state := Terminal\<rparr> else off)) (ps_offers st)\<rparr>"

section \<open>The handler trait\<close>

record ('p, 'r, 'm) pairing_ops =
  po_on_pair_frame :: "ip_addr \<Rightarrow> pair_context \<Rightarrow> frame \<Rightarrow> 'p \<Rightarrow> ('r, 'm) room_env \<Rightarrow> ('p, 'r, 'm) pair_result"
  po_on_disconnect :: "u64 \<Rightarrow> 'p \<Rightarrow> 'p"

definition pairing_relay :: "('r, 'm) relay_ops \<Rightarrow> pairing_config \<Rightarrow> (pairing_state, 'r, 'm) pairing_ops" where
  "pairing_relay ops cfg = \<lparr>po_on_pair_frame = on_pair_frame ops cfg, po_on_disconnect = pairing_disconnect\<rparr>"

text \<open>\<open>PairingUnavailable\<close>; its \<open>debug_assert\<close> holds for every frame a connection passes
  on.\<close>

definition pairing_unavailable :: "(unit, 'r, 'm) pairing_ops" where
  "pairing_unavailable = \<lparr>po_on_pair_frame = (\<lambda>_ _ _ st e.
       Inr (Inl (Error ''pairing_unavailable'' ''pairing is not available on this relay''), st, e)),
     po_on_disconnect = (\<lambda>_ st. st)\<rparr>"

locale pairing_laws =
  fixes H :: "('p, 'r, 'm) pairing_ops"
  assumes refused_error: "po_on_pair_frame H ip px f st e = Inr (Inl err, st', e') \<Longrightarrow> \<exists>code message. err = Error code message"
    and refused_silent: "po_on_pair_frame H ip px f st e = Inr (Inl err, st', e') \<Longrightarrow> rv_outboxes e' = rv_outboxes e"
    and mailbox_untouched: "po_on_pair_frame H ip px f st e = Inr (res, st', e') \<Longrightarrow> rv_mailbox e' = rv_mailbox e"
begin

text \<open>A refused frame changes at most the registry.\<close>

lemma refused_env:
  assumes "po_on_pair_frame H ip px f st e = Inr (Inl err, st', e')"
  shows "e' = e\<lparr>rv_registry := rv_registry e'\<rparr>"
  using refused_silent [OF assms] mailbox_untouched [OF assms] by (cases e; cases e') simp

end

interpretation unavailable: pairing_laws pairing_unavailable
  by unfold_locales (auto simp: pairing_unavailable_def)

section \<open>Facts\<close>

lemma map_entry_twice:
  "(\<And>x. f (g x) = f x) \<Longrightarrow> AList.map_entry k f (AList.map_entry k g al) = AList.map_entry k f al"
  by (induction al) auto

text \<open>Both peers are notified, or neither.\<close>

lemma notify_both_cases:
  assumes "notify_both ops ho fo hc fc e = Inr (res, e')"
  obtains (refused) code message where "res = Inl (Error code message)" "e' = e"
  | (notified) x y where "res = Inr ()" "encode_frame (ro_crates ops) (ro_frames ops) fo = Inr x"
      "encode_frame (ro_crates ops) (ro_frames ops) fc = Inr y"
      "rv_registry e' = rv_registry e" "rv_mailbox e' = rv_mailbox e"
      "ho \<noteq> hc \<Longrightarrow> ob_queue (rv_outboxes e' ho) = ob_queue (rv_outboxes e ho) @ [OutFrame x]"
      "ho \<noteq> hc \<Longrightarrow> ob_queue (rv_outboxes e' hc) = ob_queue (rv_outboxes e hc) @ [OutFrame y]"
proof -
  consider (none) e1 where "room_reserve ops ho fo e = Inr (None, e1)"
    | (some) r e1 where "room_reserve ops ho fo e = Inr (Some r, e1)"
    using assms by (auto simp: notify_both_def split: sum.splits option.splits)
  then show thesis
  proof cases
    case (none e1)
    then show thesis using assms room_reserve_None [OF none] that(1) by (auto simp: notify_both_def)
  next
    case (some r e1)
    from some obtain x where x: "encode_frame (ro_crates ops) (ro_frames ops) fo = Inr x"
      "r = \<lparr>rf_encoded = x, rf_size = length x\<rparr>"
      "e1 = upd_outbox ho (\<lambda>b. b\<lparr>ob_pending_bytes := ob_pending_bytes b + length x,
              ob_reserved := add_mset (length x) (ob_reserved b)\<rparr>) e" by (cases rule: room_reserve_cases) auto
    consider (none2) "room_reserve ops hc fc e1 = Inr (None, e1)"
      | (some2) r2 e2 where "room_reserve ops hc fc e1 = Inr (Some r2, e2)"
      using assms some room_reserve_None by (fastforce simp: notify_both_def split: sum.splits option.splits)
    then show thesis
    proof cases
      case none2
      then show thesis using assms some reserve_one_drop [OF some] that(1) by (auto simp: notify_both_def)
    next
      case (some2 r2 e2)
      from some2 obtain y where y: "encode_frame (ro_crates ops) (ro_frames ops) fc = Inr y"
        "r2 = \<lparr>rf_encoded = y, rf_size = length y\<rparr>"
        "e2 = upd_outbox hc (\<lambda>b. b\<lparr>ob_pending_bytes := ob_pending_bytes b + length y,
                ob_reserved := add_mset (length y) (ob_reserved b)\<rparr>) e1" by (cases rule: room_reserve_cases) auto
      have r: "res = Inr ()" "e' = upd_outbox hc (send_reserved r2) (upd_outbox ho (send_reserved r) e2)"
        using assms some some2 by (auto simp: notify_both_def)
      show thesis
        by (rule that(2) [OF r(1) x(1) y(1)]) (simp_all add: r(2) x(2,3) y(2,3) send_reserved_def)
    qed
  qed
qed

text \<open>A claim that gets past the offer: what it needs and what it leaves.\<close>

lemma on_claim_cases:
  assumes "on_claim ops px code bundle st e = Inr (res, st', e')"
  obtains (refused) c m where "res = Inl (Error c m)" "st' = st \<or> st' = set_offer code Terminal st"
      "rv_outboxes e' = rv_outboxes e" "rv_mailbox e' = rv_mailbox e"
  | (paired) off h commit where "res = Inr ()" "st' = set_offer code Terminal st"
      "map_of (ps_offers st) code = Some off" "of_state off = Published" "px_now px < of_expires_at off"
      "bundle = px_hello_bundle px" "bundle_fp (ro_crates ops) bundle \<noteq> of_fingerprint off"
      "px_connections px (of_connection_id off) = Some h"
      "commit_room (ro_registry ops) (px_fault px) (room_id (ro_crates ops) (of_bundle off) bundle)
         (of_fingerprint off, bundle_fp (ro_crates ops) bundle) (px_unix_ms px) (rv_registry e) = (Inr commit, rv_registry e')"
      "notify_both ops h (PairPeer bundle) (px_outbox px) (PairPeer (of_bundle off)) (e\<lparr>rv_registry := rv_registry e'\<rparr>) = Inr (Inr (), e')"
      "rv_mailbox e' = rv_mailbox e"
proof -
  have again: "set_offer code Terminal (set_offer code Claimed st) = set_offer code Terminal st"
    by (simp add: set_offer_def map_entry_twice)
  show thesis
  proof (cases "map_of (ps_offers st) code")
    case None
    then show thesis using assms that(1) by (auto simp: on_claim_def split: if_splits)
  next
    case (Some off)
    consider (early) "\<not> valid_code code \<or> px_now px \<ge> of_expires_at off \<or> of_state off \<noteq> Published"
        | (auth) "bundle \<noteq> px_hello_bundle px" | (self) "bundle_fp (ro_crates ops) bundle = of_fingerprint off"
        | (gone) "px_connections px (of_connection_id off) = None"
        | (live) h where "valid_code code" "px_now px < of_expires_at off" "of_state off = Published" "bundle = px_hello_bundle px"
            "bundle_fp (ro_crates ops) bundle \<noteq> of_fingerprint off" "px_connections px (of_connection_id off) = Some h"
      by (metis leI option.exhaust)
    then show thesis
    proof cases
      case (live h)
      obtain r reg where com: "commit_room (ro_registry ops) (px_fault px) (room_id (ro_crates ops) (of_bundle off) bundle)
         (of_fingerprint off, bundle_fp (ro_crates ops) bundle) (px_unix_ms px) (rv_registry e) = (r, reg)" by fastforce
      show thesis
      proof (cases r)
        case (Inl err)
        then show thesis using assms com live Some again that(1) by (auto simp: on_claim_def Let_def)
      next
        case (Inr commit)
        let ?e = "e\<lparr>rv_registry := reg\<rparr>"
        obtain n e1 where note': "notify_both ops h (PairPeer bundle) (px_outbox px) (PairPeer (of_bundle off)) ?e = Inr (n, e1)"
          using assms com live Some Inr by (auto simp: on_claim_def Let_def split: sum.splits)
        from note' show thesis
        proof (cases rule: notify_both_cases)
          case (refused c m)
          then show thesis using assms com live Some Inr note' again that(1) by (auto simp: on_claim_def Let_def)
        next
          case (notified x y)
          then have "res = Inr ()" "st' = set_offer code Terminal st" "e' = e1"
            using assms com live Some Inr note' again by (auto simp: on_claim_def Let_def)
          then show thesis using that(2) [OF _ _ Some] live com Inr note' notified by simp
        qed
      qed
    qed (use assms Some again that(1) in \<open>auto simp: on_claim_def Let_def split: if_splits\<close>)
  qed
qed

lemma on_offer_cases:
  assumes "on_offer ops cfg px code bundle st e = Inr (res, st', e')"
  obtains (refused) c m where "res = Inl (Error c m)" "e' = e"
      "ps_offers st' = ps_offers st \<or> ps_offers st' = filter (\<lambda>(_, off). px_now px < of_expires_at off) (ps_offers st)
       \<or> (\<exists>off. of_state off = Terminal \<and> of_fingerprint off = bundle_fp (ro_crates ops) (of_bundle off)
            \<and> length (filter (\<lambda>(_, off). px_now px < of_expires_at off) (ps_offers st)) < pf_max_offers cfg
            \<and> ps_offers st' = filter (\<lambda>(_, off). px_now px < of_expires_at off) (ps_offers st) @ [(code, off)]
            \<and> code \<notin> fst ` set (filter (\<lambda>(_, off). px_now px < of_expires_at off) (ps_offers st)))"
  | (published) x where "res = Inr ()" "valid_code code" "bundle = px_hello_bundle px"
      "px_connections px (px_connection_id px) \<noteq> None"
      "length (filter (\<lambda>(_, off). px_now px < of_expires_at off) (ps_offers st)) < pf_max_offers cfg"
      "code \<notin> fst ` set (filter (\<lambda>(_, off). px_now px < of_expires_at off) (ps_offers st))"
      "ps_offers st' = filter (\<lambda>(_, off). px_now px < of_expires_at off) (ps_offers st)
         @ [(code, \<lparr>of_connection_id = px_connection_id px, of_bundle = bundle,
             of_fingerprint = bundle_fp (ro_crates ops) bundle, of_expires_at = px_now px + pf_offer_ttl cfg,
             of_state = Published\<rparr>)]"
      "encode_frame (ro_crates ops) (ro_frames ops) PairOfferOk = Inr x"
      "e' = upd_outbox (px_outbox px) (\<lambda>b. b\<lparr>ob_pending_bytes := ob_pending_bytes b + length x, ob_queue := ob_queue b @ [OutFrame x]\<rparr>) e"
proof -
  let ?live = "filter (\<lambda>(_, off). px_now px < of_expires_at off) (ps_offers st)"
  have upd: "AList.update code v al = al @ [(code, v)]" if "map_of al code = None" for v :: offer and al
    using that by (induction al) (auto split: if_splits)
  have ent: "AList.map_entry code f (al @ [(code, v)]) = al @ [(code, f v)]" if "map_of al code = None" for f and v :: offer and al
    using that by (induction al) (auto split: if_splits)
  have fresh: "map_of ?live code = None \<longleftrightarrow> code \<notin> fst ` set ?live" by (rule map_of_eq_None_iff)
  show thesis
  proof (cases "\<not> valid_code code \<or> bundle \<noteq> px_hello_bundle px \<or> map_of ?live code \<noteq> None
      \<or> length ?live \<ge> pf_max_offers cfg \<or> px_connections px (px_connection_id px) = None")
    case True
    then show thesis using assms that(1) by (auto simp: on_offer_def Let_def split: if_splits)
  next
    case False
    then obtain sent where s: "room_send ops (px_outbox px) PairOfferOk e = Inr (sent, e')"
      using assms by (auto simp: on_offer_def Let_def split: sum.splits bool.splits)
    from s show thesis
    proof (cases rule: room_send_cases)
      case refused
      then show thesis using assms s False fresh that(1)
        by (auto simp: on_offer_def Let_def set_offer_def upd ent)
    next
      case (queued x)
      then show thesis using assms s False fresh that(2) [of x]
        by (auto simp: on_offer_def Let_def set_offer_def upd ent)
    qed
  qed
qed

lemma on_pair_frame_cases:
  assumes "on_pair_frame ops cfg ip px f st e = Inr (res, st', e')"
  obtains (refused) c m where "res = Inl (Error c m)" "e' = e"
      "ps_offers st' = ps_offers st \<or> (\<exists>code b. f = PairClaim code b \<and> ps_offers st' = ps_offers (set_offer code Terminal st))"
  | (offer) code bnd st1 where "f = PairOffer code bnd" "ps_offers st1 = ps_offers st"
      "on_offer ops cfg px code bnd st1 e = Inr (res, st', e')"
  | (claim) code bnd st1 where "f = PairClaim code bnd" "ps_offers st1 = ps_offers st"
      "on_claim ops px code bnd st1 e = Inr (res, st', e')"
proof -
  obtain ok st1 where a: "allow_attempt cfg ip (px_now px) st = (ok, st1)" by fastforce
  have o: "ps_offers st1 = ps_offers st" using a by (auto simp: allow_attempt_def Let_def split: if_splits)
  have t: "ps_offers (set_offer code Terminal st1) = ps_offers (set_offer code Terminal st)" for code
    by (simp add: set_offer_def o)
  show thesis
    using assms a o t that by (cases ok; cases f) (auto simp: on_pair_frame.simps)
qed

interpretation relay: pairing_laws "pairing_relay ops cfg" for ops :: "('r, 'm) relay_ops" and cfg
proof unfold_locales
  fix ip px f st e err st' and e' :: "('r, 'm) room_env" and res
  show "\<exists>code message. err = Error code message"
    if run: "po_on_pair_frame (pairing_relay ops cfg) ip px f st e = Inr (Inl err, st', e')"
  proof -
    from run have "on_pair_frame ops cfg ip px f st e = Inr (Inl err, st', e')" by (simp add: pairing_relay_def)
    then show ?thesis
      by (cases rule: on_pair_frame_cases) (auto elim: on_offer_cases on_claim_cases)
  qed
  show "rv_outboxes e' = rv_outboxes e"
    if run: "po_on_pair_frame (pairing_relay ops cfg) ip px f st e = Inr (Inl err, st', e')"
  proof -
    from run have "on_pair_frame ops cfg ip px f st e = Inr (Inl err, st', e')" by (simp add: pairing_relay_def)
    then show ?thesis
      by (cases rule: on_pair_frame_cases) (auto elim: on_offer_cases on_claim_cases)
  qed
  show "rv_mailbox e' = rv_mailbox e"
    if run: "po_on_pair_frame (pairing_relay ops cfg) ip px f st e = Inr (res, st', e')"
  proof -
    from run have "on_pair_frame ops cfg ip px f st e = Inr (res, st', e')" by (simp add: pairing_relay_def)
    then show ?thesis
      by (cases rule: on_pair_frame_cases) (auto elim: on_offer_cases on_claim_cases)
  qed
qed

section \<open>Runs\<close>

datatype pair_event = Offered string | Paired string

definition pair_log :: "frame \<Rightarrow> frame + unit \<Rightarrow> pair_event list" where
  "pair_log f res = (case (f, res) of
       (PairOffer code _, Inr _) \<Rightarrow> [Offered code] | (PairClaim code _, Inr _) \<Rightarrow> [Paired code] | _ \<Rightarrow> [])"

text \<open>Any sequence of pairing frames and disconnects, on any outboxes and registries, with a log of
  the offers and claims that succeeded. (A panic poisons the mutex: no call returns after it.)\<close>

inductive pairing_run :: "('r, 'm) relay_ops \<Rightarrow> pairing_config \<Rightarrow> pairing_state \<Rightarrow> pair_event list \<Rightarrow> bool" for ops cfg where
  run_new: "pairing_run ops cfg pairing_new []"
| run_frame: "pairing_run ops cfg st log \<Longrightarrow> on_pair_frame ops cfg ip px f st e = Inr (res, st', e')
    \<Longrightarrow> pairing_run ops cfg st' (log @ pair_log f res)"
| run_disconnect: "pairing_run ops cfg st log \<Longrightarrow> pairing_run ops cfg (pairing_disconnect c st) log"

text \<open>Between calls an offer is published or terminal, and a published one has not been claimed.\<close>

definition offers_ok :: "crates \<Rightarrow> nat \<Rightarrow> pair_event list \<Rightarrow> (string \<times> offer) list \<Rightarrow> bool" where
  "offers_ok X n log offers \<longleftrightarrow> distinct (map fst offers) \<and> length offers \<le> n
     \<and> (\<forall>code off. map_of offers code = Some off \<longrightarrow> of_state off \<in> {Published, Terminal}
          \<and> of_fingerprint off = bundle_fp X (of_bundle off))
     \<and> (\<forall>code. count_list log (Paired code)
          + (case map_of offers code of Some off \<Rightarrow> if of_state off = Published then 1 else 0 | None \<Rightarrow> 0)
          \<le> count_list log (Offered code))"

lemma length_map_entry [simp]: "length (AList.map_entry k f al) = length al"
  by (induction al) auto

text \<open>Dropping offers and making offers terminal keeps this.\<close>

lemma offers_ok_weaken:
  assumes ok: "offers_ok X n log offers" and "distinct (map fst offers')" "length offers' \<le> length offers"
    and sub: "\<And>code off'. map_of offers' code = Some off' \<Longrightarrow> \<exists>off. map_of offers code = Some off
      \<and> of_bundle off' = of_bundle off \<and> of_fingerprint off' = of_fingerprint off
      \<and> (of_state off' = of_state off \<or> of_state off' = Terminal)"
  shows "offers_ok X n log offers'"
proof -
  have "of_state off' \<in> {Published, Terminal} \<and> of_fingerprint off' = bundle_fp X (of_bundle off')"
    if "map_of offers' code = Some off'" for code off'
    using sub [OF that] ok unfolding offers_ok_def by (metis insertCI)
  moreover have "count_list log (Paired code)
      + (case map_of offers' code of Some off \<Rightarrow> if of_state off = Published then 1 else 0 | None \<Rightarrow> 0)
      \<le> count_list log (Offered code)" for code
  proof -
    have "(case map_of offers' code of Some off \<Rightarrow> if of_state off = Published then 1 else 0 | None \<Rightarrow> 0)
        \<le> (case map_of offers code of Some off \<Rightarrow> if of_state off = Published then 1 else (0::nat) | None \<Rightarrow> 0)"
      using sub [of code] by (auto split: option.split)
    moreover have "count_list log (Paired code)
        + (case map_of offers code of Some off \<Rightarrow> if of_state off = Published then 1 else 0 | None \<Rightarrow> 0)
        \<le> count_list log (Offered code)" using ok by (simp add: offers_ok_def)
    ultimately show ?thesis by linarith
  qed
  ultimately show ?thesis using assms(2,3) ok unfolding offers_ok_def by auto
qed

lemma offers_ok_terminal:
  assumes "offers_ok X n log (ps_offers st)"
  shows "offers_ok X n log (ps_offers (set_offer code Terminal st))"
  by (rule offers_ok_weaken [OF assms])
     (use assms in \<open>auto simp: offers_ok_def set_offer_def distinct_map_entry map_of_map_entry split: option.splits if_splits\<close>)

lemma offers_ok_live:
  assumes "offers_ok X n log offers" shows "offers_ok X n log (filter P offers)"
proof (rule offers_ok_weaken [OF assms])
  have d: "distinct (map fst offers)" using assms by (simp add: offers_ok_def)
  then show "distinct (map fst (filter P offers))" by (simp add: distinct_map_filter)
  show "\<exists>off. map_of offers code = Some off \<and> of_bundle off' = of_bundle off \<and> of_fingerprint off' = of_fingerprint off
      \<and> (of_state off' = of_state off \<or> of_state off' = Terminal)" if "map_of (filter P offers) code = Some off'" for code off'
    using map_of_SomeD [OF that] d by auto
qed simp

lemma map_of_values: "map_of (map (\<lambda>(code, off). (code, g off)) al) code = map_option g (map_of al code)"
  by (induction al) auto

lemma keys_values: "map fst (map (\<lambda>(code, off). (code, g off)) al) = map fst al"
  by (induction al) auto

lemma offers_ok_disconnect:
  assumes "offers_ok X n log (ps_offers st)" shows "offers_ok X n log (ps_offers (pairing_disconnect c st))"
proof (rule offers_ok_weaken [OF assms])
  show "distinct (map fst (ps_offers (pairing_disconnect c st)))"
    using assms by (simp add: pairing_disconnect_def keys_values offers_ok_def del: map_map)
  show "\<exists>off. map_of (ps_offers st) code = Some off \<and> of_bundle off' = of_bundle off \<and> of_fingerprint off' = of_fingerprint off
      \<and> (of_state off' = of_state off \<or> of_state off' = Terminal)"
    if "map_of (ps_offers (pairing_disconnect c st)) code = Some off'" for code off'
    using that by (auto simp: pairing_disconnect_def map_of_values split: if_splits)
qed (simp add: pairing_disconnect_def)

lemma offers_ok_new:
  assumes ok: "offers_ok X n log offers" and "code \<notin> fst ` set offers" "length offers < n"
    and off: "of_state off = Published" "of_fingerprint off = bundle_fp X (of_bundle off)"
  shows "offers_ok X n (log @ [Offered code]) (offers @ [(code, off)])"
proof -
  have m: "map_of (offers @ [(code, off)]) = (map_of offers)(code \<mapsto> off)"
    using assms(2) by (induction offers) (auto simp: fun_eq_iff)
  have "map_of offers code = None" using assms(2) by (simp add: map_of_eq_None_iff)
  moreover have "count_list log (Paired c)
      + (case map_of offers c of Some off \<Rightarrow> if of_state off = Published then 1 else 0 | None \<Rightarrow> 0)
      \<le> count_list log (Offered c)" for c using ok by (simp add: offers_ok_def)
  ultimately have "count_list log (Paired code) \<le> count_list log (Offered code)"
    by (metis (no_types, lifting) add.right_neutral option.case(1))
  then show ?thesis using assms unfolding offers_ok_def m by (auto simp: count_list_append)
qed

lemma offers_ok_refused_new:
  assumes "offers_ok X n log offers" "code \<notin> fst ` set offers" "length offers < n" "of_state off = Terminal"
    "of_fingerprint off = bundle_fp X (of_bundle off)"
  shows "offers_ok X n log (offers @ [(code, off)])"
proof -
  have m: "map_of (offers @ [(code, off)]) = (map_of offers)(code \<mapsto> off)"
    using assms(2) by (induction offers) (auto simp: fun_eq_iff)
  have "map_of offers code = None" using assms(2) by (simp add: map_of_eq_None_iff)
  moreover have "count_list log (Paired c)
      + (case map_of offers c of Some off \<Rightarrow> if of_state off = Published then 1 else 0 | None \<Rightarrow> 0)
      \<le> count_list log (Offered c)" for c using assms(1) by (simp add: offers_ok_def)
  ultimately have "count_list log (Paired code) \<le> count_list log (Offered code)"
    by (metis (no_types, lifting) add.right_neutral option.case(1))
  then show ?thesis using assms unfolding offers_ok_def m by auto
qed

lemma on_offer_ok:
  assumes ok: "offers_ok (ro_crates ops) (pf_max_offers cfg) log (ps_offers st)"
    and run: "on_offer ops cfg px code bundle st e = Inr (res, st', e')"
  shows "offers_ok (ro_crates ops) (pf_max_offers cfg) (log @ (if res = Inr () then [Offered code] else [])) (ps_offers st')"
  using run
proof (cases rule: on_offer_cases)
  case (refused c m)
  then show ?thesis using refused offers_ok_live [OF ok] ok offers_ok_refused_new [OF offers_ok_live [OF ok]] by auto
next
  case (published x)
  then show ?thesis using offers_ok_new [OF offers_ok_live [OF ok]] by auto
qed

lemma on_claim_ok:
  assumes ok: "offers_ok (ro_crates ops) n log (ps_offers st)"
    and run: "on_claim ops px code bundle st e = Inr (res, st', e')"
  shows "offers_ok (ro_crates ops) n (log @ (if res = Inr () then [Paired code] else [])) (ps_offers st')"
  using run
proof (cases rule: on_claim_cases)
  case (refused c m)
  then show ?thesis using ok offers_ok_terminal [OF ok] by auto
next
  case (paired off h commit)
  have spent: "map_of (ps_offers st') code = Some (off\<lparr>of_state := Terminal\<rparr>)"
    using paired by (simp add: set_offer_def map_of_map_entry)
  have ok': "offers_ok (ro_crates ops) n log (ps_offers st')" using offers_ok_terminal [OF ok] paired by simp
  have "count_list log (Paired code)
      + (case map_of (ps_offers st) code of Some off \<Rightarrow> if of_state off = Published then 1 else 0 | None \<Rightarrow> 0)
      \<le> count_list log (Offered code)" using ok by (simp add: offers_ok_def)
  then have one: "Suc (count_list log (Paired code)) \<le> count_list log (Offered code)" using paired by simp
  have "count_list (log @ [Paired code]) (Paired c)
      + (case map_of (ps_offers st') c of Some off \<Rightarrow> if of_state off = Published then 1 else 0 | None \<Rightarrow> 0)
      \<le> count_list (log @ [Paired code]) (Offered c)" for c
  proof (cases "c = code")
    case True
    then show ?thesis using one spent by simp
  next
    case False
    then show ?thesis using ok' by (simp add: offers_ok_def)
  qed
  then show ?thesis using ok' paired(1) by (simp add: offers_ok_def)
qed

lemma pairing_run_ok: "pairing_run ops cfg st log \<Longrightarrow> offers_ok (ro_crates ops) (pf_max_offers cfg) log (ps_offers st)"
proof (induction rule: pairing_run.induct)
  case run_new
  show ?case by (simp add: offers_ok_def pairing_new_def)
next
  case (run_frame st log ip px f e res st' e')
  from run_frame(2) show ?case
  proof (cases rule: on_pair_frame_cases)
    case (refused c m)
    then show ?thesis using run_frame.IH offers_ok_terminal [OF run_frame.IH]
      by (auto simp: pair_log_def split: frame.split)
  next
    case (offer code bnd st1)
    then show ?thesis using on_offer_ok [OF _ offer(3)] run_frame.IH
      by (cases res) (auto simp: pair_log_def)
  next
    case (claim code bnd st1)
    then show ?thesis using on_claim_ok [OF _ claim(3)] run_frame.IH
      by (cases res) (auto simp: pair_log_def)
  qed
next
  case (run_disconnect st log c)
  then show ?case by (simp add: offers_ok_disconnect)
qed

section \<open>Properties\<close>


text \<open>After a successful claim the two bundles are the members of their room.\<close>

lemma claim_registers:
  assumes "pairing_run ops cfg st log" "ro_registry ops = persistent_ops J" "rooms_ok (pg_rooms (rv_registry e))"
    and "on_pair_frame ops cfg ip px (PairClaim code bundle) st e = Inr (Inr (), st', e')"
    and "map_of (ps_offers st) code = Some off"
  shows "lookup_members (ro_registry ops) (room_id (ro_crates ops) (of_bundle off) bundle) (rv_registry e')
    = members_vec (sorted_pair (bundle_fp (ro_crates ops) (of_bundle off), bundle_fp (ro_crates ops) bundle))"
  using assms(4)
proof (cases rule: on_pair_frame_cases)
  case (claim c b st1)
  then have b: "c = code" "b = bundle" by auto
  from claim(3) [unfolded b] show ?thesis
  proof (cases rule: on_claim_cases)
    case (paired off' h commit)
    have "off' = off" using paired(3) claim(2) assms(5) by simp
    moreover have "of_fingerprint off = bundle_fp (ro_crates ops) (of_bundle off)"
      using pairing_run_ok [OF assms(1)] assms(5) by (simp add: offers_ok_def)
    ultimately show ?thesis using pers.commit_lookup [OF assms(3)] paired(9) unfolding assms(2) by metis
  qed simp
qed simp_all

text \<open>C20: a claim that succeeds pairs exactly the two devices of the code. The offer was published
  by a connection that is still there, under the fingerprint of the offered bundle; the claimer used
  the bundle of its hello and another identity; the persistent registry holds the room of the two
  bundles with their two fingerprints as members; and only then each side's queue got, as its last
  frame, the bundle of the other. The code cannot be claimed again.\<close>

theorem claim_pairs_both:
  assumes "pairing_run ops cfg st log" "ro_registry ops = persistent_ops J" "rooms_ok (pg_rooms (rv_registry e))"
    and "on_pair_frame ops cfg ip px (PairClaim code bundle) st e = Inr (Inr (), st', e')"
  shows "\<exists>off h x y. map_of (ps_offers st) code = Some off \<and> of_state off = Published \<and> px_now px < of_expires_at off
    \<and> of_fingerprint off = bundle_fp (ro_crates ops) (of_bundle off) \<and> px_connections px (of_connection_id off) = Some h
    \<and> bundle = px_hello_bundle px \<and> bundle_fp (ro_crates ops) bundle \<noteq> of_fingerprint off
    \<and> lookup_members (persistent_ops J) (room_id (ro_crates ops) (of_bundle off) bundle) (rv_registry e')
        = members_vec (sorted_pair (bundle_fp (ro_crates ops) (of_bundle off), bundle_fp (ro_crates ops) bundle))
    \<and> encode_frame (ro_crates ops) (ro_frames ops) (PairPeer bundle) = Inr x
    \<and> encode_frame (ro_crates ops) (ro_frames ops) (PairPeer (of_bundle off)) = Inr y
    \<and> (h \<noteq> px_outbox px \<longrightarrow> ob_queue (rv_outboxes e' h) = ob_queue (rv_outboxes e h) @ [OutFrame x]
        \<and> ob_queue (rv_outboxes e' (px_outbox px)) = ob_queue (rv_outboxes e (px_outbox px)) @ [OutFrame y])
    \<and> (\<forall>now. \<not> is_published code now st')"
  using assms(4)
proof (cases rule: on_pair_frame_cases)
  case (claim c b st1)
  then have b: "c = code" "b = bundle" by auto
  from claim(3) [unfolded b] show ?thesis
  proof (cases rule: on_claim_cases)
    case (paired off h commit)
    have off: "map_of (ps_offers st) code = Some off" using paired(3) claim(2) by simp
    have fp: "of_fingerprint off = bundle_fp (ro_crates ops) (of_bundle off)"
      using pairing_run_ok [OF assms(1)] off by (simp add: offers_ok_def)
    have look: "lookup_members (persistent_ops J) (room_id (ro_crates ops) (of_bundle off) bundle) (rv_registry e')
        = members_vec (sorted_pair (of_fingerprint off, bundle_fp (ro_crates ops) bundle))"
      using claim_registers [OF assms off] fp assms(2) by simp
    have spent: "\<not> is_published code now st'" for now
      using paired(2,3) by (simp add: is_published_def set_offer_def map_of_map_entry)
    from paired(10) obtain x y where xy: "encode_frame (ro_crates ops) (ro_frames ops) (PairPeer bundle) = Inr x"
      "encode_frame (ro_crates ops) (ro_frames ops) (PairPeer (of_bundle off)) = Inr y"
      "h \<noteq> px_outbox px \<Longrightarrow> ob_queue (rv_outboxes e' h) = ob_queue (rv_outboxes e h) @ [OutFrame x]"
      "h \<noteq> px_outbox px \<Longrightarrow> ob_queue (rv_outboxes e' (px_outbox px)) = ob_queue (rv_outboxes e (px_outbox px)) @ [OutFrame y]"
      by (cases rule: notify_both_cases) auto
    show ?thesis using off fp look spent xy paired by (intro exI [of _ off] exI [of _ h] exI [of _ x] exI [of _ y]) simp
  qed simp
qed simp_all

subsection \<open>A concrete pairing\<close>

definition demo_bundle :: "byte \<Rightarrow> pub_bundle" where
  "demo_bundle b = \<lparr>sign_pk = replicate 32 b, dh_pk = replicate 32 b\<rparr>"

definition demo_pair_room :: string where
  "demo_pair_room = room_id demo_crates (demo_bundle 1) (demo_bundle 2)"

definition demo_pair_members :: member_pair where
  "demo_pair_members = (bundle_fp demo_crates (demo_bundle 1), bundle_fp demo_crates (demo_bundle 2))"

definition demo_pair_rooms :: rooms where
  "demo_pair_rooms = [(demo_pair_room, \<lparr>rr_members = demo_pair_members, rr_created_at_ms = 5, rr_activated_at_ms = None,
     rr_activated_members = {}\<rparr>)]"

definition demo_pair_json :: "disk_registry json" where
  "demo_pair_json = table_json [from_rooms demo_pair_rooms]"

text \<open>A relay that can encode the frames of the pairing and \<open>extra\<close> ones.\<close>

definition demo_pair_ops :: "frame list \<Rightarrow> (persistent_registry, unit) relay_ops" where
  "demo_pair_ops extra = \<lparr>ro_crates = demo_crates,
     ro_frames = table_json ([PairOfferOk, PairPeer (demo_bundle 1), PairPeer (demo_bundle 2)] @ extra),
     ro_registry = persistent_ops demo_pair_json, ro_sink = noop_sink\<rparr>"

definition demo_pair_env :: "(persistent_registry, unit) room_env" where
  "demo_pair_env = \<lparr>rv_outboxes = (\<lambda>_. outbox_new 8 100), rv_registry = \<lparr>pg_rooms = [], pg_file = None\<rparr>, rv_mailbox = ()\<rparr>"

definition demo_context :: "u64 \<Rightarrow> byte \<Rightarrow> pair_context" where
  "demo_context c b = \<lparr>px_connection_id = c, px_hello_bundle = demo_bundle b, px_outbox = c,
     px_connections = [1 \<mapsto> 1, 2 \<mapsto> 2], px_now = 10, px_unix_ms = 5, px_fault = None\<rparr>"

definition demo_code :: string where "demo_code = ''AB23CD''"

definition demo_offered :: pairing_state where
  "demo_offered = \<lparr>ps_offers = [(demo_code, \<lparr>of_connection_id = 1, of_bundle = demo_bundle 1,
       of_fingerprint = bundle_fp demo_crates (demo_bundle 1), of_expires_at = 310, of_state = Published\<rparr>)],
     ps_rates = [IpV4 1 \<mapsto> \<lparr>rt_window_start = 10, rt_attempts = 1\<rparr>]\<rparr>"

lemma demo_pair_facts:
  "is_lower_hex 32 demo_pair_room" "is_lower_hex 64 (fst demo_pair_members)" "is_lower_hex 64 (snd demo_pair_members)"
  "fst demo_pair_members < snd demo_pair_members" "valid_code demo_code"
  by code_simp+

lemma demo_pair_encode [simp]:
  "ro_crates (demo_pair_ops extra) = demo_crates" "ro_registry (demo_pair_ops extra) = persistent_ops demo_pair_json"
  "encode_frame demo_crates (ro_frames (demo_pair_ops extra)) PairOfferOk = Inr [2, 10]"
  "encode_frame demo_crates (ro_frames (demo_pair_ops extra)) (PairPeer (demo_bundle 1)) = Inr [1, 2, 10]"
  "encode_frame demo_crates (ro_frames (demo_pair_ops extra)) (PairPeer (demo_bundle 2)) = Inr [1, 1, 2, 10]"
  by (simp_all add: encode_frame_def encode_json_def ensure_size_def MAX_FRAME_BYTES_def demo_pair_ops_def table_json_def
      demo_bundle_def)

lemma demo_offer:
  "\<exists>e. on_pair_frame (demo_pair_ops extra) pairing_config_default (IpV4 1) (demo_context 1 1) (PairOffer demo_code (demo_bundle 1))
     pairing_new demo_pair_env = Inr (Inr (), demo_offered, e)"
  using demo_pair_facts(5)
  by (simp add: on_pair_frame.simps allow_attempt_def pairing_new_def pairing_config_default_def demo_context_def on_offer_def
      room_send_def send_frame_def try_frame_def has_slot_def demo_pair_env_def outbox_new_def set_offer_def demo_offered_def Let_def)

lemma demo_offered_run: "pairing_run (demo_pair_ops extra) pairing_config_default demo_offered [Offered demo_code]"
  using demo_offer run_frame [OF run_new] by (fastforce simp: pair_log_def)


lemma demo_commit:
  "pers_commit_room demo_pair_json None demo_pair_room demo_pair_members 5 \<lparr>pg_rooms = [], pg_file = None\<rparr>
   = (Inr Created, \<lparr>pg_rooms = demo_pair_rooms, pg_file = Some [2]\<rparr>)"
proof -
  have "validate_members demo_pair_members = Inr demo_pair_members"
    using demo_pair_facts(2-4) by (auto simp: validate_members_def case_prod_beta)
  then show ?thesis
    using demo_pair_facts(1)
    by (simp add: pers_commit_room_def registry_validate_room_id_def room_record_new_def
        persist_next_def registry_persist_def write_outcome_of_def relay_style_def demo_pair_json_def table_json_def
        demo_pair_rooms_def REGISTRY_MAX_ROOMS_def Let_def)
qed

lemma demo_claim:
  "\<exists>st e. on_pair_frame (demo_pair_ops extra) pairing_config_default (IpV4 2) (demo_context 2 2) (PairClaim demo_code (demo_bundle 2))
     demo_offered demo_pair_env = Inr (Inr (), st, e)"
proof -
  have neq: "bundle_fp demo_crates (demo_bundle 2) \<noteq> bundle_fp demo_crates (demo_bundle 1)"
    using demo_pair_facts(4) by (auto simp: demo_pair_members_def)
  show ?thesis
    using demo_pair_facts(5) neq demo_commit [unfolded demo_pair_room_def demo_pair_members_def]
    by (simp add: on_pair_frame.simps allow_attempt_def pairing_config_default_def demo_context_def on_claim_def
        room_reserve_def try_reserve_frame_def has_slot_def demo_pair_env_def outbox_new_def set_offer_def demo_offered_def
        notify_both_def persistent_ops_def Let_def)
qed

theorem claim_pairs_both_witness:
  "\<exists>st e. on_pair_frame (demo_pair_ops []) pairing_config_default (IpV4 2) (demo_context 2 2) (PairClaim demo_code (demo_bundle 2))
      demo_offered demo_pair_env = Inr (Inr (), st, e)
    \<and> lookup_members (persistent_ops demo_pair_json) demo_pair_room (rv_registry e) = members_vec demo_pair_members"
proof -
  obtain st e where run: "on_pair_frame (demo_pair_ops []) pairing_config_default (IpV4 2) (demo_context 2 2)
      (PairClaim demo_code (demo_bundle 2)) demo_offered demo_pair_env = Inr (Inr (), st, e)" using demo_claim by blast
  have "rooms_ok (pg_rooms (rv_registry demo_pair_env))" by (simp add: demo_pair_env_def rooms_ok_def)
  from claim_pairs_both [OF demo_offered_run _ this run, of demo_pair_json]
  have "lookup_members (persistent_ops demo_pair_json) demo_pair_room (rv_registry e)
      = members_vec (sorted_pair demo_pair_members)"
    by (auto simp: demo_offered_def demo_pair_room_def demo_pair_members_def)
  moreover have "sorted_pair demo_pair_members = demo_pair_members"
    using demo_pair_facts(4) by (cases demo_pair_members) (simp add: sorted_pair_def)
  ultimately show ?thesis using run by auto
qed

end
