(* ===== verification/Connection.thy ===== *)
theory Connection
  imports Relay_Pairing Ratelimit
begin

text \<open>
  One websocket connection of the relay, crates/server/src/connection.rs: the phases before hello,
  after hello and after join, the authentication of a join, the read loop with its clean-up, and
  the writer task.

  A step takes the shared server state and returns it; \<open>Inl\<close> is a panic of the connection's
  task. Randomness, clocks and the failing step of a registry write come with each step
  (\<open>conn_input\<close>). Between two steps the other tasks of the relay may change the shared state;
  the read loop takes that interference as a function per turn. The outbox of a connection lives
  at the address that equals its connection id. The test-only writer gate and the log lines on
  standard error have no effect on the state; the text of the log line is \<open>rate_limit_log\<close>.
\<close>

section \<open>Data\<close>

datatype conn_phase = PreHello | InReady "bytes option" pub_bundle | InJoined

datatype conn_step = Continue | StepJoined string string | StepClose

record connection =
  cn_id :: u64
  cn_ip :: ip_addr
  cn_phase :: conn_phase
  cn_joined :: "(string \<times> string) option"

record ('p, 'r, 'm) server_state =
  sv_config :: server_config
  sv_rooms :: "('r, 'm) rooms_state"
  sv_pairing :: 'p
  sv_connections :: connections
  sv_permits :: nat
  sv_rates :: rate_limiter
  sv_next_connection_id :: u64

record conn_input =
  cp_nonce :: bytes
  cp_now :: nat
  cp_unix_ms :: int
  cp_fault :: "write_step option"
  cp_waited :: nat

type_synonym ('p, 'r, 'm, 'a) task = "('p, 'r, 'm) server_state + 'a \<times> ('p, 'r, 'm) server_state"

abbreviation sv_env :: "('p, 'r, 'm) server_state \<Rightarrow> ('r, 'm) room_env" where
  "sv_env s \<equiv> rs_env (sv_rooms s)"

definition set_env :: "('r, 'm) room_env \<Rightarrow> ('p, 'r, 'm) server_state \<Rightarrow> ('p, 'r, 'm) server_state" where
  "set_env e s = s\<lparr>sv_rooms := (sv_rooms s)\<lparr>rs_env := e\<rparr>\<rparr>"

section \<open>The outbox of the connection\<close>

definition conn_send ::
  "('r, 'm) relay_ops \<Rightarrow> connection \<Rightarrow> frame \<Rightarrow> ('p, 'r, 'm) server_state \<Rightarrow> ('p, 'r, 'm, bool) task" where
  "conn_send ops c f s =
     (case room_send ops (cn_id c) f (sv_env s) of
        Inl e \<Rightarrow> Inl (set_env e s) | Inr (sent, e) \<Rightarrow> Inr (sent, set_env e s))"

definition conn_error_and_close ::
  "('r, 'm) relay_ops \<Rightarrow> connection \<Rightarrow> string \<Rightarrow> string \<Rightarrow> ('p, 'r, 'm) server_state \<Rightarrow> ('p, 'r, 'm, unit) task" where
  "conn_error_and_close ops c code message s =
     (case room_error_and_close ops (cn_id c) code message (sv_env s) of
        Inl e \<Rightarrow> Inl (set_env e s) | Inr (_, e) \<Rightarrow> Inr ((), set_env e s))"

text \<open>\<open>let _ = outbox.send_frame(&frame); outbox.close()\<close>.\<close>

definition refuse ::
  "('r, 'm) relay_ops \<Rightarrow> connection \<Rightarrow> frame \<Rightarrow> ('p, 'r, 'm) server_state \<Rightarrow> ('p, 'r, 'm, unit) task" where
  "refuse ops c f s =
     (case conn_send ops c f s of
        Inl s \<Rightarrow> Inl s
      | Inr (_, s) \<Rightarrow> Inr ((), set_env (upd_outbox (cn_id c) close_outbox (sv_env s)) s))"

definition error_frame :: "string \<Rightarrow> string \<Rightarrow> frame" where
  "error_frame code message = Error code message"

datatype rate_limit_kind = LimitBytes | LimitJoin

fun kind_as_str :: "rate_limit_kind \<Rightarrow> string" where
  "kind_as_str LimitBytes = ''bytes''"
| "kind_as_str LimitJoin = ''join''"

text \<open>The address is printed by the standard library, an argument here.\<close>

definition rate_limit_log :: "(ip_addr \<Rightarrow> string) \<Rightarrow> rate_limit_kind \<Rightarrow> ip_addr \<Rightarrow> u64 \<Rightarrow> string" where
  "rate_limit_log show_ip kind effective_ip connection_id =
     ''event=rate_limited kind='' @ kind_as_str kind @ '' effective_ip='' @ show_ip effective_ip
     @ '' connection_id='' @ show_nat (unat connection_id)"

section \<open>Joining\<close>

definition decode_signature :: "crates \<Rightarrow> string \<Rightarrow> bytes option" where
  "decode_signature X sig_b64 =
     (case b64_decode X sig_b64 of Inr bs \<Rightarrow> if length bs = 64 then Some bs else None | Inl _ \<Rightarrow> None)"

definition handle_join ::
  "('r, 'm) relay_ops \<Rightarrow> conn_input \<Rightarrow> connection \<Rightarrow> bytes option \<Rightarrow> string \<Rightarrow> string \<Rightarrow> pub_bundle \<Rightarrow> string
   \<Rightarrow> ('p, 'r, 'm) server_state \<Rightarrow> (frame + string \<times> string) \<times> ('p, 'r, 'm) server_state" where
  "handle_join ops inp c challenge room device_id_frame bundle sig_b64 s =
     (case challenge of
        None \<Rightarrow> (Inl (error_frame ''bad_auth'' ''no active join challenge''), s)
      | Some nonce \<Rightarrow>
        (case check_join (cp_now inp) (cn_ip c) (sv_rates s) of (allowed, rates) \<Rightarrow>
         let s = s\<lparr>sv_rates := rates\<rparr> in
         if \<not> allowed then (Inl (error_frame ''rate_limited'' ''join attempts exceeded''), s)
         else case decode_signature (ro_crates ops) sig_b64 of
           None \<Rightarrow> (Inl (error_frame ''bad_auth'' ''sig_b64 must decode to 64 bytes''), s)
         | Some signature \<Rightarrow>
           (case join_sig_msg nonce room device_id_frame (bundle_bytes bundle) of
              Inl _ \<Rightarrow> (Inl (error_frame ''bad_auth'' ''join signature input is invalid''), s)
            | Inr message \<Rightarrow>
              (if \<not> is_ok (verify (ro_crates ops) (sign_pk bundle) message signature)
               then (Inl (error_frame ''bad_auth'' ''join signature verification failed''), s)
               else if device_id (ro_crates ops) (sign_pk bundle) \<noteq> device_id_frame
               then (Inl (error_frame ''bad_auth'' ''device_id does not match the signing key''), s)
               else let members = lookup_members (ro_registry ops) room (rv_registry (sv_env s));
                        fp = bundle_fp (ro_crates ops) bundle in
               if members = [] then (Inl (error_frame ''bad_auth'' ''room is not registered''), s)
               else if fp \<notin> set members then (Inl (error_frame ''room_full'' ''room already has two identities''), s)
               else case rooms_join (sc_limits (sv_config s)) ops (cp_unix_ms inp) room members fp device_id_frame
                           (cn_id c) (cn_id c) (sv_rooms s) of
                 (True, rooms) \<Rightarrow> (Inr (room, fp), s\<lparr>sv_rooms := rooms\<rparr>)
               | (False, rooms) \<Rightarrow> (Inl (error_frame ''server_full'' ''room inbox exceeded''), s\<lparr>sv_rooms := rooms\<rparr>)))))"

section \<open>One frame\<close>

text \<open>The end of a refused step.\<close>

definition closing :: "connection \<Rightarrow> ('p, 'r, 'm, unit) task \<Rightarrow> ('p, 'r, 'm, conn_step \<times> connection) task" where
  "closing c r = (case r of Inl s \<Rightarrow> Inl s | Inr (_, s) \<Rightarrow> Inr ((StepClose, c), s))"

definition step_hello ::
  "('r, 'm) relay_ops \<Rightarrow> conn_input \<Rightarrow> string \<Rightarrow> pub_bundle \<Rightarrow> connection \<Rightarrow> ('p, 'r, 'm) server_state
   \<Rightarrow> ('p, 'r, 'm, conn_step \<times> connection) task" where
  "step_hello ops inp hello_device_id bundle c s =
     (if device_id (ro_crates ops) (sign_pk bundle) \<noteq> hello_device_id
      then closing c (conn_error_and_close ops c ''bad_auth'' ''hello device_id does not match signing key'' s)
      else case conn_send ops c (HelloOk PROTOCOL_VERSION (b64_encode (ro_crates ops) (cp_nonce inp))) s of
        Inl s \<Rightarrow> Inl s
      | Inr (False, s) \<Rightarrow> Inr ((StepClose, c), s)
      | Inr (True, s) \<Rightarrow> Inr ((Continue, c\<lparr>cn_phase := InReady (Some (cp_nonce inp)) bundle\<rparr>), s))"

definition step_pair ::
  "('r, 'm) relay_ops \<Rightarrow> ('p, 'r, 'm) pairing_ops \<Rightarrow> conn_input \<Rightarrow> pub_bundle \<Rightarrow> frame \<Rightarrow> connection
   \<Rightarrow> ('p, 'r, 'm) server_state \<Rightarrow> ('p, 'r, 'm, conn_step \<times> connection) task" where
  "step_pair ops P inp bundle f c s =
     (case po_on_pair_frame P (cn_ip c)
             \<lparr>px_connection_id = cn_id c, px_hello_bundle = bundle, px_outbox = cn_id c,
              px_connections = sv_connections s, px_now = cp_now inp, px_unix_ms = cp_unix_ms inp, px_fault = cp_fault inp\<rparr>
             f (sv_pairing s) (sv_env s) of
        Inl e \<Rightarrow> Inl (set_env e s)
      | Inr (Inr _, p, e) \<Rightarrow> Inr ((Continue, c), set_env e (s\<lparr>sv_pairing := p\<rparr>))
      | Inr (Inl err, p, e) \<Rightarrow> closing c (refuse ops c err (set_env e (s\<lparr>sv_pairing := p\<rparr>))))"

definition step_join ::
  "('r, 'm) relay_ops \<Rightarrow> conn_input \<Rightarrow> bytes option \<Rightarrow> pub_bundle \<Rightarrow> string \<Rightarrow> string \<Rightarrow> pub_bundle \<Rightarrow> string
   \<Rightarrow> connection \<Rightarrow> ('p, 'r, 'm) server_state \<Rightarrow> ('p, 'r, 'm, conn_step \<times> connection) task" where
  "step_join ops inp nonce hello_bundle room device bundle sig_b64 c s =
     (let c = c\<lparr>cn_phase := InReady None hello_bundle\<rparr> in
      case handle_join ops inp c nonce room device bundle sig_b64 s of
        (Inr (room, fp), s) \<Rightarrow> Inr ((StepJoined room fp, c), s)
      | (Inl err, s) \<Rightarrow> closing c (refuse ops c err s))"

text \<open>\<open>self.joined\<close> is set whenever the phase is joined; taking it out of \<open>None\<close> would
  panic.\<close>

definition step_clip ::
  "('r, 'm) relay_ops \<Rightarrow> string \<Rightarrow> string \<Rightarrow> nat \<Rightarrow> connection \<Rightarrow> ('p, 'r, 'm) server_state
   \<Rightarrow> ('p, 'r, 'm, conn_step \<times> connection) task" where
  "step_clip ops room ciphertext_b64 raw_len c s =
     (case cn_joined c of
        None \<Rightarrow> Inl s
      | Some (joined_room, fp) \<Rightarrow>
          (if room \<noteq> joined_room
           then closing c (conn_error_and_close ops c ''bad_frame'' ''clip room does not match the joined room'' s)
           else case rooms_clip (sc_limits (sv_config s)) joined_room fp (cn_id c) ciphertext_b64 raw_len (sv_rooms s) of
             (True, rooms) \<Rightarrow> Inr ((Continue, c), s\<lparr>sv_rooms := rooms\<rparr>)
           | (False, rooms) \<Rightarrow>
               closing c (conn_error_and_close ops c ''inbox_overflow'' ''room inbox exceeded'' (s\<lparr>sv_rooms := rooms\<rparr>))))"

definition step ::
  "('r, 'm) relay_ops \<Rightarrow> ('p, 'r, 'm) pairing_ops \<Rightarrow> conn_input \<Rightarrow> frame \<Rightarrow> nat \<Rightarrow> connection
   \<Rightarrow> ('p, 'r, 'm) server_state \<Rightarrow> ('p, 'r, 'm, conn_step \<times> connection) task" where
  "step ops P inp f raw_len c s =
     (case cn_phase c of
        PreHello \<Rightarrow>
          (case f of
             Hello device bundle _ \<Rightarrow> step_hello ops inp device bundle c s
           | _ \<Rightarrow> closing c (conn_error_and_close ops c ''bad_frame'' ''expected hello as the first frame'' s))
      | InReady nonce hello_bundle \<Rightarrow>
          (case f of
             PairOffer _ _ \<Rightarrow> step_pair ops P inp hello_bundle f c s
           | PairClaim _ _ \<Rightarrow> step_pair ops P inp hello_bundle f c s
           | Join room device bundle sig_b64 \<Rightarrow> step_join ops inp nonce hello_bundle room device bundle sig_b64 c s
           | _ \<Rightarrow> closing c (conn_error_and_close ops c ''bad_frame'' ''frame is illegal before join'' s))
      | InJoined \<Rightarrow>
          (case f of
             Clip room ciphertext_b64 _ _ \<Rightarrow> step_clip ops room ciphertext_b64 raw_len c s
           | _ \<Rightarrow> closing c (conn_error_and_close ops c ''bad_frame'' ''frame is illegal after join'' s)))"

section \<open>The read loop\<close>

datatype ws_message = WsBinary bytes | WsText bytes | WsClose | WsPing | WsPong

fun read_deadline :: "limits \<Rightarrow> conn_phase \<Rightarrow> nat option" where
  "read_deadline l PreHello = Some (li_handshake_deadline l)"
| "read_deadline l (InReady _ _) = Some (li_join_idle_deadline l)"
| "read_deadline l InJoined = None"

text \<open>A decoded frame; \<open>True\<close> goes on reading.\<close>

definition frame_turn ::
  "('r, 'm) relay_ops \<Rightarrow> ('p, 'r, 'm) pairing_ops \<Rightarrow> conn_input \<Rightarrow> frame \<Rightarrow> nat \<Rightarrow> connection
   \<Rightarrow> ('p, 'r, 'm) server_state \<Rightarrow> ('p, 'r, 'm, bool \<times> connection) task" where
  "frame_turn ops P inp f raw_len c s =
     (case step ops P inp f raw_len c s of
        Inl s \<Rightarrow> Inl s
      | Inr ((Continue, c), s) \<Rightarrow> Inr ((True, c), s)
      | Inr ((StepJoined room fp, c), s) \<Rightarrow> Inr ((True, c\<lparr>cn_phase := InJoined, cn_joined := Some (room, fp)\<rparr>), s)
      | Inr ((StepClose, c), s) \<Rightarrow> Inr ((False, c), s))"

definition stops :: "connection \<Rightarrow> ('p, 'r, 'm, unit) task \<Rightarrow> ('p, 'r, 'm, bool \<times> connection) task" where
  "stops c r = (case r of Inl s \<Rightarrow> Inl s | Inr (_, s) \<Rightarrow> Inr ((False, c), s))"

text \<open>One turn of the loop. \<open>None\<close> is the end of the stream or a read error, after
  \<open>cp_waited\<close> of waiting.\<close>

definition read_turn ::
  "('r, 'm) relay_ops \<Rightarrow> ('p, 'r, 'm) pairing_ops \<Rightarrow> conn_input \<Rightarrow> ws_message option \<Rightarrow> connection
   \<Rightarrow> ('p, 'r, 'm) server_state \<Rightarrow> ('p, 'r, 'm, bool \<times> connection) task" where
  "read_turn ops P inp msg c s =
     (if (case read_deadline (sc_limits (sv_config s)) (cn_phase c) of Some d \<Rightarrow> d \<le> cp_waited inp | None \<Rightarrow> False)
      then Inr ((False, c), s)
      else case msg of
        None \<Rightarrow> Inr ((False, c), s)
      | Some (WsBinary _) \<Rightarrow> stops c (conn_error_and_close ops c ''bad_frame'' ''binary frames are not accepted'' s)
      | Some (WsText text) \<Rightarrow>
          (case add_bytes (cp_now inp) (cn_ip c) (word_of_nat (length text)) (sv_rates s) of (within, rates) \<Rightarrow>
           let s = s\<lparr>sv_rates := rates\<rparr> in
           if \<not> within then stops c (conn_error_and_close ops c ''rate_limited'' ''per-IP byte budget exceeded'' s)
           else case decode_frame (ro_crates ops) (ro_frames ops) text of
             Inl err \<Rightarrow> stops c (refuse ops c (to_error_frame err) s)
           | Inr f \<Rightarrow> frame_turn ops P inp f (length text) c s)
      | Some WsClose \<Rightarrow> Inr ((False, c), s)
      | Some WsPing \<Rightarrow> Inr ((True, c), s)
      | Some WsPong \<Rightarrow> Inr ((True, c), s))"

text \<open>The loop over the messages of a connection, with what the other tasks do before each.\<close>

fun read_loop ::
  "('r, 'm) relay_ops \<Rightarrow> ('p, 'r, 'm) pairing_ops
   \<Rightarrow> ((('p, 'r, 'm) server_state \<Rightarrow> ('p, 'r, 'm) server_state) \<times> conn_input \<times> ws_message option) list
   \<Rightarrow> connection \<Rightarrow> ('p, 'r, 'm) server_state \<Rightarrow> ('p, 'r, 'm, connection) task" where
  "read_loop ops P [] c s = Inr (c, s)"
| "read_loop ops P ((others, inp, msg) # turns) c s =
     (case read_turn ops P inp msg c (others s) of
        Inl s \<Rightarrow> Inl s
      | Inr ((True, c), s) \<Rightarrow> read_loop ops P turns c s
      | Inr ((False, c), s) \<Rightarrow> Inr (c, s))"

definition open_connection ::
  "ip_addr \<Rightarrow> u64 \<Rightarrow> ('p, 'r, 'm) server_state \<Rightarrow> connection \<times> ('p, 'r, 'm) server_state" where
  "open_connection ip connection_id s =
     (let l = sc_limits (sv_config s) in
      (\<lparr>cn_id = connection_id, cn_ip = ip, cn_phase = PreHello, cn_joined = None\<rparr>,
       set_env (upd_outbox connection_id (\<lambda>_. outbox_new (li_outbox_max_frames l) (li_outbox_max_bytes l)) (sv_env s))
         (s\<lparr>sv_connections := (sv_connections s)(connection_id \<mapsto> connection_id)\<rparr>)))"

definition close_connection ::
  "('p, 'r, 'm) pairing_ops \<Rightarrow> connection \<Rightarrow> ('p, 'r, 'm) server_state \<Rightarrow> ('p, 'r, 'm) server_state" where
  "close_connection P c s =
     (let s = (case cn_joined c of
                 Some (room, fp) \<Rightarrow>
                   s\<lparr>sv_rooms := rooms_disconnect (sc_limits (sv_config s)) room fp (cn_id c) (sv_rooms s)\<rparr>
               | None \<Rightarrow> s) in
      s\<lparr>sv_pairing := po_on_disconnect P (cn_id c) (sv_pairing s),
        sv_connections := (sv_connections s)(cn_id c := None)\<rparr>)"

definition handle_connection where
  "handle_connection ops P ip connection_id turns s =
     (case open_connection ip connection_id s of (c, s) \<Rightarrow>
      case read_loop ops P turns c s of Inl s \<Rightarrow> Inl s | Inr (c, s) \<Rightarrow> Inr ((), close_connection P c s))"

section \<open>The writer\<close>

datatype ws_written = WroteText bytes | WroteClose

text \<open>One turn of \<open>run_writer\<close>: what it writes, and whether it goes on. \<open>senders\<close> tells
  that a handle of the outbox still exists, \<open>sink_ok\<close> that the socket accepts the message. A
  writer that returns drops the receiver.\<close>

definition writer_turn :: "bool \<Rightarrow> bool \<Rightarrow> bool \<Rightarrow> outbox \<Rightarrow> (ws_written list \<times> bool) \<times> outbox" where
  "writer_turn force_first senders sink_ok b =
     (case outbox_recv force_first b of
        (Some (OutFrame bs), b) \<Rightarrow>
          (if \<not> utf8_valid bs then (([], False), b\<lparr>ob_receiver := False\<rparr>)
           else if \<not> sink_ok then (([], False), b\<lparr>ob_receiver := False\<rparr>)
           else (([WroteText bs], True), b))
      | (Some OutClose, b) \<Rightarrow> ((if sink_ok then [WroteClose] else [], False), b\<lparr>ob_receiver := False\<rparr>)
      | (None, b) \<Rightarrow>
          (if senders then (([], True), b)
           else ((if sink_ok then [WroteClose] else [], False), b\<lparr>ob_receiver := False\<rparr>)))"

fun run_writer ::
  "((outbox \<Rightarrow> outbox) \<times> bool \<times> bool \<times> bool) list \<Rightarrow> outbox \<Rightarrow> ws_written list \<times> outbox" where
  "run_writer [] b = ([], b)"
| "run_writer ((others, force_first, senders, sink_ok) # turns) b =
     (case writer_turn force_first senders sink_ok (others b) of
        ((w, True), b) \<Rightarrow> (case run_writer turns b of (ws, b) \<Rightarrow> (w @ ws, b))
      | ((w, False), b) \<Rightarrow> (w, b))"

section \<open>Facts\<close>

lemma set_env_simps [simp]:
  "sv_env (set_env e s) = e" "set_env e' (set_env e s) = set_env e' s" "set_env (sv_env s) s = s"
  "sv_config (set_env e s) = sv_config s" "sv_pairing (set_env e s) = sv_pairing s"
  "sv_connections (set_env e s) = sv_connections s" "sv_permits (set_env e s) = sv_permits s"
  "sv_rates (set_env e s) = sv_rates s" "sv_next_connection_id (set_env e s) = sv_next_connection_id s"
  "sv_rooms (set_env e s) = (sv_rooms s)\<lparr>rs_env := e\<rparr>"
  by (simp_all add: set_env_def)

definition same_server :: "('p, 'r, 'm) server_state \<Rightarrow> ('p, 'r, 'm) server_state \<Rightarrow> bool" where
  "same_server s s' \<longleftrightarrow> sv_config s' = sv_config s \<and> sv_connections s' = sv_connections s
     \<and> sv_permits s' = sv_permits s \<and> sv_next_connection_id s' = sv_next_connection_id s"

subsection \<open>Refusals\<close>

text \<open>A refusal touches one outbox: the error is queued if it fits, then the end of the
  connection.\<close>

definition told :: "bytes \<Rightarrow> outbox \<Rightarrow> outbox" where
  "told x b = close_outbox (snd (try_frame x b))"

lemma refuse_eq:
  "refuse ops c f s =
     (case encode_frame (ro_crates ops) (ro_frames ops) f of
        Inl _ \<Rightarrow> Inl s | Inr x \<Rightarrow> Inr ((), set_env (upd_outbox (cn_id c) (told x) (sv_env s)) s))"
  by (auto simp: refuse_def conn_send_def room_send_def send_frame_def told_def upd_outbox_def split: sum.splits prod.splits)

lemma conn_error_and_close_eq: "conn_error_and_close ops c code message s = refuse ops c (Error code message) s"
  by (auto simp: refuse_eq conn_error_and_close_def room_error_and_close_def error_and_close_def send_frame_def told_def
      upd_outbox_def split: sum.splits option.splits prod.splits)

lemma closing_refuse:
  assumes "closing c (refuse ops c f s) = Inr ((st, c'), s')"
  obtains x where "encode_frame (ro_crates ops) (ro_frames ops) f = Inr x" "st = StepClose" "c' = c"
    "s' = set_env (upd_outbox (cn_id c) (told x) (sv_env s)) s"
  using assms by (auto simp: closing_def refuse_eq split: sum.splits)

lemma stops_refuse:
  assumes "stops c (refuse ops c f s) = Inr ((go, c'), s')"
  obtains x where "encode_frame (ro_crates ops) (ro_frames ops) f = Inr x" "\<not> go" "c' = c"
    "s' = set_env (upd_outbox (cn_id c) (told x) (sv_env s)) s"
  using assms by (auto simp: stops_def refuse_eq split: sum.splits)

subsection \<open>Joining\<close>

text \<open>What a join frame proves to a relay that sent the challenge \<open>nonce\<close>: possession of the
  signing key of the bundle, for this room and device, and that the bundle's fingerprint is a member
  of the room in the registry.\<close>

definition proves_member ::
  "('r, 'm) relay_ops \<Rightarrow> bytes \<Rightarrow> frame \<Rightarrow> 'r \<Rightarrow> string \<Rightarrow> string \<Rightarrow> bool" where
  "proves_member ops nonce f reg room fp \<longleftrightarrow>
     (\<exists>device bundle sig_b64 message signature.
        f = Join room device bundle sig_b64
      \<and> b64_decode (ro_crates ops) sig_b64 = Inr signature \<and> length signature = 64
      \<and> join_sig_msg nonce room device (bundle_bytes bundle) = Inr message
      \<and> ed25519_key_ok (ro_crates ops) (sign_pk bundle)
      \<and> ed25519_verify_strict (ro_crates ops) (sign_pk bundle) message signature
      \<and> device = device_id (ro_crates ops) (sign_pk bundle)
      \<and> fp = bundle_fp (ro_crates ops) bundle
      \<and> fp \<in> set (lookup_members (ro_registry ops) room reg))"

lemma decode_signature_Some:
  "decode_signature X sig_b64 = Some bs \<longleftrightarrow> b64_decode X sig_b64 = Inr bs \<and> length bs = 64"
  by (auto simp: decode_signature_def split: sum.splits)

lemma verify_ok: "is_ok (verify X pk m sg) \<longleftrightarrow> ed25519_key_ok X pk \<and> ed25519_verify_strict X pk m sg"
  by (simp add: verify_def)

lemma handle_join_cases:
  assumes "handle_join ops inp c challenge room device bundle sig_b64 s = (r, s')"
  obtains (refused) code message where "r = Inl (Error code message)" "same_server s s'" "sv_rooms s' = sv_rooms s"
  | (full) fp members where "r = Inl (Error ''server_full'' ''room inbox exceeded'')"
      "same_server s s'"
      "rooms_join (sc_limits (sv_config s)) ops (cp_unix_ms inp) room members fp device (cn_id c) (cn_id c) (sv_rooms s)
         = (False, sv_rooms s')"
  | (joined) nonce fp members where "challenge = Some nonce" "r = Inr (room, fp)"
      "same_server s s'"
      "proves_member ops nonce (Join room device bundle sig_b64) (rv_registry (sv_env s)) room fp"
      "rooms_join (sc_limits (sv_config s)) ops (cp_unix_ms inp) room members fp device (cn_id c) (cn_id c) (sv_rooms s)
         = (True, sv_rooms s')"
proof (cases challenge)
  case None
  then show thesis using assms that(1) by (auto simp: handle_join_def error_frame_def same_server_def)
next
  case (Some nonce)
  obtain allowed rates where cj: "check_join (cp_now inp) (cn_ip c) (sv_rates s) = (allowed, rates)" by fastforce
  let ?s = "s\<lparr>sv_rates := rates\<rparr>"
  let ?fp = "bundle_fp (ro_crates ops) bundle"
  let ?members = "lookup_members (ro_registry ops) room (rv_registry (sv_env s))"
  let ?checked = "\<exists>signature message. allowed \<and> decode_signature (ro_crates ops) sig_b64 = Some signature
     \<and> join_sig_msg nonce room device (bundle_bytes bundle) = Inr message
     \<and> is_ok (verify (ro_crates ops) (sign_pk bundle) message signature)
     \<and> device_id (ro_crates ops) (sign_pk bundle) = device \<and> ?fp \<in> set ?members"
  show thesis
  proof (cases ?checked)
    case True
    then obtain signature message where ok: "allowed" "decode_signature (ro_crates ops) sig_b64 = Some signature"
      "join_sig_msg nonce room device (bundle_bytes bundle) = Inr message"
      "is_ok (verify (ro_crates ops) (sign_pk bundle) message signature)"
      "device_id (ro_crates ops) (sign_pk bundle) = device" "?fp \<in> set ?members" by auto
    obtain sent rooms where j: "rooms_join (sc_limits (sv_config s)) ops (cp_unix_ms inp) room ?members ?fp device
        (cn_id c) (cn_id c) (sv_rooms s) = (sent, rooms)" by fastforce
    have ne: "?members \<noteq> []" using ok(6) by auto
    have run: "(r, s') = ((if sent then Inr (room, ?fp) else Inl (error_frame ''server_full'' ''room inbox exceeded'')),
        ?s\<lparr>sv_rooms := rooms\<rparr>)"
      unfolding assms [symmetric] using Some cj ok j ne by (simp add: handle_join_def split: bool.split)
    have proof': "proves_member ops nonce (Join room device bundle sig_b64) (rv_registry (sv_env s)) room ?fp"
      unfolding proves_member_def using ok by (auto simp: decode_signature_Some verify_ok)
    show thesis
    proof (cases sent)
      case True
      then show thesis using that(3) [OF Some _ _ proof'] run j by (simp add: same_server_def)
    next
      case False
      then show thesis using that(2) run j by (simp add: error_frame_def same_server_def)
    qed
  next
    case False
    then have "\<exists>code message. (r, s') = (Inl (Error code message), ?s)"
      unfolding assms [symmetric] using Some cj
      by (auto simp: handle_join_def error_frame_def Let_def split: option.splits sum.splits)
    then show thesis using that(1) by (auto simp: same_server_def)
  qed
qed

subsection \<open>One frame\<close>

text \<open>What a step without a join may do to the table of rooms.\<close>

inductive rooms_quiet :: "limits \<Rightarrow> ('r, 'm) relay_ops \<Rightarrow> ('r, 'm) rooms_state \<Rightarrow> ('r, 'm) rooms_state \<Rightarrow> bool" for l ops where
  quiet_env: "rooms_quiet l ops r (r\<lparr>rs_env := e\<rparr>)"
| quiet_full: "rooms_join l ops now room members fp device i h r = (False, r') \<Longrightarrow> rooms_quiet l ops r (r'\<lparr>rs_env := e\<rparr>)"
| quiet_clip: "rooms_clip l room fp i ct n r = (ok, r') \<Longrightarrow> rooms_quiet l ops r (r'\<lparr>rs_env := e\<rparr>)"

lemma quiet_same: "rooms_quiet l ops r r"
  using quiet_env [of l ops r "rs_env r"] by simp

lemma rooms_quiet_set_env:
  "rooms_quiet l ops r (sv_rooms s) \<Longrightarrow> rooms_quiet l ops r ((sv_rooms s)\<lparr>rs_env := e\<rparr>)"
  by (erule rooms_quiet.cases) (auto intro: rooms_quiet.intros)

lemma quiet_clipped: "rooms_clip l room fp i ct n r = (ok, r') \<Longrightarrow> rooms_quiet l ops r r'"
  using quiet_clip [of l room fp i ct n r ok r' ops "rs_env r'"] by simp

lemma quiet_fulled: "rooms_join l ops now room members fp device i h r = (False, r') \<Longrightarrow> rooms_quiet l ops r r'"
  using quiet_full [of l ops now room members fp device i h r r' "rs_env r'"] by simp

lemma closing_step:
  assumes "closing c1 (refuse ops c1 err s1) = Inr ((st, c'), s')" "cn_id c1 = cn_id c" "cn_joined c1 = cn_joined c"
    "same_server s s1" "rooms_quiet l ops (sv_rooms s) (sv_rooms s1)"
  shows "st = StepClose" "cn_id c' = cn_id c" "cn_joined c' = cn_joined c" "same_server s s'"
    "rooms_quiet l ops (sv_rooms s) (sv_rooms s')"
  using assms rooms_quiet_set_env [OF assms(5)] by (auto elim!: closing_refuse simp: same_server_def)

lemma same_server_refl [simp]: "same_server s s"
  by (simp add: same_server_def)

lemma step_cases:
  assumes "step ops P inp f raw_len c s = Inr ((st, c'), s')"
  obtains (hello) device bnd v where "cn_phase c = PreHello" "f = Hello device bnd v" "st = Continue"
      "device = device_id (ro_crates ops) (sign_pk bnd)"
      "c' = c\<lparr>cn_phase := InReady (Some (cp_nonce inp)) bnd\<rparr>" "same_server s s'" "sv_rooms s' = (sv_rooms s)\<lparr>rs_env := sv_env s'\<rparr>"
  | (pair) nonce bnd where "cn_phase c = InReady nonce bnd" "st = Continue" "c' = c"
      "same_server s s'" "sv_rooms s' = (sv_rooms s)\<lparr>rs_env := sv_env s'\<rparr>"
  | (join) nonce bnd room fp device members where "cn_phase c = InReady (Some nonce) bnd" "st = StepJoined room fp"
      "c' = c\<lparr>cn_phase := InReady None bnd\<rparr>" "same_server s s'"
      "proves_member ops nonce f (rv_registry (sv_env s)) room fp"
      "rooms_join (sc_limits (sv_config s)) ops (cp_unix_ms inp) room members fp device (cn_id c) (cn_id c) (sv_rooms s)
         = (True, sv_rooms s')"
  | (clip) room ct m d fp where "cn_phase c = InJoined" "f = Clip room ct d m" "cn_joined c = Some (room, fp)"
      "st = Continue" "c' = c" "same_server s s'"
      "rooms_clip (sc_limits (sv_config s)) room fp (cn_id c) ct raw_len (sv_rooms s) = (True, sv_rooms s')"
  | (closed) "st = StepClose" "cn_id c' = cn_id c" "cn_joined c' = cn_joined c" "same_server s s'"
      "rooms_quiet (sc_limits (sv_config s)) ops (sv_rooms s) (sv_rooms s')"
proof (cases "cn_phase c")
  case PreHello
  show thesis
  proof (cases "\<exists>device bnd v. f = Hello device bnd v \<and> device = device_id (ro_crates ops) (sign_pk bnd)")
    case True
    then obtain device bnd v where f: "f = Hello device bnd v" "device = device_id (ro_crates ops) (sign_pk bnd)" by blast
    have run: "step_hello ops inp device bnd c s = Inr ((st, c'), s')" using assms PreHello f by (simp add: step_def)
    then consider "st = Continue" "c' = c\<lparr>cn_phase := InReady (Some (cp_nonce inp)) bnd\<rparr>" "s' = set_env (sv_env s') s"
      | e where "st = StepClose" "c' = c" "s' = set_env e s"
      using f(2) by (auto simp: step_hello_def conn_send_def split: sum.splits bool.splits)
    then show thesis
    proof cases
      case 1
      then show thesis using that(1) [OF PreHello f(1) _ f(2)] by (metis same_server_def set_env_simps(4-7,9,10))
    next
      case (2 e)
      then show thesis using that(5) by (simp add: same_server_def quiet_env)
    qed
  next
    case False
    then have "\<exists>m code. closing c (refuse ops c (Error code m) s) = Inr ((st, c'), s')"
      using assms PreHello by (cases f) (auto simp: step_def step_hello_def conn_error_and_close_eq split: if_splits)
    then obtain m code where "closing c (refuse ops c (Error code m) s) = Inr ((st, c'), s')" by blast
    from closing_step [OF this refl refl _ quiet_same] show thesis using that(5) by simp
  qed
next
  case (InReady nonce bnd)
  consider (pairing) "step_pair ops P inp bnd f c s = Inr ((st, c'), s')"
    | (joining) room device jb sig_b64 where "f = Join room device jb sig_b64"
        "step_join ops inp nonce bnd room device jb sig_b64 c s = Inr ((st, c'), s')"
    | (illegal) m where "closing c (refuse ops c (Error ''bad_frame'' m) s) = Inr ((st, c'), s')"
    using assms InReady by (cases f) (auto simp: step_def conn_error_and_close_eq)
  then show thesis
  proof cases
    case pairing
    then consider p e where "st = Continue" "c' = c" "s' = set_env e (s\<lparr>sv_pairing := p\<rparr>)"
      | p e where "st = StepClose" "c' = c" "s' = set_env e (s\<lparr>sv_pairing := p\<rparr>)"
      by (auto simp: step_pair_def split: sum.splits elim!: closing_refuse)
    then show thesis
    proof cases
      case (1 p e)
      then show thesis using that(2) [OF InReady] by (simp add: same_server_def)
    next
      case (2 p e)
      then show thesis using that(5) by (simp add: same_server_def quiet_env)
    qed
  next
    case (joining room device jb sig_b64)
    let ?c = "c\<lparr>cn_phase := InReady None bnd\<rparr>"
    obtain r s1 where h: "handle_join ops inp ?c nonce room device jb sig_b64 s = (r, s1)" by fastforce
    from h show thesis
    proof (cases rule: handle_join_cases)
      case (refused code message)
      then have "closing ?c (refuse ops ?c (Error code message) s1) = Inr ((st, c'), s')"
        using joining(2) h by (simp add: step_join_def Let_def)
      from closing_step [OF this, of c s "sc_limits (sv_config s)"] show thesis using that(5) refused(2,3) by (simp add: quiet_same)
    next
      case (full fp members)
      then have "closing ?c (refuse ops ?c (Error ''server_full'' ''room inbox exceeded'') s1) = Inr ((st, c'), s')"
        using joining(2) h by (simp add: step_join_def Let_def)
      from closing_step [OF this, of c s, OF _ _ full(2) quiet_fulled [OF full(3)]] show thesis using that(5) by simp
    next
      case (joined nonce' fp members)
      then show thesis using joining h that(3) [of nonce' bnd room fp members device] InReady
        by (simp add: step_join_def)
    qed
  next
    case (illegal m)
    from closing_step [OF this refl refl _ quiet_same] show thesis using that(5) by simp
  qed
next
  case InJoined
  consider (clipping) room ct d m where "f = Clip room ct d m" "step_clip ops room ct raw_len c s = Inr ((st, c'), s')"
    | (illegal) m where "closing c (refuse ops c (Error ''bad_frame'' m) s) = Inr ((st, c'), s')"
    using assms InJoined by (cases f) (auto simp: step_def conn_error_and_close_eq)
  then show thesis
  proof cases
    case (clipping room ct d m)
    then obtain joined_room fp where j: "cn_joined c = Some (joined_room, fp)"
      by (auto simp: step_clip_def split: option.splits)
    obtain ok rooms where r: "rooms_clip (sc_limits (sv_config s)) joined_room fp (cn_id c) ct raw_len (sv_rooms s) = (ok, rooms)" by fastforce
    show thesis
    proof (cases "room = joined_room \<and> ok")
      case True
      then have run: "c' = c" "st = Continue" "s' = s\<lparr>sv_rooms := rooms\<rparr>" using clipping(2) j r by (simp_all add: step_clip_def)
      show thesis
        by (rule that(4) [OF InJoined clipping(1), of fp]) (use run r j True in \<open>simp_all add: same_server_def\<close>)
    next
      case False
      show thesis
      proof (cases "room = joined_room")
        case True
        then have "closing c (refuse ops c (Error ''inbox_overflow'' ''room inbox exceeded'') (s\<lparr>sv_rooms := rooms\<rparr>)) = Inr ((st, c'), s')"
          using False clipping(2) j r by (simp add: step_clip_def conn_error_and_close_eq)
        from closing_step [OF this refl refl, of s "sc_limits (sv_config s)"] show thesis using that(5) quiet_clipped [OF r] by (simp add: same_server_def)
      next
        case False
        then have "closing c (refuse ops c (Error ''bad_frame'' ''clip room does not match the joined room'') s) = Inr ((st, c'), s')"
          using clipping(2) j by (simp add: step_clip_def conn_error_and_close_eq)
        from closing_step [OF this refl refl _ quiet_same] show thesis using that(5) by simp
      qed
    qed
  next
    case (illegal m)
    from closing_step [OF this refl refl _ quiet_same] show thesis using that(5) by simp
  qed
qed

subsection \<open>One message\<close>

text \<open>What a turn of the read loop leaves, for the tasks beside it.\<close>

lemma read_turn_cases:
  assumes "read_turn ops P inp msg c s = Inr ((go, c'), s')"
  obtains (hello) bnd where "cn_phase c = PreHello" "go"
      "c' = c\<lparr>cn_phase := InReady (Some (cp_nonce inp)) bnd\<rparr>" "same_server s s'"
      "rooms_quiet (sc_limits (sv_config s)) ops (sv_rooms s) (sv_rooms s')"
  | (join) nonce bnd room fp device members raw f where "cn_phase c = InReady (Some nonce) bnd" "go"
      "c' = c\<lparr>cn_phase := InJoined, cn_joined := Some (room, fp)\<rparr>" "same_server s s'"
      "msg = Some (WsText raw)" "decode_frame (ro_crates ops) (ro_frames ops) raw = Inr f"
      "proves_member ops nonce f (rv_registry (sv_env s)) room fp"
      "rooms_join (sc_limits (sv_config s)) ops (cp_unix_ms inp) room members fp device (cn_id c) (cn_id c) (sv_rooms s)
         = (True, sv_rooms s')"
  | (stay) "go" "c' = c" "same_server s s'"
      "rooms_quiet (sc_limits (sv_config s)) ops (sv_rooms s) (sv_rooms s')"
  | (finish) "\<not> go" "cn_id c' = cn_id c" "cn_joined c' = cn_joined c" "same_server s s'"
      "rooms_quiet (sc_limits (sv_config s)) ops (sv_rooms s) (sv_rooms s')"
proof -
  let ?s = "\<lambda>raw. s\<lparr>sv_rates := snd (add_bytes (cp_now inp) (cn_ip c) (word_of_nat (length (raw :: bytes))) (sv_rates s))\<rparr>"
  have refusal: "stops c (refuse ops c f s1) = Inr ((go, c'), s') \<Longrightarrow> same_server s s1 \<Longrightarrow> sv_rooms s1 = sv_rooms s \<Longrightarrow> thesis" for f s1
    using that(4) by (auto elim!: stops_refuse simp: same_server_def quiet_env)
  have "(c' = c \<and> s' = s) \<or> (\<exists>f. stops c (refuse ops c f s) = Inr ((go, c'), s'))
    \<or> (\<exists>raw f. stops c (refuse ops c f (?s raw)) = Inr ((go, c'), s'))
    \<or> (\<exists>raw f. msg = Some (WsText raw) \<and> decode_frame (ro_crates ops) (ro_frames ops) raw = Inr f
        \<and> frame_turn ops P inp f (length raw) c (?s raw) = Inr ((go, c'), s'))"
    using assms by (auto simp: read_turn_def case_prod_beta Let_def conn_error_and_close_eq split: if_splits option.splits ws_message.splits sum.splits)
  then consider (idle) "c' = c" "s' = s"
    | (refused) f where "stops c (refuse ops c f s) = Inr ((go, c'), s')"
    | (limited) raw f where "stops c (refuse ops c f (?s raw)) = Inr ((go, c'), s')"
    | (framed) raw f where "msg = Some (WsText raw)" "decode_frame (ro_crates ops) (ro_frames ops) raw = Inr f"
        "frame_turn ops P inp f (length raw) c (?s raw) = Inr ((go, c'), s')"
    by blast
  then show thesis
  proof cases
    case idle
    then show thesis using that(3,4) by (cases go) (auto simp: quiet_same)
  next
    case (refused f)
    then show thesis by (rule refusal) simp_all
  next
    case (limited raw f)
    then show thesis by (rule refusal) (simp_all add: same_server_def)
  next
    case (framed raw f)
    obtain st c1 where run: "step ops P inp f (length raw) c (?s raw) = Inr ((st, c1), s')"
      using framed(3) by (auto simp: frame_turn_def split: sum.splits conn_step.splits)
    have res: "(go, c') = (case st of Continue \<Rightarrow> (True, c1) | StepJoined room fp \<Rightarrow> (True, c1\<lparr>cn_phase := InJoined, cn_joined := Some (room, fp)\<rparr>)
        | StepClose \<Rightarrow> (False, c1))"
      using framed(3) run by (simp add: frame_turn_def split: conn_step.splits)
    have same: "same_server s s' = same_server (?s raw) s'" by (simp add: same_server_def)
    from run show thesis
    proof (cases rule: step_cases)
      case (hello device bnd v)
      then show thesis using that(1) res same quiet_env [of "sc_limits (sv_config s)" ops "sv_rooms s" "sv_env s'"] by simp
    next
      case (pair nonce bnd)
      then show thesis using that(3) res same quiet_env [of "sc_limits (sv_config s)" ops "sv_rooms s" "sv_env s'"] by simp
    next
      case (join nonce bnd room fp device members)
      then show thesis using that(2) [OF join(1) _ _ _ framed(1,2)] res same by simp
    next
      case (clip room ct m d fp)
      then show thesis using that(3) res same quiet_clipped [OF clip(7), of ops] by simp
    next
      case closed
      then show thesis using that(4) res same by simp
    qed
  qed
qed

subsection \<open>The writer\<close>

text \<open>A writer whose socket takes everything writes the queued frames in their order and then the
  close message: a connection that is refused learns why before it ends.\<close>

lemma run_writer_drains:
  assumes "ob_queue b = map OutFrame fs @ [OutClose]" "list_all utf8_valid fs" "\<not> ob_force_close b"
    "length fs < length turns" "list_all (\<lambda>(others, force_first, senders, sink_ok). others = (\<lambda>b. b) \<and> sink_ok) turns"
  shows "fst (run_writer turns b) = map WroteText fs @ [WroteClose]"
  using assms
proof (induction turns arbitrary: fs b)
  case (Cons t turns)
  obtain force_first senders where t: "t = (\<lambda>b. b, force_first, senders, True)" using Cons.prems(5) by (cases t) auto
  show ?case
  proof (cases fs)
    case Nil
    then show ?thesis using Cons.prems(1,3) t by (simp add: writer_turn_def outbox_recv_def)
  next
    case fs: (Cons x xs)
    let ?b = "b\<lparr>ob_queue := map OutFrame xs @ [OutClose], ob_pending_bytes := ob_pending_bytes b - length x\<rparr>"
    have "writer_turn force_first senders True b = (([WroteText x], True), ?b)"
      using Cons.prems fs by (simp add: writer_turn_def outbox_recv_def)
    moreover have "fst (run_writer turns ?b) = map WroteText xs @ [WroteClose]"
      using Cons.prems fs by (intro Cons.IH) auto
    ultimately show ?thesis using t fs by (simp add: case_prod_beta)
  qed
qed simp

subsection \<open>Panics\<close>

lemma closing_panic:
  "closing c (refuse ops c1 f s1) = Inl s' \<Longrightarrow> s' = s1"
  by (auto simp: closing_def refuse_eq split: sum.splits)

lemma step_panic:
  assumes "step ops P inp f raw_len c s = Inl s'"
  shows "same_server s s' \<and> rooms_quiet (sc_limits (sv_config s)) ops (sv_rooms s) (sv_rooms s')"
proof -
  consider (hello) device bnd where "step_hello ops inp device bnd c s = Inl s'"
    | (pair) bnd where "step_pair ops P inp bnd f c s = Inl s'"
    | (join) nonce bnd room device jb sig_b64 where "step_join ops inp nonce bnd room device jb sig_b64 c s = Inl s'"
    | (clip) room ct where "step_clip ops room ct raw_len c s = Inl s'"
    | (illegal) m where "closing c (refuse ops c (Error ''bad_frame'' m) s) = Inl s'"
    using assms by (auto simp: step_def conn_error_and_close_eq split: conn_phase.splits frame.splits)
  then show ?thesis
  proof cases
    case (hello device bnd)
    then have "\<exists>e. s' = set_env e s"
      by (auto simp: step_hello_def conn_error_and_close_eq conn_send_def dest!: closing_panic
          split: if_splits sum.splits bool.splits) (metis set_env_simps(3))
    then show ?thesis by (auto simp: same_server_def quiet_env)
  next
    case (pair bnd)
    then have "(\<exists>e. s' = set_env e s) \<or> (\<exists>e p. s' = set_env e (s\<lparr>sv_pairing := p\<rparr>))"
      by (auto simp: step_pair_def dest!: closing_panic split: sum.splits) blast+
    then show ?thesis by (auto simp: same_server_def quiet_env)
  next
    case (join nonce bnd room device jb sig_b64)
    let ?c = "c\<lparr>cn_phase := InReady None bnd\<rparr>"
    obtain r s1 where h: "handle_join ops inp ?c nonce room device jb sig_b64 s = (r, s1)" by fastforce
    from h show ?thesis
    proof (cases rule: handle_join_cases)
      case (refused code message)
      then show ?thesis using join h by (auto simp: step_join_def Let_def quiet_same dest!: closing_panic)
    next
      case (full fp members)
      then show ?thesis using join h quiet_fulled [OF full(3)] by (auto simp: step_join_def Let_def dest!: closing_panic)
    next
      case (joined nonce' fp members)
      then show ?thesis using join h by (simp add: step_join_def)
    qed
  next
    case (clip room ct)
    show ?thesis
    proof (cases "cn_joined c")
      case None
      then show ?thesis using clip by (simp add: step_clip_def quiet_same)
    next
      case (Some p)
      obtain joined_room fp where p: "p = (joined_room, fp)" by fastforce
      obtain ok rooms where r: "rooms_clip (sc_limits (sv_config s)) joined_room fp (cn_id c) ct raw_len (sv_rooms s) = (ok, rooms)" by fastforce
      have "s' = s \<or> s' = s\<lparr>sv_rooms := rooms\<rparr>"
        using clip Some p r by (auto simp: step_clip_def conn_error_and_close_eq dest!: closing_panic split: if_splits bool.splits)
      then show ?thesis using quiet_clipped [OF r, of ops] by (auto simp: same_server_def quiet_same)
    qed
  next
    case (illegal m)
    then show ?thesis by (auto simp: quiet_same dest!: closing_panic)
  qed
qed

lemma read_turn_panic:
  assumes "read_turn ops P inp msg c s = Inl s'"
  shows "same_server s s' \<and> rooms_quiet (sc_limits (sv_config s)) ops (sv_rooms s) (sv_rooms s')"
proof -
  let ?s = "\<lambda>raw. s\<lparr>sv_rates := snd (add_bytes (cp_now inp) (cn_ip c) (word_of_nat (length (raw :: bytes))) (sv_rates s))\<rparr>"
  have stop: "stops c (refuse ops c f s1) = Inl s2 \<Longrightarrow> s2 = s1" for f s1 and s2 :: "('a, 'b, 'c) server_state"
    by (auto simp: stops_def refuse_eq split: sum.splits)
  have "s' = s \<or> (\<exists>raw. s' = ?s raw) \<or> (\<exists>raw f. step ops P inp f (length raw) c (?s raw) = Inl s')"
    using assms by (auto simp: read_turn_def case_prod_beta Let_def conn_error_and_close_eq frame_turn_def dest!: stop
        split: if_splits option.splits ws_message.splits sum.splits conn_step.splits)
  then show ?thesis using step_panic [of ops P inp _ _ c "?s _" s'] by (auto simp: same_server_def quiet_same)
qed

subsection \<open>An honest client\<close>

lemma read_turn_frame:
  assumes "case read_deadline (sc_limits (sv_config s)) (cn_phase c) of Some d \<Rightarrow> cp_waited inp < d | None \<Rightarrow> True"
    and "add_bytes (cp_now inp) (cn_ip c) (word_of_nat (length raw)) (sv_rates s) = (True, rates)"
    and "decode_frame (ro_crates ops) (ro_frames ops) raw = Inr f"
  shows "read_turn ops P inp (Some (WsText raw)) c s = frame_turn ops P inp f (length raw) c (s\<lparr>sv_rates := rates\<rparr>)"
  using assms by (auto simp: read_turn_def split: option.splits)

lemma step_honest_hello:
  assumes "cn_phase c = PreHello"
    and "room_send ops (cn_id c) (HelloOk PROTOCOL_VERSION (b64_encode (ro_crates ops) (cp_nonce inp))) (sv_env s) = Inr (True, e)"
  shows "step ops P inp (Hello (id_device_id (ro_crates ops) i) (public_bundle (ro_crates ops) i) v) raw_len c s
    = Inr ((Continue, c\<lparr>cn_phase := InReady (Some (cp_nonce inp)) (public_bundle (ro_crates ops) i)\<rparr>), set_env e s)"
  using assms by (simp add: step_def step_hello_def conn_send_def id_device_id_def public_bundle_def)

text \<open>A device that signs the challenge with its key and is a member of the room gets in, if its
  address has an attempt left and the room's inbox has space.\<close>

lemma step_honest_join:
  assumes "signature_law (ro_crates ops)" "b64_law (ro_crates ops)"
    and "cn_phase c = InReady (Some nonce) hb"
    and "join_sig_msg nonce room (id_device_id (ro_crates ops) i) (bundle_bytes (public_bundle (ro_crates ops) i)) = Inr message"
    and "id_bundle_fp (ro_crates ops) i \<in> set (lookup_members (ro_registry ops) room (rv_registry (sv_env s)))"
    and "check_join (cp_now inp) (cn_ip c) (sv_rates s) = (True, rates)"
    and "rooms_join (sc_limits (sv_config s)) ops (cp_unix_ms inp) room (lookup_members (ro_registry ops) room (rv_registry (sv_env s)))
           (id_bundle_fp (ro_crates ops) i) (id_device_id (ro_crates ops) i) (cn_id c) (cn_id c) (sv_rooms s) = (True, rooms)"
  shows "step ops P inp (Join room (id_device_id (ro_crates ops) i) (public_bundle (ro_crates ops) i)
            (b64_encode (ro_crates ops) (id_sign_message (ro_crates ops) i message))) raw_len c s
    = Inr ((StepJoined room (id_bundle_fp (ro_crates ops) i), c\<lparr>cn_phase := InReady None hb\<rparr>),
           s\<lparr>sv_rates := rates, sv_rooms := rooms\<rparr>)"
proof -
  let ?X = "ro_crates ops"
  let ?members = "lookup_members (ro_registry ops) room (rv_registry (sv_env s))"
  have sig: "decode_signature ?X (b64_encode ?X (id_sign_message ?X i message)) = Some (ed25519_sign ?X (id_sign i) message)"
    using assms(1,2) by (simp add: decode_signature_Some id_sign_message_def b64_law_def signature_law_def)
  have ver: "is_ok (verify ?X (sign_pk (public_bundle ?X i)) message (ed25519_sign ?X (id_sign i) message))"
    using assms(1) by (simp add: verify_ok public_bundle_def signature_law_def)
  have dev: "device_id ?X (sign_pk (public_bundle ?X i)) = id_device_id ?X i" by (simp add: public_bundle_def id_device_id_def)
  have ne: "?members \<noteq> []" using assms(5) by auto
  show ?thesis
    using assms(3-7) sig ver dev ne
    by (simp add: step_def step_join_def handle_join_def id_bundle_fp_def Let_def)
qed

end
