(* ===== verification/Relay.thy ===== *)
theory Relay
  imports Connection Room_Runs
begin

text \<open>
  The relay as a whole, crates/server/src/server.rs: the shared state, the admission of
  connections, the health endpoint, and all connections, room actors and background tasks running
  beside each other.

  \<open>relay_reach\<close> interleaves whole turns: admitting a connection, one message of a connection,
  one event of a room actor, and any change of outboxes, registry and mailbox by the other tasks
  (writers, sweepers, the mailbox worker). Two histories are kept beside the state: the challenge
  each connection was sent, and the message with which it joined, together with the registry it was
  checked against. Connection ids do not repeat within the 64-bit counter; a relay that has counted
  through it is outside the relation.

  The lemmas show that every member of a room is a connection that proved the membership, that
  connections never exceed the permits, and that an honest join of a registered device is accepted.
\<close>

section \<open>State and handlers\<close>

definition server_new :: "server_config \<Rightarrow> 'p \<Rightarrow> ('r, 'm) room_env \<Rightarrow> ('p, 'r, 'm) server_state" where
  "server_new config pairing e = \<lparr>sv_config = config, sv_rooms = rooms_new e, sv_pairing = pairing,
     sv_connections = Map.empty, sv_permits = li_max_connections (sc_limits config),
     sv_rates = rate_limiter_new (sc_limits config), sv_next_connection_id = 1\<rparr>"

definition healthz_handler :: "('r, 'm) relay_ops \<Rightarrow> ('p, 'r, 'm) server_state \<Rightarrow> nat \<times> string" where
  "healthz_handler ops s =
     (if health_probe (ro_sink ops) (rv_mailbox (sv_env s)) = Some False
      then (503, ''degraded'' @ [CHR 0x0A]) else (200, ''ok'' @ [CHR 0x0A]))"

text \<open>\<open>None\<close> is a panic in \<open>client_ip\<close>; the left side is an answer without an upgrade.\<close>

definition ws_handler ::
  "ip_addr \<Rightarrow> string option \<Rightarrow> ('p, 'r, 'm) server_state
   \<Rightarrow> ((nat \<times> string + ip_addr \<times> u64) \<times> ('p, 'r, 'm) server_state) option" where
  "ws_handler peer x_forwarded_for s =
     (case client_ip (sv_config s) peer x_forwarded_for of
        None \<Rightarrow> None
      | Some ip \<Rightarrow>
          Some (if sv_permits s = 0 then (Inl (503, ''server_full''), s)
                else (Inr (ip, sv_next_connection_id s),
                      s\<lparr>sv_permits := sv_permits s - 1, sv_next_connection_id := sv_next_connection_id s + 1\<rparr>)))"

text \<open>The end of the upgraded task, normal or by a panic, drops its permit.\<close>

definition drop_permit :: "('p, 'r, 'm) server_state \<Rightarrow> ('p, 'r, 'm) server_state" where
  "drop_permit s = s\<lparr>sv_permits := Suc (sv_permits s)\<rparr>"

section \<open>Who is in a room\<close>

text \<open>Fingerprint, connection and outbox of the members of a slot: queued joins and members
  online.\<close>

definition event_joins :: "room_event \<Rightarrow> (string \<times> u64 \<times> outbox_handle) set" where
  "event_joins ev = {(fp, i, h). \<exists>device. ev = RoomJoin fp device i h}"

definition actor_joins :: "room_actor \<Rightarrow> (string \<times> u64 \<times> outbox_handle) set" where
  "actor_joins a = {(fp, i, h). map_of (ra_online a) fp = Some \<lparr>om_connection_id = i, om_outbox = h\<rparr>}"

definition slot_joins :: "room_slot \<Rightarrow> (string \<times> u64 \<times> outbox_handle) set" where
  "slot_joins sl = (\<Union>ev\<in>set (sl_inbox sl). event_joins ev) \<union> actor_joins (sl_actor sl)"

definition table_joins :: "('r, 'm) rooms_state \<Rightarrow> (string \<times> string \<times> u64 \<times> outbox_handle) set" where
  "table_joins s = {(room, j). \<exists>k. ra_room_id (sl_actor (rs_slots s k)) = room \<and> j \<in> slot_joins (rs_slots s k)}"

lemma event_joins_simps [simp]:
  "event_joins (RoomJoin fp device i h) = {(fp, i, h)}" "event_joins (RoomClip fp i ct n) = {}"
  "event_joins (RoomDisconnect fp i) = {}"
  by (auto simp: event_joins_def)

lemma table_joins_env [simp]: "table_joins (s\<lparr>rs_env := e\<rparr>) = table_joins s"
  by (simp add: table_joins_def)

lemma table_joins_upd:
  assumes "ra_room_id (sl_actor sl) = ra_room_id (sl_actor (rs_slots s i))" "slot_joins sl \<subseteq> slot_joins (rs_slots s i) \<union> J"
  shows "table_joins (upd_slot i sl s) \<subseteq> table_joins s \<union> {ra_room_id (sl_actor (rs_slots s i))} \<times> J"
  using assms by (fastforce simp: table_joins_def upd_slot_def split: if_splits)

lemma table_joins_remove [simp]: "table_joins (remove_if_same room i s) = table_joins s"
  by (simp add: table_joins_def remove_if_same_def)

lemma inbox_try_send_joins:
  assumes "inbox_try_send l ev sl = (ok, sl')"
  shows "slot_joins sl' \<subseteq> slot_joins sl \<union> (if ok then event_joins ev else {})" "sl_actor sl' = sl_actor sl"
  using assms by (auto simp: inbox_try_send_def slot_joins_def Let_def split: if_splits)

lemma table_joins_send:
  assumes "inbox_try_send l ev (rs_slots s i) = (ok, sl)"
  shows "table_joins (upd_slot i sl s)
    \<subseteq> table_joins s \<union> {ra_room_id (sl_actor (rs_slots s i))} \<times> (if ok then event_joins ev else {})"
  using inbox_try_send_joins [OF assms] by (intro table_joins_upd) auto

lemma room_entry_joins:
  assumes "table_ok l s" "room_entry ops now room members s = (i, s')"
  shows "table_joins s' \<subseteq> table_joins s \<and> ra_room_id (sl_actor (rs_slots s' i)) = room"
proof (cases "rs_map s room")
  case (Some k)
  then show ?thesis using assms by (auto simp: room_entry_def table_ok_def)
next
  case None
  then obtain sl where s': "i = rs_next s" "rs_slots s' = (rs_slots s)(rs_next s := sl)" "slot_joins sl = {}"
      "ra_room_id (sl_actor sl) = room"
    using assms(2) by (auto simp: room_entry_def rooms_spawn_def upd_slot_def slot_joins_def actor_joins_def Let_def)
  then show ?thesis by (auto simp: table_joins_def split: if_splits)
qed

lemma join_attempts_joins:
  "table_ok l s \<Longrightarrow> join_attempts n l ops now room members ev s = (ok, s')
   \<Longrightarrow> table_joins s' \<subseteq> table_joins s \<union> {room} \<times> (if ok then event_joins ev else {})"
proof (induction n arbitrary: s)
  case (Suc n)
  obtain i s1 where e: "room_entry ops now room members s = (i, s1)" by fastforce
  note e1 = room_entry_joins [OF Suc.prems(1) e] and ok1 = room_entry_ok [OF Suc.prems(1) e]
  obtain sent sl where t: "inbox_try_send l ev (rs_slots s1 i) = (sent, sl)" by fastforce
  note send = table_joins_send [OF t]
  show ?case
  proof (cases "sent \<or> sl_open (rs_slots s1 i)")
    case True
    then show ?thesis using Suc.prems(2) e t e1 send by (cases sent) auto
  next
    case False
    then have "join_attempts n l ops now room members ev (remove_if_same room i s1) = (ok, s')"
      using Suc.prems(2) e t by simp
    from Suc.IH [OF table_ok_remove [OF ok1] this] False e1 show ?thesis by auto
  qed
qed simp

lemma route_clip_online:
  "route_clip ops inp s ct rs a e = Inr (a', e') \<Longrightarrow> map_of (ra_online a') q = map_of (ra_online a) q \<or> map_of (ra_online a') q = None"
proof (induction rs arbitrary: a e)
  case (Cons r rs)
  obtain a1 e1 where one: "route_one ops inp s ct r a e = Inr (a1, e1)" "route_clip ops inp s ct rs a1 e1 = Inr (a', e')"
    using Cons.prems by (auto split: sum.splits)
  show ?case using route_one_online(1) [OF one(1), of q] Cons.IH [OF one(2)] by auto
qed simp

lemma run_event_joins:
  assumes "run_event ops inp ev a e = Inr ((ret, a'), e')"
  shows "actor_joins a' \<subseteq> actor_joins a \<union> event_joins ev"
proof (cases ev)
  case (RoomJoin fp dev c h)
  then have run: "on_join ops inp fp dev c h a e = Inr (a', e')" using assms by (auto split: sum.splits)
  obtain boot a2 e2 where prep: "join_prepared ops fp a e = (boot, a2, e2)" by (metis prod_cases3)
  note f = join_prepared_facts [OF prep]
  from run prep show ?thesis
    by (cases rule: on_join_cases) (auto simp: RoomJoin actor_joins_def f(4) map_of_delete map_of_update split: if_splits)
next
  case (RoomClip s c ct n)
  then have "on_clip ops inp s c ct a e = Inr (a', e')" using assms by (auto split: sum.splits)
  then have "a' = a \<or> route_clip ops inp s ct (ra_member_fps a) a e = Inr (a', e')"
    by (auto simp: on_clip_def split: option.splits if_splits)
  then have "map_of (ra_online a') q = map_of (ra_online a) q \<or> map_of (ra_online a') q = None" for q
    using route_clip_online [of ops inp s ct "ra_member_fps a" a e a' e' q] by auto
  then show ?thesis by (auto simp: actor_joins_def) (metis option.distinct(1))
next
  case (RoomDisconnect fp c)
  then have "a' = on_disconnect fp c a" using assms by (auto simp: Let_def)
  then show ?thesis by (auto simp: actor_joins_def on_disconnect_def map_of_delete split: option.splits if_splits)
qed

lemma actor_turn_joins:
  assumes "table_ok l s" shows "table_joins (actor_turn ops inp i s) \<subseteq> table_joins s"
proof -
  let ?sl = "rs_slots s i"
  show ?thesis
  proof (cases "sl_inbox ?sl = [] \<or> \<not> sl_open ?sl")
    case True
    then show ?thesis by (auto simp: actor_turn_def Let_def split: list.splits)
  next
    case False
    then obtain ev rest where q: "sl_inbox ?sl = ev # rest" "sl_open ?sl" by (cases "sl_inbox ?sl") auto
    let ?sl1 = "?sl\<lparr>sl_inbox := rest, sl_pending_bytes := sl_pending_bytes ?sl - payload_size ev\<rparr>"
    note run = actor_turn_def [of ops inp i s, unfolded Let_def q(1) list.case]
    have upd: "table_joins (upd_slot i sl (s\<lparr>rs_env := e\<rparr>)) \<subseteq> table_joins s"
      if "ra_room_id (sl_actor sl) = ra_room_id (sl_actor ?sl)" "slot_joins sl \<subseteq> slot_joins ?sl" for sl e
      using table_joins_upd [of sl "s\<lparr>rs_env := e\<rparr>" i "{}"] that by simp
    show ?thesis
    proof (cases "run_event ops inp ev (sl_actor ?sl) (rs_env s)")
      case (Inl e)
      then show ?thesis using run q upd [of "stopped ?sl1"] by (auto simp: stopped_def slot_joins_def)
    next
      case (Inr p)
      obtain ret a e where r: "run_event ops inp ev (sl_actor ?sl) (rs_env s) = Inr ((ret, a), e)"
        using Inr by (metis surj_pair)
      have room: "ra_room_id a = ra_room_id (sl_actor ?sl)"
        using run_event_room_ok [OF _ r] assms by (auto simp: table_ok_def slot_ok_def)
      have sub: "actor_joins a \<subseteq> slot_joins ?sl" using run_event_joins [OF r] q(1) by (auto simp: slot_joins_def)
      have "slot_joins (?sl1\<lparr>sl_actor := a\<rparr>) \<subseteq> slot_joins ?sl" "slot_joins (stopped (?sl1\<lparr>sl_actor := a\<rparr>)) \<subseteq> slot_joins ?sl"
        using sub q(1) by (auto simp: slot_joins_def stopped_def)
      then show ?thesis using run q(2) r upd [of "?sl1\<lparr>sl_actor := a\<rparr>" e] upd [of "stopped (?sl1\<lparr>sl_actor := a\<rparr>)" e] room
        by (cases ret) (simp_all add: stopped_def)
    qed
  qed
qed

lemma rooms_quiet_joins:
  assumes "rooms_quiet l ops r r'" "table_ok l r"
  shows "table_ok l r' \<and> table_joins r' \<subseteq> table_joins r"
  using assms(1)
proof cases
  case (quiet_env e)
  then show ?thesis using assms(2) by simp
next
  case (quiet_full now room members fp device i h r1 e)
  then show ?thesis
    using join_attempts_joins [OF assms(2), of 2 ops now room members "RoomJoin fp device i h" False r1]
      join_attempts_ok [OF assms(2), of 2 ops now room members "RoomJoin fp device i h"] by (auto simp: rooms_join_def)
next
  case (quiet_clip room fp i ct n ok r1 e)
  show ?thesis
  proof (cases "rs_map r room")
    case None
    then show ?thesis using quiet_clip assms(2) by (simp add: rooms_clip_def)
  next
    case (Some k)
    obtain sent sl where t: "inbox_try_send l (RoomClip fp i ct n) (rs_slots r k) = (sent, sl)" by fastforce
    then show ?thesis using quiet_clip Some table_joins_send [OF t] table_ok_send [OF assms(2) t]
      by (auto simp: rooms_clip_def split: if_splits)
  qed
qed

section \<open>All tasks together\<close>

type_synonym 'r join_log = "u64 \<rightharpoonup> bytes \<times> 'r"

text \<open>What the histories record of a turn of connection \<open>c\<close> that leads to \<open>c'\<close>.\<close>

definition log_hello :: "conn_input \<Rightarrow> connection \<Rightarrow> connection \<Rightarrow> (u64 \<rightharpoonup> bytes) \<Rightarrow> (u64 \<rightharpoonup> bytes)" where
  "log_hello inp c c' hellos =
     (if cn_phase c = PreHello \<and> cn_phase c' \<noteq> PreHello then hellos(cn_id c \<mapsto> cp_nonce inp) else hellos)"

definition log_join ::
  "ws_message option \<Rightarrow> ('p, 'r, 'm) server_state \<Rightarrow> connection \<Rightarrow> connection \<Rightarrow> 'r join_log \<Rightarrow> 'r join_log" where
  "log_join msg s c c' joins =
     (case (cn_joined c, cn_joined c', msg) of
        (None, Some _, Some (WsText raw)) \<Rightarrow> joins(cn_id c \<mapsto> (raw, rv_registry (sv_env s)))
      | _ \<Rightarrow> joins)"

inductive relay_reach ::
  "('r, 'm) relay_ops \<Rightarrow> ('p, 'r, 'm) pairing_ops \<Rightarrow> server_config \<Rightarrow> ('p, 'r, 'm) server_state \<Rightarrow> (u64 \<rightharpoonup> connection)
   \<Rightarrow> (u64 \<rightharpoonup> bytes) \<Rightarrow> 'r join_log \<Rightarrow> bool" for ops P config where
  relay_start: "relay_reach ops P config (server_new config p e) Map.empty Map.empty Map.empty"
| relay_accept: "relay_reach ops P config s cs hellos joins \<Longrightarrow> ws_handler peer forwarded s = Some (Inr (ip, i), s1)
    \<Longrightarrow> i \<noteq> 0 \<Longrightarrow> open_connection ip i s1 = (c, s2)
    \<Longrightarrow> relay_reach ops P config s2 (cs(i \<mapsto> c)) hellos joins"
| relay_turn: "relay_reach ops P config s cs hellos joins \<Longrightarrow> cs i = Some c
    \<Longrightarrow> read_turn ops P inp msg c s = Inr ((True, c'), s')
    \<Longrightarrow> relay_reach ops P config s' (cs(i \<mapsto> c')) (log_hello inp c c' hellos) (log_join msg s c c' joins)"
| relay_finish: "relay_reach ops P config s cs hellos joins \<Longrightarrow> cs i = Some c
    \<Longrightarrow> read_turn ops P inp msg c s = Inr ((False, c'), s')
    \<Longrightarrow> relay_reach ops P config (drop_permit (close_connection P c' s')) (cs(i := None)) hellos joins"
| relay_panic: "relay_reach ops P config s cs hellos joins \<Longrightarrow> cs i = Some c
    \<Longrightarrow> read_turn ops P inp msg c s = Inl s'
    \<Longrightarrow> relay_reach ops P config (drop_permit s') (cs(i := None)) hellos joins"
| relay_actor: "relay_reach ops P config s cs hellos joins
    \<Longrightarrow> relay_reach ops P config (s\<lparr>sv_rooms := actor_turn ops inp k (sv_rooms s)\<rparr>) cs hellos joins"
| relay_world: "relay_reach ops P config s cs hellos joins
    \<Longrightarrow> relay_reach ops P config (set_env e s) cs hellos joins"

text \<open>Connection \<open>i\<close> joined \<open>room\<close> as \<open>fp\<close>: its join message proved the membership
  against the challenge that connection was sent.\<close>

definition joined_as ::
  "('r, 'm) relay_ops \<Rightarrow> (u64 \<rightharpoonup> bytes) \<Rightarrow> 'r join_log \<Rightarrow> u64 \<Rightarrow> string \<Rightarrow> string \<Rightarrow> bool" where
  "joined_as ops hellos joins i room fp \<longleftrightarrow>
     (\<exists>raw reg nonce f. joins i = Some (raw, reg) \<and> hellos i = Some nonce
        \<and> decode_frame (ro_crates ops) (ro_frames ops) raw = Inr f \<and> proves_member ops nonce f reg room fp)"

text \<open>One connection joins at most one room as one member.\<close>

lemma joined_as_unique: "joined_as ops hellos joins i room fp \<Longrightarrow> joined_as ops hellos joins i room' fp' \<Longrightarrow> room' = room \<and> fp' = fp"
  by (auto simp: joined_as_def proves_member_def)

definition conn_ok ::
  "('r, 'm) relay_ops \<Rightarrow> (u64 \<rightharpoonup> bytes) \<Rightarrow> 'r join_log \<Rightarrow> connection \<Rightarrow> bool" where
  "conn_ok ops hellos joins c \<longleftrightarrow>
     (case cn_phase c of
        PreHello \<Rightarrow> hellos (cn_id c) = None \<and> joins (cn_id c) = None \<and> cn_joined c = None
      | InReady nonce bundle \<Rightarrow> nonce \<noteq> None \<and> hellos (cn_id c) = nonce \<and> joins (cn_id c) = None \<and> cn_joined c = None
      | InJoined \<Rightarrow> (\<exists>room fp. cn_joined c = Some (room, fp) \<and> joined_as ops hellos joins (cn_id c) room fp))"

text \<open>Ids that were given out.\<close>

definition used_id :: "('p, 'r, 'm) server_state \<Rightarrow> u64 \<Rightarrow> bool" where
  "used_id s i \<longleftrightarrow> i \<noteq> 0 \<and> (sv_next_connection_id s = 0 \<or> i < sv_next_connection_id s)"

definition relay_ok ::
  "('r, 'm) relay_ops \<Rightarrow> server_config \<Rightarrow> ('p, 'r, 'm) server_state \<Rightarrow> (u64 \<rightharpoonup> connection) \<Rightarrow> (u64 \<rightharpoonup> bytes) \<Rightarrow> 'r join_log \<Rightarrow> bool" where
  "relay_ok ops config s cs hellos joins \<longleftrightarrow>
     sv_config s = config \<and> table_ok (sc_limits config) (sv_rooms s)
     \<and> finite (dom cs) \<and> sv_permits s + card (dom cs) = li_max_connections (sc_limits config)
     \<and> (\<forall>i. cs i \<noteq> None \<or> hellos i \<noteq> None \<or> joins i \<noteq> None \<longrightarrow> used_id s i)
     \<and> (\<forall>i h. sv_connections s i = Some h \<longrightarrow> h = i)
     \<and> (\<forall>i c. cs i = Some c \<longrightarrow> cn_id c = i \<and> sv_connections s i = Some i \<and> conn_ok ops hellos joins c)
     \<and> (\<forall>room fp i h. (room, fp, i, h) \<in> table_joins (sv_rooms s) \<longrightarrow> h = i \<and> joined_as ops hellos joins i room fp)"

section \<open>The invariant\<close>

lemma joined_as_mono:
  assumes "joined_as ops hellos joins i room fp" "hellos \<subseteq>\<^sub>m hellos'" "joins \<subseteq>\<^sub>m joins'"
  shows "joined_as ops hellos' joins' i room fp"
proof -
  from assms(1) obtain raw reg nonce f where *: "joins i = Some (raw, reg)" "hellos i = Some nonce"
    "decode_frame (ro_crates ops) (ro_frames ops) raw = Inr f" "proves_member ops nonce f reg room fp" by (auto simp: joined_as_def)
  have "joins' i = Some (raw, reg)" "hellos' i = Some nonce"
    using assms(2,3) *(1,2) by (metis domI map_le_def)+
  then show ?thesis using * by (auto simp: joined_as_def)
qed

lemma conn_ok_cong:
  "hellos' (cn_id c) = hellos (cn_id c) \<Longrightarrow> joins' (cn_id c) = joins (cn_id c) \<Longrightarrow> conn_ok ops hellos' joins' c = conn_ok ops hellos joins c"
  by (simp add: conn_ok_def joined_as_def split: conn_phase.splits)

lemma relay_okI:
  assumes "sv_config s = config" "table_ok (sc_limits config) (sv_rooms s)" "finite (dom cs)"
    "sv_permits s + card (dom cs) = li_max_connections (sc_limits config)"
    "\<And>i. cs i \<noteq> None \<or> hellos i \<noteq> None \<or> joins i \<noteq> None \<Longrightarrow> used_id s i"
    "\<And>i h. sv_connections s i = Some h \<Longrightarrow> h = i"
    "\<And>i c. cs i = Some c \<Longrightarrow> cn_id c = i \<and> sv_connections s i = Some i \<and> conn_ok ops hellos joins c"
    "\<And>room fp i h. (room, fp, i, h) \<in> table_joins (sv_rooms s) \<Longrightarrow> h = i \<and> joined_as ops hellos joins i room fp"
  shows "relay_ok ops config s cs hellos joins"
  unfolding relay_ok_def using assms by blast

text \<open>A step that keeps the live connections, apart from one that goes on as \<open>c'\<close>.\<close>

lemma relay_ok_go_on:
  assumes ok: "relay_ok ops config s cs hellos joins" and c: "cs i = Some c" "cn_id c' = i"
    and same: "same_server s s'" "table_ok (sc_limits config) (sv_rooms s')"
    and logs: "hellos \<subseteq>\<^sub>m hellos'" "joins \<subseteq>\<^sub>m joins'" "\<And>k. k \<noteq> i \<Longrightarrow> hellos' k = hellos k \<and> joins' k = joins k"
    and new: "conn_ok ops hellos' joins' c'"
    and members: "\<And>room fp k h. (room, fp, k, h) \<in> table_joins (sv_rooms s')
        \<Longrightarrow> (room, fp, k, h) \<in> table_joins (sv_rooms s) \<or> h = k \<and> joined_as ops hellos' joins' k room fp"
  shows "relay_ok ops config s' (cs(i \<mapsto> c')) hellos' joins'"
proof -
  have dom: "dom (cs(i \<mapsto> c')) = dom cs" using c(1) by auto
  have used: "used_id s' k = used_id s k" for k using same(1) by (simp add: used_id_def same_server_def)
  have ids: "used_id s' k" if "(cs(i \<mapsto> c')) k \<noteq> None \<or> hellos' k \<noteq> None \<or> joins' k \<noteq> None" for k
    using ok c(1) logs(3) [of k] that unfolding used relay_ok_def by (cases "k = i") auto
  have conns: "cn_id d = k \<and> sv_connections s' k = Some k \<and> conn_ok ops hellos' joins' d" if "(cs(i \<mapsto> c')) k = Some d" for k d
  proof (cases "k = i")
    case True
    then show ?thesis using ok c same(1) new that by (simp add: relay_ok_def same_server_def)
  next
    case False
    then have "cs k = Some d" using that by simp
    then have "cn_id d = k" "sv_connections s k = Some k" "conn_ok ops hellos joins d" using ok by (auto simp: relay_ok_def)
    then show ?thesis using conn_ok_cong [of hellos' d hellos joins' joins ops] logs(3) [OF False] same(1) by (simp add: same_server_def)
  qed
  have rooms: "h = k \<and> joined_as ops hellos' joins' k room fp" if "(room, fp, k, h) \<in> table_joins (sv_rooms s')" for room fp k h
    using members [OF that] ok joined_as_mono [OF _ logs(1,2)] unfolding relay_ok_def by blast
  show ?thesis
    by (rule relay_okI [OF _ same(2) _ _ ids _ conns rooms]) (use ok same(1) dom in \<open>auto simp: relay_ok_def same_server_def\<close>)
qed

text \<open>A step that ends connection \<open>i\<close> and drops its permit.\<close>

lemma relay_ok_end:
  assumes ok: "relay_ok ops config s cs hellos joins" and c: "cs i = Some c"
    and same: "sv_config s' = config" "sv_permits s' = Suc (sv_permits s)"
      "sv_next_connection_id s' = sv_next_connection_id s" "\<And>k. k \<noteq> i \<Longrightarrow> sv_connections s' k = sv_connections s k"
      "sv_connections s' i = None \<or> sv_connections s' i = sv_connections s i"
    and rooms: "table_ok (sc_limits config) (sv_rooms s')" "table_joins (sv_rooms s') \<subseteq> table_joins (sv_rooms s)"
  shows "relay_ok ops config s' (cs(i := None)) hellos joins"
proof -
  have fin: "finite (dom cs)" and total: "sv_permits s + card (dom cs) = li_max_connections (sc_limits config)"
    using ok by (auto simp: relay_ok_def)
  have "card (dom cs) = Suc (card (dom (cs(i := None))))"
    using c fin by (metis card.remove domI dom_fun_upd)
  then have card: "sv_permits s' + card (dom (cs(i := None))) = li_max_connections (sc_limits config)"
    using total same(2) by simp
  have own: "h = k" if "sv_connections s' k = Some h" for k h
    using ok same(4) [of k] same(5) that by (cases "k = i") (auto simp: relay_ok_def)
  have used: "used_id s' k = used_id s k" for k by (simp add: used_id_def same(3))
  have conns: "cn_id d = k \<and> sv_connections s' k = Some k \<and> conn_ok ops hellos joins d" if "(cs(i := None)) k = Some d" for k d
    using ok same(4) [of k] that by (auto simp: relay_ok_def split: if_splits)
  have ids: "used_id s' k" if "(cs(i := None)) k \<noteq> None \<or> hellos k \<noteq> None \<or> joins k \<noteq> None" for k
    using ok that unfolding used relay_ok_def by (auto split: if_splits)
  have members: "h = k \<and> joined_as ops hellos joins k room fp" if "(room, fp, k, h) \<in> table_joins (sv_rooms s')" for room fp k h
    using subsetD [OF rooms(2) that] ok unfolding relay_ok_def by blast
  show ?thesis by (rule relay_okI [OF same(1) rooms(1) _ card ids own conns members]) (use fin in simp)
qed

lemma same_server_rooms:
  assumes "relay_ok ops config s cs hellos joins" "rooms_quiet (sc_limits (sv_config s)) ops (sv_rooms s) (sv_rooms s')"
  shows "table_ok (sc_limits config) (sv_rooms s')" "table_joins (sv_rooms s') \<subseteq> table_joins (sv_rooms s)"
  using rooms_quiet_joins [OF assms(2)] assms(1) by (auto simp: relay_ok_def)

lemma rooms_disconnect_joins:
  assumes "table_ok l r"
  shows "table_ok l (rooms_disconnect l room fp i r) \<and> table_joins (rooms_disconnect l room fp i r) \<subseteq> table_joins r"
proof (cases "rs_map r room")
  case None
  then show ?thesis using assms by (simp add: rooms_disconnect_def)
next
  case (Some k)
  obtain ok sl where t: "inbox_try_send l (RoomDisconnect fp i) (rs_slots r k) = (ok, sl)" by fastforce
  then show ?thesis using Some table_joins_send [OF t] table_ok_send [OF assms t]
    by (auto simp: rooms_disconnect_def split: if_splits)
qed

lemma used_id_next:
  fixes s :: "('p, 'r, 'm) server_state" and s' :: "('p, 'r, 'm) server_state"
  assumes "sv_next_connection_id s' = sv_next_connection_id s + 1" "sv_next_connection_id s \<noteq> 0"
  shows "used_id s' k \<longleftrightarrow> used_id s k \<or> k = sv_next_connection_id s" "\<not> used_id s (sv_next_connection_id s)"
proof -
  let ?n = "sv_next_connection_id s"
  have "?n + 1 = 0 \<Longrightarrow> k \<le> ?n" by (metis add_diff_cancel_right' diff_0 word_n1_ge)
  moreover have "?n + 1 \<noteq> 0 \<Longrightarrow> k < ?n + 1 \<longleftrightarrow> k \<le> ?n"
    using unatSuc [of ?n] by (simp add: add.commute word_less_nat_alt word_le_nat_alt less_Suc_eq_le)
  ultimately show "used_id s' k \<longleftrightarrow> used_id s k \<or> k = ?n"
    using assms unfolding used_id_def by (metis order_le_less)
  show "\<not> used_id s ?n" using assms(2) by (simp add: used_id_def)
qed

lemma relay_ok_accept:
  assumes ok: "relay_ok ops config s cs hellos joins" and ws: "ws_handler peer forwarded s = Some (Inr (ip, i), s1)" "i \<noteq> 0"
    and op: "open_connection ip i s1 = (c, s2)"
  shows "relay_ok ops config s2 (cs(i \<mapsto> c)) hellos joins"
proof -
  have s1: "i = sv_next_connection_id s" "0 < sv_permits s"
      "s1 = s\<lparr>sv_permits := sv_permits s - 1, sv_next_connection_id := sv_next_connection_id s + 1\<rparr>"
    using ws(1) by (auto simp: ws_handler_def split: option.splits if_splits)
  have c: "c = \<lparr>cn_id = i, cn_ip = ip, cn_phase = PreHello, cn_joined = None\<rparr>"
    and s2: "sv_config s2 = sv_config s" "sv_connections s2 = (sv_connections s)(i \<mapsto> i)" "sv_permits s2 = sv_permits s - 1"
      "sv_next_connection_id s2 = sv_next_connection_id s + 1" "\<exists>e. sv_rooms s2 = (sv_rooms s)\<lparr>rs_env := e\<rparr>"
    using op s1 by (auto simp: open_connection_def Let_def)
  note used = used_id_next [OF s2(4)] ws(2) [unfolded s1(1)]
  have fresh: "cs i = None" "hellos i = None" "joins i = None"
    using ok used(2,3) unfolding s1(1) relay_ok_def by blast+
  have rooms: "table_ok (sc_limits config) (sv_rooms s2)" "table_joins (sv_rooms s2) = table_joins (sv_rooms s)"
    using ok s2(5) by (auto simp: relay_ok_def)
  show ?thesis
  proof (rule relay_okI)
    show "finite (dom (cs(i \<mapsto> c)))" "sv_config s2 = config" using ok s2(1) by (auto simp: relay_ok_def)
    show "sv_permits s2 + card (dom (cs(i \<mapsto> c))) = li_max_connections (sc_limits config)"
      using ok s2(3) s1(2) fresh(1) by (auto simp: relay_ok_def card_insert_if domIff)
    show "used_id s2 k" if "(cs(i \<mapsto> c)) k \<noteq> None \<or> hellos k \<noteq> None \<or> joins k \<noteq> None" for k
      using that ok used(1,3) s1(1) unfolding relay_ok_def by (cases "k = i") auto
    show "h = k" if "sv_connections s2 k = Some h" for k h using that ok by (auto simp: s2(2) relay_ok_def split: if_splits)
    show "cn_id d = k \<and> sv_connections s2 k = Some k \<and> conn_ok ops hellos joins d" if "(cs(i \<mapsto> c)) k = Some d" for k d
      using that ok fresh c by (cases "k = i") (auto simp: s2(2) relay_ok_def conn_ok_def)
    show "h = k \<and> joined_as ops hellos joins k room fp" if "(room, fp, k, h) \<in> table_joins (sv_rooms s2)" for room fp k h
      using that ok unfolding rooms(2) relay_ok_def by blast
  qed (rule rooms(1))
qed

lemma relay_ok_turn:
  assumes ok: "relay_ok ops config s cs hellos joins" and c: "cs i = Some c"
    and run: "read_turn ops P inp msg c s = Inr ((True, c'), s')"
  shows "relay_ok ops config s' (cs(i \<mapsto> c')) (log_hello inp c c' hellos) (log_join msg s c c' joins)"
proof -
  have id: "cn_id c = i" and cok: "conn_ok ops hellos joins c" using ok c by (auto simp: relay_ok_def)
  have cfg: "sv_config s = config" and tab: "table_ok (sc_limits config) (sv_rooms s)" using ok by (auto simp: relay_ok_def)
  from run show ?thesis
  proof (cases rule: read_turn_cases)
    case (hello bnd)
    have logs: "log_hello inp c c' hellos = hellos(i \<mapsto> cp_nonce inp)" "log_join msg s c c' joins = joins"
      using hello cok id by (simp_all add: log_hello_def log_join_def conn_ok_def)
    have none: "hellos i = None" "joins i = None" "cn_joined c = None" using hello(1) cok id by (simp_all add: conn_ok_def)
    note rooms = same_server_rooms [OF ok hello(5)]
    show ?thesis unfolding logs
      by (rule relay_ok_go_on [OF ok c _ hello(4) rooms(1)])
        (use rooms(2) none id hello(3) in \<open>auto simp: map_le_def conn_ok_def\<close>)
  next
    case (join nonce bnd room fp device members raw f)
    have none: "hellos i = Some nonce" "joins i = None" "cn_joined c = None" using join(1) cok id by (simp_all add: conn_ok_def)
    have logs: "log_hello inp c c' hellos = hellos" "log_join msg s c c' joins = joins(i \<mapsto> (raw, rv_registry (sv_env s)))"
      using join none id by (simp_all add: log_hello_def log_join_def)
    have joined: "joined_as ops hellos (joins(i \<mapsto> (raw, rv_registry (sv_env s)))) i room fp"
      using none join(6,7) by (auto simp: joined_as_def)
    have rooms: "table_ok (sc_limits config) (sv_rooms s')"
      "table_joins (sv_rooms s') \<subseteq> table_joins (sv_rooms s) \<union> {(room, fp, i, i)}"
      using join(8) join_attempts_ok [OF tab, of 2 ops "cp_unix_ms inp" room members "RoomJoin fp device i i"]
        join_attempts_joins [OF tab, of 2 ops "cp_unix_ms inp" room members "RoomJoin fp device i i"] cfg id
      by (auto simp: rooms_join_def)
    show ?thesis unfolding logs
      by (rule relay_ok_go_on [OF ok c _ join(4) rooms(1)])
        (use rooms(2) none id join(3) joined in \<open>auto simp: map_le_def conn_ok_def\<close>)
  next
    case stay
    have logs: "log_hello inp c c' hellos = hellos" "log_join msg s c c' joins = joins"
      using stay(2) by (simp_all add: log_hello_def log_join_def split: option.splits)
    note rooms = same_server_rooms [OF ok stay(4)]
    show ?thesis unfolding logs
      by (rule relay_ok_go_on [OF ok c _ stay(3) rooms(1)]) (use rooms(2) id cok stay(2) in auto)
  qed simp
qed

lemma relay_reach_ok: "relay_reach ops P config s cs hellos joins \<Longrightarrow> relay_ok ops config s cs hellos joins"
proof (induction rule: relay_reach.induct)
  case (relay_start p e)
  have "table_ok l (rooms_new e)" "table_joins (rooms_new e) = {}" for l
    by (simp_all add: table_ok_def rooms_new_def slot_ok_def no_slot_def room_ok_def table_joins_def slot_joins_def actor_joins_def)
  then show ?case by (simp add: relay_ok_def server_new_def)
next
  case (relay_accept s cs hellos joins peer forwarded ip i s1 c s2)
  then show ?case by (intro relay_ok_accept)
next
  case (relay_turn s cs hellos joins i c inp msg c' s')
  then show ?case by (intro relay_ok_turn)
next
  case (relay_finish s cs hellos joins i c inp msg c' s')
  have cfg: "sv_config s = config" using relay_finish.IH by (simp add: relay_ok_def)
  from relay_finish.hyps(3) have f: "cn_id c' = cn_id c" "same_server s s'"
      "rooms_quiet (sc_limits (sv_config s)) ops (sv_rooms s) (sv_rooms s')"
    by (cases rule: read_turn_cases; simp)+
  have id: "cn_id c = i" using relay_finish.IH relay_finish.hyps(2) by (simp add: relay_ok_def)
  note rooms = same_server_rooms [OF relay_finish.IH f(3)]
  have left: "table_ok (sc_limits config) (sv_rooms (close_connection P c' s'))
      \<and> table_joins (sv_rooms (close_connection P c' s')) \<subseteq> table_joins (sv_rooms s')"
    using rooms(1) f(2) cfg rooms_disconnect_joins [OF rooms(1)]
    by (auto simp: close_connection_def same_server_def Let_def split: option.splits)
  show ?case
    by (rule relay_ok_end [OF relay_finish.IH relay_finish.hyps(2)])
      (use f id cfg left rooms(2) in \<open>auto simp: drop_permit_def close_connection_def same_server_def Let_def split: option.splits\<close>)
next
  case (relay_panic s cs hellos joins i c inp msg s')
  note f = read_turn_panic [OF relay_panic.hyps(3)]
  note rooms = same_server_rooms [OF relay_panic.IH conjunct2 [OF f]]
  show ?case
    by (rule relay_ok_end [OF relay_panic.IH relay_panic.hyps(2)])
      (use f relay_panic.IH rooms in \<open>auto simp: drop_permit_def same_server_def relay_ok_def\<close>)
next
  case (relay_actor s cs hellos joins inp k)
  have "table_ok (sc_limits config) (sv_rooms s)" using relay_actor.IH by (simp add: relay_ok_def)
  note turn = actor_turn_ok [OF this, of ops inp k] actor_turn_joins [OF this, of ops inp k]
  have "h = i \<and> joined_as ops hellos joins i room fp"
    if "(room, fp, i, h) \<in> table_joins (actor_turn ops inp k (sv_rooms s))" for room fp i h
    using subsetD [OF turn(2) that] relay_actor.IH unfolding relay_ok_def by blast
  with turn(1) relay_actor.IH show ?case by (simp add: relay_ok_def used_id_def)
next
  case (relay_world s cs hellos joins e)
  then show ?case by (simp add: relay_ok_def used_id_def)
qed

lemma online_joined:
  assumes "relay_ok ops config s cs hellos joins" "map_of (ra_online (sl_actor (rs_slots (sv_rooms s) k))) fp = Some m"
  shows "om_outbox m = om_connection_id m"
    "joined_as ops hellos joins (om_connection_id m) (ra_room_id (sl_actor (rs_slots (sv_rooms s) k))) fp"
proof -
  have "(ra_room_id (sl_actor (rs_slots (sv_rooms s) k)), fp, om_connection_id m, om_outbox m) \<in> table_joins (sv_rooms s)"
    using assms(2) by (auto simp: table_joins_def slot_joins_def actor_joins_def)
  then show "om_outbox m = om_connection_id m"
    "joined_as ops hellos joins (om_connection_id m) (ra_room_id (sl_actor (rs_slots (sv_rooms s) k))) fp"
    using assms(1) unfolding relay_ok_def by blast+
qed

section \<open>A concrete relay\<close>

text \<open>One device of a registered room connects, says hello, joins, and is admitted by the actor.\<close>

definition demo_bundle_of :: "byte \<Rightarrow> pub_bundle" where "demo_bundle_of b = public_bundle demo_crates (demo_identity b)"

definition demo_home :: string where "demo_home = room_id demo_crates (demo_bundle_of 1) (demo_bundle_of 2)"

definition demo_nonce :: bytes where "demo_nonce = replicate 32 7"

definition demo_join_frame :: frame where
  "demo_join_frame = Join demo_home (id_device_id demo_crates (demo_identity 1)) (demo_bundle_of 1)
     (b64_encode demo_crates (id_sign_message demo_crates (demo_identity 1)
       (projr (join_sig_msg demo_nonce demo_home (id_device_id demo_crates (demo_identity 1)) (bundle_bytes (demo_bundle_of 1))))))"

definition demo_relay_ops :: "(rooms, unit) relay_ops" where
  "demo_relay_ops = \<lparr>ro_crates = demo_crates,
     ro_frames = table_json [Hello (id_device_id demo_crates (demo_identity 1)) (demo_bundle_of 1) PROTOCOL_VERSION,
       HelloOk PROTOCOL_VERSION (b64_encode demo_crates demo_nonce), demo_join_frame, JoinOk, MailboxEmpty],
     ro_registry = in_memory_ops, ro_sink = noop_sink\<rparr>"

definition demo_relay_env :: "(rooms, unit) room_env" where
  "demo_relay_env = \<lparr>rv_outboxes = (\<lambda>_. outbox_new 8 100), rv_registry = snd (mem_commit_room demo_home
     (bundle_fp demo_crates (demo_bundle_of 1), bundle_fp demo_crates (demo_bundle_of 2)) 5 []), rv_mailbox = ()\<rparr>"

definition demo_relay_config :: server_config where
  "demo_relay_config = \<lparr>sc_trusted_proxy = None, sc_limits = limits_default\<rparr>"

definition demo_conn_input :: conn_input where
  "demo_conn_input = \<lparr>cp_nonce = demo_nonce, cp_now = 0, cp_unix_ms = 9, cp_fault = None, cp_waited = 0\<rparr>"

definition demo_relay_state :: "rate_limiter \<Rightarrow> (rooms, unit) rooms_state \<Rightarrow> (unit, rooms, unit) server_state" where
  "demo_relay_state rates rms = \<lparr>sv_config = demo_relay_config, sv_rooms = rms\<lparr>rs_env := demo_relay_env\<rparr>, sv_pairing = (),
     sv_connections = [1 \<mapsto> 1], sv_permits = 255, sv_rates = rates, sv_next_connection_id = 2\<rparr>"

definition demo_conn :: "conn_phase \<Rightarrow> connection" where
  "demo_conn ph = \<lparr>cn_id = 1, cn_ip = IpV4 1, cn_phase = ph, cn_joined = None\<rparr>"

abbreviation demo_fp :: string where "demo_fp \<equiv> id_bundle_fp demo_crates (demo_identity 1)"

abbreviation demo_device :: string where "demo_device \<equiv> id_device_id demo_crates (demo_identity 1)"

definition demo_rooms :: "(rooms, unit) rooms_state" where
  "demo_rooms = snd (rooms_join limits_default demo_relay_ops 9 demo_home (lookup_rooms demo_home (rv_registry demo_relay_env))
     demo_fp demo_device 1 1 (rooms_new demo_relay_env))"

lemma demo_relay_facts:
  "decode_frame demo_crates (ro_frames demo_relay_ops) [2] = Inr (Hello demo_device (demo_bundle_of 1) PROTOCOL_VERSION)"
  "decode_frame demo_crates (ro_frames demo_relay_ops) [1, 1, 2] = Inr demo_join_frame"
  "\<exists>x. encode_frame demo_crates (ro_frames demo_relay_ops) (HelloOk PROTOCOL_VERSION (b64_encode demo_crates demo_nonce)) = Inr x
    \<and> length x < 9"
  "\<exists>x. encode_frame demo_crates (ro_frames demo_relay_ops) JoinOk = Inr x \<and> length x < 9"
  "\<exists>x. encode_frame demo_crates (ro_frames demo_relay_ops) MailboxEmpty = Inr x \<and> length x < 9"
  using demo_laws
  by (simp_all add: decode_frame_def encode_frame_def encode_json_def ensure_size_def MAX_FRAME_BYTES_def demo_relay_ops_def table_json_def
      valid_hello valid_hello_ok valid_join demo_join_frame_def demo_home_def Let_def del: validate_frame.simps(1-4))

lemma demo_home_members: "set (lookup_rooms demo_home (rv_registry demo_relay_env)) = {demo_fp, id_bundle_fp demo_crates (demo_identity 2)}"
  by code_simp

abbreviation demo_reach where "demo_reach \<equiv> relay_reach demo_relay_ops pairing_unavailable demo_relay_config"

lemma demo_relay_ops_simps [simp]: "ro_crates demo_relay_ops = demo_crates" "ro_registry demo_relay_ops = in_memory_ops" "ro_sink demo_relay_ops = noop_sink"
  by (simp_all add: demo_relay_ops_def)

lemma demo_relay_state_simps [simp]:
  "sv_config (demo_relay_state r m) = demo_relay_config" "sv_rates (demo_relay_state r m) = r"
  "sv_rooms (demo_relay_state r m) = m\<lparr>rs_env := demo_relay_env\<rparr>" "sc_limits demo_relay_config = limits_default"
  by (simp_all add: demo_relay_state_def demo_relay_config_def)

lemma demo_conn_simps [simp]: "cn_id (demo_conn ph) = 1" "cn_ip (demo_conn ph) = IpV4 1" "cn_phase (demo_conn ph) = ph"
  "cn_joined (demo_conn ph) = None" "(demo_conn ph)\<lparr>cn_phase := q\<rparr> = demo_conn q"
  by (simp_all add: demo_conn_def)

lemma demo_conn_input_simps [simp]: "cp_nonce demo_conn_input = demo_nonce" "cp_now demo_conn_input = 0"
  "cp_unix_ms demo_conn_input = 9" "cp_waited demo_conn_input = 0"
  by (simp_all add: demo_conn_input_def)

lemma demo_state_env [simp]: "set_env demo_relay_env (set_env e (demo_relay_state r m)) = demo_relay_state r m"
  "(demo_relay_state r m)\<lparr>sv_rates := r'\<rparr> = demo_relay_state r' m" "set_env demo_relay_env (demo_relay_state r m) = demo_relay_state r m"
  by (simp_all add: demo_relay_state_def set_env_def)

lemma demo_accepted: "demo_reach (demo_relay_state (rate_limiter_new limits_default) (rooms_new demo_relay_env)) [1 \<mapsto> demo_conn PreHello] Map.empty Map.empty"
proof -
  let ?s0 = "server_new demo_relay_config () demo_relay_env"
  let ?s1 = "?s0\<lparr>sv_permits := 255, sv_next_connection_id := 2\<rparr>"
  have ws: "ws_handler (IpV4 1) None ?s0 = Some (Inr (IpV4 1, 1), ?s1)"
    by (simp add: ws_handler_def client_ip_def server_new_def demo_relay_config_def limits_default_def)
  obtain c s2 where op: "open_connection (IpV4 1) 1 ?s1 = (c, s2)" by fastforce
  have "c = demo_conn PreHello" "set_env demo_relay_env s2 = demo_relay_state (rate_limiter_new limits_default) (rooms_new demo_relay_env)"
    using op by (auto simp: open_connection_def demo_conn_def demo_relay_state_def server_new_def set_env_def rooms_new_def Let_def demo_relay_config_def)
  then show ?thesis using relay_world [where e = demo_relay_env, OF relay_accept [OF relay_start ws _ op]] by simp
qed

definition demo_rates :: "nat \<Rightarrow> rate_limiter \<Rightarrow> rate_limiter" where
  "demo_rates n r = snd (add_bytes 0 (IpV4 1) (word_of_nat n) r)"

lemma demo_deadlines [simp]: "0 < li_handshake_deadline limits_default" "0 < li_join_idle_deadline limits_default"
  by (simp_all add: limits_default_def)

lemma demo_limits:
  "add_bytes 0 (IpV4 1) 1 (rate_limiter_new limits_default) = (True, demo_rates 1 (rate_limiter_new limits_default))"
  "add_bytes 0 (IpV4 1) 3 (demo_rates 1 (rate_limiter_new limits_default)) = (True, demo_rates 3 (demo_rates 1 (rate_limiter_new limits_default)))"
  "fst (check_join 0 (IpV4 1) (demo_rates 3 (demo_rates 1 (rate_limiter_new limits_default))))"
  by (simp_all add: demo_rates_def limiter_unfold rate_limiter_new_def limits_default_def saturating_add_u64_def)

lemma demo_greeted:
  "demo_reach (demo_relay_state (demo_rates 1 (rate_limiter_new limits_default)) (rooms_new demo_relay_env))
     [1 \<mapsto> demo_conn (InReady (Some demo_nonce) (demo_bundle_of 1))] [1 \<mapsto> demo_nonce] Map.empty"
proof -
  let ?s = "demo_relay_state (demo_rates 1 (rate_limiter_new limits_default)) (rooms_new demo_relay_env)"
  obtain e where send: "room_send demo_relay_ops 1 (HelloOk PROTOCOL_VERSION (b64_encode demo_crates demo_nonce)) demo_relay_env = Inr (True, e)"
    using demo_relay_facts(3) by (auto simp: room_send_def send_frame_def try_frame_def has_slot_def demo_relay_env_def outbox_new_def Let_def)
  have "step demo_relay_ops pairing_unavailable demo_conn_input (Hello demo_device (demo_bundle_of 1) PROTOCOL_VERSION) 1 (demo_conn PreHello) ?s
      = Inr ((Continue, demo_conn (InReady (Some demo_nonce) (demo_bundle_of 1))), set_env e ?s)"
    using step_honest_hello [of "demo_conn PreHello" demo_relay_ops demo_conn_input ?s e _ "demo_identity 1"] send by (simp add: demo_bundle_of_def)
  moreover have "read_turn demo_relay_ops pairing_unavailable demo_conn_input (Some (WsText [2])) (demo_conn PreHello)
      (demo_relay_state (rate_limiter_new limits_default) (rooms_new demo_relay_env))
      = frame_turn demo_relay_ops pairing_unavailable demo_conn_input (Hello demo_device (demo_bundle_of 1) PROTOCOL_VERSION) (length [2 :: byte]) (demo_conn PreHello)
        ((demo_relay_state (rate_limiter_new limits_default) (rooms_new demo_relay_env))\<lparr>sv_rates := demo_rates 1 (rate_limiter_new limits_default)\<rparr>)"
    by (rule read_turn_frame) (use demo_limits(1) demo_relay_facts(1) in simp_all)
  ultimately have "read_turn demo_relay_ops pairing_unavailable demo_conn_input (Some (WsText [2])) (demo_conn PreHello)
      (demo_relay_state (rate_limiter_new limits_default) (rooms_new demo_relay_env))
      = Inr ((True, demo_conn (InReady (Some demo_nonce) (demo_bundle_of 1))), set_env e ?s)"
    by (simp add: frame_turn_def)
  from relay_world [where e = demo_relay_env, OF relay_turn [where i = 1, OF demo_accepted _ this]] show ?thesis
    by (simp add: log_hello_def log_join_def)
qed

lemma demo_joined:
  "\<exists>rates joins. demo_reach (demo_relay_state rates demo_rooms)
     [1 \<mapsto> (demo_conn InJoined)\<lparr>cn_joined := Some (demo_home, demo_fp)\<rparr>] [1 \<mapsto> demo_nonce] joins"
proof -
  let ?r = "demo_rates 1 (rate_limiter_new limits_default)"
  let ?s = "demo_relay_state (demo_rates 3 ?r) (rooms_new demo_relay_env)"
  let ?c = "demo_conn (InReady (Some demo_nonce) (demo_bundle_of 1))"
  let ?X = demo_crates
  obtain rates where cj: "check_join 0 (IpV4 1) (demo_rates 3 ?r) = (True, rates)"
    using demo_limits(3) by (cases "check_join 0 (IpV4 1) (demo_rates 3 ?r)") auto
  have "is_ok (join_sig_msg demo_nonce demo_home demo_device (bundle_bytes (demo_bundle_of 1)))"
    using room_id_hex [OF demo_laws(2)] device_id_hex [OF demo_laws(2)]
    by (intro join_sig_msg_ok) (simp_all add: demo_nonce_def demo_home_def id_device_id_def is_lower_hex_def bundle_bytes_def demo_bundle_of_def public_bundle_def demo_crates_def demo_identity_def)
  then obtain message where m: "join_sig_msg demo_nonce demo_home demo_device (bundle_bytes (demo_bundle_of 1)) = Inr message"
    by (auto simp: is_ok_iff)
  have f: "demo_join_frame = Join demo_home demo_device (public_bundle ?X (demo_identity 1)) (b64_encode ?X (id_sign_message ?X (demo_identity 1) message))"
    using m by (simp add: demo_join_frame_def demo_bundle_of_def)
  have rj: "rooms_join limits_default demo_relay_ops 9 demo_home (lookup_rooms demo_home (rv_registry demo_relay_env))
      demo_fp demo_device 1 1 (rooms_new demo_relay_env) = (True, demo_rooms)"
    by (simp add: demo_rooms_def rooms_join_def room_entry_def rooms_spawn_def rooms_new_def upd_slot_def inbox_try_send_def
        limits_default_def Let_def numeral_2_eq_2)
  have "step demo_relay_ops pairing_unavailable demo_conn_input demo_join_frame 3 ?c ?s
      = Inr ((StepJoined demo_home demo_fp, demo_conn (InReady None (demo_bundle_of 1))), ?s\<lparr>sv_rates := rates, sv_rooms := demo_rooms\<rparr>)"
    unfolding f using step_honest_join [where ops = demo_relay_ops and c = ?c and s = ?s and i = "demo_identity 1" and room = demo_home
        and message = message and inp = demo_conn_input and P = pairing_unavailable and rates = rates and rooms = demo_rooms]
      demo_laws m cj rj demo_home_members by (simp add: demo_bundle_of_def in_memory_ops_def rooms_new_def)
  moreover have "read_turn demo_relay_ops pairing_unavailable demo_conn_input (Some (WsText [1, 1, 2])) ?c (demo_relay_state ?r (rooms_new demo_relay_env))
      = frame_turn demo_relay_ops pairing_unavailable demo_conn_input demo_join_frame (length [1, 1, 2 :: byte]) ?c
          ((demo_relay_state ?r (rooms_new demo_relay_env))\<lparr>sv_rates := demo_rates 3 ?r\<rparr>)"
    by (rule read_turn_frame) (use demo_limits(2) demo_relay_facts(2) in simp_all)
  ultimately have "read_turn demo_relay_ops pairing_unavailable demo_conn_input (Some (WsText [1, 1, 2])) ?c (demo_relay_state ?r (rooms_new demo_relay_env))
      = Inr ((True, (demo_conn InJoined)\<lparr>cn_joined := Some (demo_home, demo_fp)\<rparr>), ?s\<lparr>sv_rates := rates, sv_rooms := demo_rooms\<rparr>)"
    by (simp add: frame_turn_def demo_conn_def numeral_3_eq_3)
  from relay_world [where e = demo_relay_env, OF relay_turn [where i = 1, OF demo_greeted _ this]] show ?thesis
    by (auto simp: log_hello_def log_join_def set_env_def demo_relay_state_def)
qed

definition demo_entered :: "(rooms, unit) rooms_state" where
  "demo_entered = actor_turn demo_relay_ops demo_input 0 (demo_rooms\<lparr>rs_env := demo_relay_env\<lparr>rv_registry := []\<rparr>\<rparr>)"

lemma demo_entered_online:
  "map_of (ra_online (sl_actor (rs_slots demo_entered 0))) demo_fp = Some \<lparr>om_connection_id = 1, om_outbox = 1\<rparr>"
  "ra_room_id (sl_actor (rs_slots demo_entered 0)) = demo_home"
proof -
  obtain x y where xy: "encode_frame demo_crates (ro_frames demo_relay_ops) JoinOk = Inr x" "length x < 9"
    "encode_frame demo_crates (ro_frames demo_relay_ops) MailboxEmpty = Inr y" "length y < 9"
    using demo_relay_facts(4,5) by blast
  let ?sl = "\<lparr>sl_inbox = [RoomJoin demo_fp demo_device 1 1], sl_pending_bytes = 0, sl_open = True,
     sl_actor = \<lparr>ra_room_id = demo_home, ra_member_fps = lookup_rooms demo_home (rv_registry demo_relay_env), ra_online = [], ra_pending = Map.empty\<rparr>\<rparr>"
  have sl: "rs_slots demo_rooms 0 = ?sl"
    by (simp add: demo_rooms_def rooms_join_def room_entry_def rooms_spawn_def rooms_new_def upd_slot_def inbox_try_send_def
        limits_default_def Let_def numeral_2_eq_2 noop_sink_def)
  have "\<exists>e. run_event demo_relay_ops demo_input (RoomJoin demo_fp demo_device 1 1) (sl_actor ?sl) (demo_relay_env\<lparr>rv_registry := []\<rparr>)
     = Inr ((False, (sl_actor ?sl)\<lparr>ra_online := [(demo_fp, \<lparr>om_connection_id = 1, om_outbox = 1\<rparr>)]\<rparr>), e)"
    using xy by (simp add: on_join_def replace_old_def take_bootstrap_def room_reserve_def try_reserve_frame_def
        has_slot_def outbox_new_def Let_def in_memory_ops_def mem_activate_on_first_join_def upd_outbox_def demo_relay_env_def)
  then show "map_of (ra_online (sl_actor (rs_slots demo_entered 0))) demo_fp = Some \<lparr>om_connection_id = 1, om_outbox = 1\<rparr>"
    "ra_room_id (sl_actor (rs_slots demo_entered 0)) = demo_home"
    by (auto simp: demo_entered_def actor_turn_def sl upd_slot_def Let_def)
qed

lemma demo_live:
  "\<exists>s joins. demo_reach s [1 \<mapsto> (demo_conn InJoined)\<lparr>cn_joined := Some (demo_home, demo_fp)\<rparr>] [1 \<mapsto> demo_nonce] joins
     \<and> sv_rooms s = demo_entered"
proof -
  obtain rates joins where "demo_reach (demo_relay_state rates demo_rooms)
      [1 \<mapsto> (demo_conn InJoined)\<lparr>cn_joined := Some (demo_home, demo_fp)\<rparr>] [1 \<mapsto> demo_nonce] joins" using demo_joined by blast
  from relay_actor [where inp = demo_input and k = 0, OF relay_world [where e = "demo_relay_env\<lparr>rv_registry := []\<rparr>", OF this]]
  show ?thesis by (intro exI conjI) (auto simp: demo_entered_def)
qed

section \<open>Properties\<close>

text \<open>C21: whoever is online in a room has proved to be one of its members. In every reachable state
  of the relay, whatever the clients send and however the tasks interleave, each member of each
  room's actor is a connection that received a challenge of its own and answered it with a join
  message whose signature verifies, under the signing key of the announced bundle, over exactly
  this challenge, this room, the device id of that key and the bundle, and whose fingerprint was in
  the room's registered member list when it was checked. No connection is in two rooms or in one
  room under two fingerprints.\<close>

theorem members_are_authenticated:
  assumes "relay_reach ops P config s cs hellos joins"
    and "map_of (ra_online (sl_actor (rs_slots (sv_rooms s) k))) fp = Some m"
  shows "om_outbox m = om_connection_id m
    \<and> (\<exists>raw reg nonce f. joins (om_connection_id m) = Some (raw, reg) \<and> hellos (om_connection_id m) = Some nonce
        \<and> decode_frame (ro_crates ops) (ro_frames ops) raw = Inr f
        \<and> proves_member ops nonce f reg (ra_room_id (sl_actor (rs_slots (sv_rooms s) k))) fp)
    \<and> (\<forall>k' fp' m'. map_of (ra_online (sl_actor (rs_slots (sv_rooms s) k'))) fp' = Some m' \<and> om_connection_id m' = om_connection_id m
        \<longrightarrow> fp' = fp \<and> ra_room_id (sl_actor (rs_slots (sv_rooms s) k')) = ra_room_id (sl_actor (rs_slots (sv_rooms s) k)))"
proof -
  note online = online_joined [OF relay_reach_ok [OF assms(1)]]
  note own = online [OF assms(2)]
  have "fp' = fp \<and> ra_room_id (sl_actor (rs_slots (sv_rooms s) k')) = ra_room_id (sl_actor (rs_slots (sv_rooms s) k))"
    if "map_of (ra_online (sl_actor (rs_slots (sv_rooms s) k'))) fp' = Some m'" "om_connection_id m' = om_connection_id m" for k' fp' m'
    using joined_as_unique [OF own(2), of _ fp'] online [OF that(1)] that(2) by auto
  with own show ?thesis unfolding joined_as_def by blast
qed

theorem members_are_authenticated_witness:
  "\<exists>s cs joins raw reg f. demo_reach s cs [1 \<mapsto> demo_nonce] joins
     \<and> map_of (ra_online (sl_actor (rs_slots (sv_rooms s) 0))) demo_fp = Some \<lparr>om_connection_id = 1, om_outbox = 1\<rparr>
     \<and> joins 1 = Some (raw, reg) \<and> decode_frame demo_crates (ro_frames demo_relay_ops) raw = Inr f
     \<and> proves_member demo_relay_ops demo_nonce f reg demo_home demo_fp"
proof -
  obtain s cs joins where r: "demo_reach s cs [1 \<mapsto> demo_nonce] joins" "sv_rooms s = demo_entered" using demo_live by blast
  have on: "map_of (ra_online (sl_actor (rs_slots (sv_rooms s) 0))) demo_fp = Some \<lparr>om_connection_id = 1, om_outbox = 1\<rparr>"
    using r(2) demo_entered_online by simp
  from members_are_authenticated [OF r(1) on] r(2) demo_entered_online(2) obtain raw reg f where "joins 1 = Some (raw, reg)"
    "decode_frame demo_crates (ro_frames demo_relay_ops) raw = Inr f" "proves_member demo_relay_ops demo_nonce f reg demo_home demo_fp" by auto
  with r(1) on show ?thesis by blast
qed



end
