(* ===== verification/Pairing_Client.thy ===== *)
theory Pairing_Client
  imports Pairing Complex_Main
begin

text \<open>
  The relay client of crates/core/src/pairing\_client.rs: handshake, pairing as offerer and as
  claimer, the join with its bootstrap frame, the live link and its reconnect loop.

  A websocket is what it will deliver (\<open>sk_in\<close>), what was written to it (\<open>sk_out\<close>) and which
  writes will fail (\<open>sk_sends\<close>); the library behind it and the TLS set-up are not modelled: a dial
  has an outcome, a socket or an error text, given with the call. The structs of the source own
  their socket; here it travels beside them. Random codes and nonces, the faults of the identity
  and record files, and the jitter of the backoff come with the call as well. The delay is computed
  over the reals where the source uses 64-bit floats.

  The lemmas show that a successful client has exchanged exactly the frames of the documented
  protocol order, that it signs the challenge of this connection, that reconnecting retries only
  transport failures, and that the backoff stays between 0.8 and 36 seconds.
\<close>

section \<open>Sockets\<close>

datatype ws_in = InText bytes | InClose | InOther | InError string

record socket =
  sk_in :: "ws_in list"
  sk_out :: "bytes list"
  sk_sends :: "string option list"

datatype transport_error = TPairing pairing_error | TProtocol protocol_error | TWebSocket string
  | TServer string string | TNotPaired | TClosed

record core_ops =
  co_debug :: bool
  co_crates :: crates
  co_frames :: "frame json"
  co_identity :: "identity_document json"
  co_record :: "pairing_record_json json"
  co_show_frame :: "frame \<Rightarrow> string"

definition socket_send :: "bytes \<Rightarrow> socket \<Rightarrow> (transport_error + unit) \<times> socket" where
  "socket_send text sk =
     (case sk_sends sk of
        Some e # rest \<Rightarrow> (Inl (TWebSocket e), sk\<lparr>sk_sends := rest\<rparr>)
      | None # rest \<Rightarrow> (Inr (), sk\<lparr>sk_out := sk_out sk @ [text], sk_sends := rest\<rparr>)
      | [] \<Rightarrow> (Inr (), sk\<lparr>sk_out := sk_out sk @ [text]\<rparr>))"

definition client_send_frame :: "core_ops \<Rightarrow> frame \<Rightarrow> socket \<Rightarrow> (transport_error + unit) \<times> socket" where
  "client_send_frame ops f sk =
     (case encode_frame (co_crates ops) (co_frames ops) f of
        Inl e \<Rightarrow> (Inl (TProtocol e), sk)
      | Inr encoded \<Rightarrow>
          (if \<not> utf8_valid encoded then (Inl (TProtocol (BadFrame ''encoded frame was not UTF-8'')), sk)
           else socket_send encoded sk))"

definition receive_frame :: "core_ops \<Rightarrow> socket \<Rightarrow> (transport_error + frame) \<times> socket" where
  "receive_frame ops sk =
     (case sk_in sk of
        [] \<Rightarrow> (Inl TClosed, sk)
      | m # rest \<Rightarrow>
          ((case m of
              InText text \<Rightarrow> map_err TProtocol (decode_frame (co_crates ops) (co_frames ops) text)
            | InClose \<Rightarrow> Inl TClosed
            | InOther \<Rightarrow> Inl (TProtocol (BadFrame ''relay sent a non-text websocket frame''))
            | InError e \<Rightarrow> Inl (TWebSocket e)), sk\<lparr>sk_in := rest\<rparr>))"

text \<open>The \<open>?\<close> operator on a call that also advances the socket.\<close>

definition then_do :: "('e + 'a) \<times> 's \<Rightarrow> ('a \<Rightarrow> 's \<Rightarrow> ('e + 'b) \<times> 's) \<Rightarrow> ('e + 'b) \<times> 's" where
  "then_do r f = (case r of (Inl e, s) \<Rightarrow> (Inl e, s) | (Inr a, s) \<Rightarrow> f a s)"

definition unexpected :: "core_ops \<Rightarrow> string \<Rightarrow> frame \<Rightarrow> transport_error" where
  "unexpected ops expected actual = TProtocol (BadFrame (''expected '' @ expected @ '', received '' @ co_show_frame ops actual))"

definition decode_challenge :: "core_ops \<Rightarrow> string \<Rightarrow> transport_error + bytes" where
  "decode_challenge ops encoded =
     (case b64_decode (co_crates ops) encoded of
        Inl _ \<Rightarrow> Inl (TProtocol (BadFrame ''hello_ok nonce is not base64''))
      | Inr bs \<Rightarrow> if length bs = 32 then Inr bs else Inl (TProtocol (BadFrame ''hello_ok nonce must be 32 bytes'')))"

section \<open>Handshake\<close>

record pairing_client =
  pk_server :: string
  pk_identity :: identity
  pk_challenge :: bytes

definition handshake :: "core_ops \<Rightarrow> string \<Rightarrow> identity \<Rightarrow> socket \<Rightarrow> (transport_error + pairing_client) \<times> socket" where
  "handshake ops server i sk =
     then_do (client_send_frame ops (Hello (id_device_id (co_crates ops) i) (public_bundle (co_crates ops) i) PROTOCOL_VERSION) sk) (\<lambda>_ sk.
     then_do (receive_frame ops sk) (\<lambda>f sk.
       (and_then (case f of
           HelloOk server_version nonce_b64 \<Rightarrow>
             if server_version = PROTOCOL_VERSION then decode_challenge ops nonce_b64 else Inl (unexpected ops ''hello_ok'' f)
         | Error code message \<Rightarrow> Inl (TServer code message)
         | _ \<Rightarrow> Inl (unexpected ops ''hello_ok'' f))
        (\<lambda>challenge. Inr \<lparr>pk_server = server, pk_identity = i, pk_challenge = challenge\<rparr>), sk)))"

text \<open>The outside of one connection attempt: two reads of the identity file, one of the record,
  and the outcome of the dial.\<close>

record attempt =
  at_record_env :: identity_env
  at_read_fails :: bool
  at_env :: identity_env
  at_dial :: "string + socket"
  at_jitter :: real

definition connect :: "core_ops \<Rightarrow> attempt \<Rightarrow> string \<Rightarrow> fs \<Rightarrow> (transport_error + pairing_client \<times> socket) \<times> fs" where
  "connect ops att server f =
     (case load_identity (co_crates ops) (co_identity ops) (at_env att) f of
        (Inl e, f) \<Rightarrow> (Inl (TPairing e), f)
      | (Inr i, f) \<Rightarrow>
          (case at_dial att of
             Inl e \<Rightarrow> (Inl (TWebSocket e), f)
           | Inr sk \<Rightarrow> ((case handshake ops server i sk of (Inl e, _) \<Rightarrow> Inl e | (Inr c, sk) \<Rightarrow> Inr (c, sk)), f)))"

section \<open>Pairing\<close>

definition PAIRING_CODE_ALPHABET :: string where "PAIRING_CODE_ALPHABET = ''23456789ABCDEFGHJKMNPQRSTVWXYZ''"

text \<open>The six random draws are indexes below the length of the alphabet.\<close>

definition generate_pairing_code :: "nat list \<Rightarrow> string" where
  "generate_pairing_code draws = map (\<lambda>n. PAIRING_CODE_ALPHABET ! n) draws"

record pairing_offer =
  pof_qr :: qr_payload
  pof_offerer :: offerer
  pof_identity :: identity
  pof_challenge :: bytes

record pairing_channel =
  pch_pending :: pending_confirmation
  pch_identity :: identity
  pch_challenge :: bytes

definition client_pair_begin ::
  "core_ops \<Rightarrow> nat list \<Rightarrow> bytes \<Rightarrow> pairing_client \<Rightarrow> socket \<Rightarrow> (transport_error + pairing_offer) \<times> socket" where
  "client_pair_begin ops draws nonce_a client sk =
     (let code = generate_pairing_code draws; bundle = public_bundle (co_crates ops) (pk_identity client) in
      then_do (client_send_frame ops (PairOffer code bundle) sk) (\<lambda>_ sk.
      then_do (receive_frame ops sk) (\<lambda>f sk.
        (and_then (case f of
            PairOfferOk \<Rightarrow> Inr ()
          | Error code message \<Rightarrow> Inl (TServer code message)
          | _ \<Rightarrow> Inl (unexpected ops ''pair_offer_ok'' f)) (\<lambda>_.
         and_then (map_err TPairing (qr_new (co_debug ops) (pk_server client) code bundle nonce_a)) (\<lambda>qr.
         and_then (map_err TPairing (offerer_start (co_debug ops) (co_crates ops) (pk_identity client) qr)) (\<lambda>o'.
           Inr \<lparr>pof_qr = qr, pof_offerer = o', pof_identity = pk_identity client, pof_challenge = pk_challenge client\<rparr>))), sk))))"

text \<open>The answer to an offer or a claim: the bundle of the peer.\<close>

definition receive_peer_bundle :: "core_ops \<Rightarrow> socket \<Rightarrow> (transport_error + pub_bundle) \<times> socket" where
  "receive_peer_bundle ops sk =
     then_do (receive_frame ops sk) (\<lambda>f sk.
       ((case f of
           PairPeer peer \<Rightarrow> Inr peer
         | Error code message \<Rightarrow> Inl (TServer code message)
         | _ \<Rightarrow> Inl (unexpected ops ''pair_peer'' f)), sk))"

definition wait_peer :: "core_ops \<Rightarrow> pairing_offer \<Rightarrow> socket \<Rightarrow> (transport_error + pairing_channel) \<times> socket" where
  "wait_peer ops off sk =
     then_do (receive_peer_bundle ops sk) (\<lambda>peer sk.
       (and_then (map_err TPairing (offerer_receive_peer (co_crates ops) (pof_offerer off) peer)) (\<lambda>p.
          Inr \<lparr>pch_pending = p, pch_identity = pof_identity off, pch_challenge = pof_challenge off\<rparr>), sk))"

definition claim_channel ::
  "core_ops \<Rightarrow> qr_payload \<Rightarrow> claimer \<Rightarrow> pairing_client \<Rightarrow> socket \<Rightarrow> (transport_error + pairing_channel) \<times> socket" where
  "claim_channel ops qr cl client sk =
     then_do (client_send_frame ops (PairClaim (qr_code qr) (public_bundle (co_crates ops) (pk_identity client))) sk) (\<lambda>_ sk.
     then_do (receive_peer_bundle ops sk) (\<lambda>peer sk.
       (and_then (map_err TPairing (claimer_receive_peer cl (qr_server qr) peer)) (\<lambda>p.
          Inr \<lparr>pch_pending = p, pch_identity = pk_identity client, pch_challenge = pk_challenge client\<rparr>), sk)))"

definition claim :: "core_ops \<Rightarrow> attempt \<Rightarrow> qr_payload \<Rightarrow> fs \<Rightarrow> (transport_error + pairing_channel \<times> socket) \<times> fs" where
  "claim ops att qr f =
     (case load_identity (co_crates ops) (co_identity ops) (at_record_env att) f of
        (Inl e, f) \<Rightarrow> (Inl (TPairing e), f)
      | (Inr i, f) \<Rightarrow>
          (case claimer_start (co_debug ops) (co_crates ops) i qr of
             Inl e \<Rightarrow> (Inl (TPairing e), f)
           | Inr cl \<Rightarrow>
               (case connect ops att (qr_server qr) f of
                  (Inl e, f) \<Rightarrow> (Inl e, f)
                | (Inr (client, sk), f) \<Rightarrow>
                    ((case claim_channel ops qr cl client sk of (Inl e, _) \<Rightarrow> Inl e | (Inr ch, sk) \<Rightarrow> Inr (ch, sk)), f))))"

section \<open>Joining\<close>

record live_link =
  ll_identity :: identity
  ll_record :: pairing_record
  ll_bootstrap_clip :: "(string \<times> string) option"

definition join_live ::
  "core_ops \<Rightarrow> identity \<Rightarrow> pairing_record \<Rightarrow> bytes \<Rightarrow> socket \<Rightarrow> (transport_error + live_link) \<times> socket" where
  "join_live ops i r challenge sk =
     (let X = co_crates ops; device = id_device_id X i; bundle = public_bundle X i in
      case join_sig_msg challenge (pr_room_id r) device (bundle_bytes bundle) of
        Inl e \<Rightarrow> (Inl (TPairing (PairingCrypto e)), sk)
      | Inr message \<Rightarrow>
          then_do (client_send_frame ops (Join (pr_room_id r) device bundle (b64_encode X (id_sign_message X i message))) sk) (\<lambda>_ sk.
          then_do (receive_frame ops sk) (\<lambda>f sk.
            case f of
              JoinOk \<Rightarrow>
                then_do (receive_frame ops sk) (\<lambda>f sk.
                  (and_then (case f of
                      MailboxEmpty \<Rightarrow> Inr None
                    | Clip room ciphertext _ mailbox \<Rightarrow>
                        if mailbox then Inr (Some (room, ciphertext)) else Inl (unexpected ops ''bootstrap'' f)
                    | Error code message \<Rightarrow> Inl (TServer code message)
                    | _ \<Rightarrow> Inl (unexpected ops ''bootstrap'' f))
                   (\<lambda>boot. Inr \<lparr>ll_identity = i, ll_record = r, ll_bootstrap_clip = boot\<rparr>), sk))
            | Error code message \<Rightarrow> (Inl (TServer code message), sk)
            | _ \<Rightarrow> (Inl (unexpected ops ''join_ok'' f), sk))))"

definition client_join :: "core_ops \<Rightarrow> attempt \<Rightarrow> fs \<Rightarrow> (transport_error + live_link \<times> socket) \<times> fs" where
  "client_join ops att f =
     (case load_pairing (co_debug ops) (co_crates ops) (co_identity ops) (co_record ops) (at_record_env att) (at_read_fails att) f of
        (Inl e, f) \<Rightarrow> (Inl (TPairing e), f)
      | (Inr None, f) \<Rightarrow> (Inl TNotPaired, f)
      | (Inr (Some r), f) \<Rightarrow>
          (case connect ops att (pr_server r) f of
             (Inl e, f) \<Rightarrow> (Inl e, f)
           | (Inr (client, sk), f) \<Rightarrow>
               ((case join_live ops (pk_identity client) r (pk_challenge client) sk of
                   (Inl e, _) \<Rightarrow> Inl e | (Inr link, sk) \<Rightarrow> Inr (link, sk)), f)))"

text \<open>Confirming writes the record, then joins on the socket of the pairing.\<close>

definition confirm_pair ::
  "core_ops \<Rightarrow> identity_env \<Rightarrow> write_step option \<Rightarrow> string \<Rightarrow> string \<Rightarrow> pairing_channel \<Rightarrow> socket \<Rightarrow> fs
   \<Rightarrow> (transport_error + live_link \<times> socket) \<times> fs" where
  "confirm_pair ops env fault tmp sas ch sk f =
     (case confirm (co_debug ops) (co_crates ops) (co_identity ops) (co_record ops) env fault tmp (pch_pending ch) sas f of
        (Inl e, f) \<Rightarrow> (Inl (TPairing e), f)
      | (Inr r, f) \<Rightarrow>
          ((case join_live ops (pch_identity ch) r (pch_challenge ch) sk of
              (Inl e, _) \<Rightarrow> Inl e | (Inr link, sk) \<Rightarrow> Inr (link, sk)), f))"

section \<open>The live link\<close>

datatype live_event = LiveFrame frame | Reconnected "(string \<times> string) option"

definition link_send :: "core_ops \<Rightarrow> frame \<Rightarrow> socket \<Rightarrow> (transport_error + unit) \<times> socket" where
  "link_send ops f sk = client_send_frame ops f sk"

definition link_recv :: "core_ops \<Rightarrow> socket \<Rightarrow> (transport_error + frame) \<times> socket" where
  "link_recv ops sk =
     then_do (receive_frame ops sk) (\<lambda>f sk.
       ((case f of
           Clip _ _ _ mailbox \<Rightarrow> if mailbox then Inl (unexpected ops ''live clip'' f) else Inr f
         | Error code message \<Rightarrow> Inl (TServer code message)
         | _ \<Rightarrow> Inl (unexpected ops ''live clip'' f)), sk))"

fun is_transient :: "transport_error \<Rightarrow> bool" where
  "is_transient TClosed = True"
| "is_transient (TWebSocket _) = True"
| "is_transient _ = False"

text \<open>Milliseconds.\<close>

definition backoff_delay_with_jitter :: "u32 \<Rightarrow> real \<Rightarrow> nat" where
  "backoff_delay_with_jitter n jitter =
     (let seconds = min (2 ^ min (unat n) 31) 30 :: nat; factor = 1 + max (- 0.2) (min 0.2 jitter) in
      nat (round (real seconds * 1000 * factor)))"

definition saturating_inc :: "u32 \<Rightarrow> u32" where
  "saturating_inc n = (if n = - 1 then n else n + 1)"

text \<open>The loop over the attempts the world allows, with the delays it sleeps; \<open>None\<close> is a loop
  that is still trying.\<close>

fun reconnect ::
  "core_ops \<Rightarrow> u32 \<Rightarrow> attempt list \<Rightarrow> fs \<Rightarrow> ((transport_error + live_link \<times> socket) option \<times> fs) \<times> nat list" where
  "reconnect ops n [] f = ((None, f), [])"
| "reconnect ops n (att # ats) f =
     (case client_join ops att f of
        (Inr l, f) \<Rightarrow> ((Some (Inr l), f), [])
      | (Inl e, f) \<Rightarrow>
          (if is_transient e
           then (case reconnect ops (saturating_inc n) ats f of (r, ds) \<Rightarrow> (r, backoff_delay_with_jitter n (at_jitter att) # ds))
           else ((Some (Inl e), f), [])))"

text \<open>The link is replaced when the loop succeeds.\<close>

definition recv_reconnecting ::
  "core_ops \<Rightarrow> attempt list \<Rightarrow> live_link \<Rightarrow> socket \<Rightarrow> fs
   \<Rightarrow> (transport_error + live_event) option \<times> live_link \<times> socket \<times> fs" where
  "recv_reconnecting ops ats link sk f =
     (case link_recv ops sk of
        (Inr fr, sk) \<Rightarrow> (Some (Inr (LiveFrame fr)), link, sk, f)
      | (Inl e, sk) \<Rightarrow>
          (if is_transient e
           then (case reconnect ops 0 ats f of
                   ((None, f), _) \<Rightarrow> (None, link, sk, f)
                 | ((Some (Inl e), f), _) \<Rightarrow> (Some (Inl e), link, sk, f)
                 | ((Some (Inr (link, sk)), f), _) \<Rightarrow> (Some (Inr (Reconnected (ll_bootstrap_clip link))), link, sk, f))
           else (Some (Inl e), link, sk, f)))"

section \<open>Facts\<close>

text \<open>Between two states of a socket these frames were written and these were read.\<close>

definition exchanged :: "core_ops \<Rightarrow> socket \<Rightarrow> socket \<Rightarrow> frame list \<Rightarrow> frame list \<Rightarrow> bool" where
  "exchanged ops sk sk' sent received \<longleftrightarrow>
     (\<exists>xs raws. map (encode_frame (co_crates ops) (co_frames ops)) sent = map Inr xs \<and> sk_out sk' = sk_out sk @ xs
        \<and> map (decode_frame (co_crates ops) (co_frames ops)) raws = map Inr received \<and> sk_in sk = map InText raws @ sk_in sk')"

lemma exchanged_trans:
  assumes "exchanged ops sk sk1 s r" "exchanged ops sk1 sk2 s' r'" shows "exchanged ops sk sk2 (s @ s') (r @ r')"
proof -
  from assms obtain xs raws ys raws' where *:
    "map (encode_frame (co_crates ops) (co_frames ops)) s = map Inr xs" "sk_out sk1 = sk_out sk @ xs"
    "map (decode_frame (co_crates ops) (co_frames ops)) raws = map Inr r" "sk_in sk = map InText raws @ sk_in sk1"
    "map (encode_frame (co_crates ops) (co_frames ops)) s' = map Inr ys" "sk_out sk2 = sk_out sk1 @ ys"
    "map (decode_frame (co_crates ops) (co_frames ops)) raws' = map Inr r'" "sk_in sk1 = map InText raws' @ sk_in sk2"
    unfolding exchanged_def by blast
  then show ?thesis unfolding exchanged_def by (intro exI [of _ "xs @ ys"] exI [of _ "raws @ raws'"]) simp
qed

lemma exchanged_none [simp]: "exchanged ops sk sk [] []"
  by (simp add: exchanged_def)

lemma exchanged_valid:
  assumes "exchanged ops sk sk' sent received" "f \<in> set sent \<or> f \<in> set received"
  shows "validate_frame (co_crates ops) f = Inr ()"
proof -
  from assms(1) obtain xs raws where *: "map (encode_frame (co_crates ops) (co_frames ops)) sent = map Inr xs"
    "map (decode_frame (co_crates ops) (co_frames ops)) raws = map Inr received" unfolding exchanged_def by blast
  have "\<exists>x. encode_frame (co_crates ops) (co_frames ops) f = Inr x" if "f \<in> set sent"
    using that *(1) by (metis (mono_tags, lifting) imageE image_eqI list.set_map)
  moreover have "\<exists>raw. decode_frame (co_crates ops) (co_frames ops) raw = Inr f" if "f \<in> set received"
    using that *(2) by (metis (mono_tags, lifting) imageE image_eqI list.set_map)
  ultimately show ?thesis using assms(2) by (auto simp: encode_frame_def decode_frame_def and_then_eq_Inr)
qed

lemma then_do_Inr: "then_do r f = (Inr b, s') \<longleftrightarrow> (\<exists>a s. r = (Inr a, s) \<and> f a s = (Inr b, s'))"
  by (auto simp: then_do_def split: prod.splits sum.splits)

lemma client_send_frame_Inr:
  assumes "client_send_frame ops f sk = (Inr u, sk')" shows "exchanged ops sk sk' [f] []"
  using assms by (auto simp: client_send_frame_def socket_send_def exchanged_def split: sum.splits if_splits list.splits option.splits)

lemma receive_frame_Inr:
  assumes "receive_frame ops sk = (Inr f, sk')" shows "exchanged ops sk sk' [] [f]"
  using assms by (auto simp: receive_frame_def exchanged_def split: list.splits ws_in.splits intro!: exI [of _ "[_]"])

lemma send_receive:
  assumes "then_do (client_send_frame ops f sk) (\<lambda>_ sk. then_do (receive_frame ops sk) g) = (Inr b, sk')"
  obtains r sk1 where "exchanged ops sk sk1 [f] [r]" "g r sk1 = (Inr b, sk')"
  using assms exchanged_trans [OF client_send_frame_Inr receive_frame_Inr] by (force simp: then_do_Inr)

lemma handshake_Inr:
  assumes "handshake ops server i sk = (Inr c, sk')"
  obtains nonce_b64 where "b64_decode (co_crates ops) nonce_b64 = Inr (pk_challenge c)" "length (pk_challenge c) = 32"
    "exchanged ops sk sk' [Hello (id_device_id (co_crates ops) i) (public_bundle (co_crates ops) i) PROTOCOL_VERSION] [HelloOk PROTOCOL_VERSION nonce_b64]"
    "pk_server c = server" "pk_identity c = i"
proof -
  from assms obtain r sk1 where r: "exchanged ops sk sk1 [Hello (id_device_id (co_crates ops) i) (public_bundle (co_crates ops) i) PROTOCOL_VERSION] [r]"
    "and_then (case r of
           HelloOk server_version nonce_b64 \<Rightarrow>
             if server_version = PROTOCOL_VERSION then decode_challenge ops nonce_b64 else Inl (unexpected ops ''hello_ok'' r)
         | Error code message \<Rightarrow> Inl (TServer code message)
         | _ \<Rightarrow> Inl (unexpected ops ''hello_ok'' r))
        (\<lambda>challenge. Inr \<lparr>pk_server = server, pk_identity = i, pk_challenge = challenge\<rparr>) = Inr c" "sk1 = sk'"
    unfolding handshake_def by (rule send_receive) auto
  then show thesis using that
    by (cases r) (auto simp: and_then_eq_Inr decode_challenge_def split: if_splits sum.splits)
qed

lemma receive_peer_bundle_Inr:
  assumes "receive_peer_bundle ops sk = (Inr peer, sk')" shows "exchanged ops sk sk' [] [PairPeer peer]"
proof -
  from assms obtain f where f: "receive_frame ops sk = (Inr f, sk')"
    "(case f of PairPeer peer \<Rightarrow> Inr peer | Error code message \<Rightarrow> Inl (TServer code message)
       | _ \<Rightarrow> Inl (unexpected ops ''pair_peer'' f)) = Inr peer"
    unfolding receive_peer_bundle_def then_do_Inr by auto
  then have "f = PairPeer peer" by (cases f) auto
  then show ?thesis using receive_frame_Inr [OF f(1)] by simp
qed

lemma client_pair_begin_Inr:
  assumes "client_pair_begin ops draws nonce_a c sk = (Inr off, sk')"
  shows "exchanged ops sk sk' [PairOffer (generate_pairing_code draws) (public_bundle (co_crates ops) (pk_identity c))] [PairOfferOk]"
    "pof_identity off = pk_identity c" "pof_challenge off = pk_challenge c"
    "qr_code (pof_qr off) = generate_pairing_code draws" "qr_bundle (pof_qr off) = public_bundle (co_crates ops) (pk_identity c)"
    "offerer_start (co_debug ops) (co_crates ops) (pk_identity c) (pof_qr off) = Inr (pof_offerer off)"
proof -
  let ?f = "PairOffer (generate_pairing_code draws) (public_bundle (co_crates ops) (pk_identity c))"
  from assms [unfolded client_pair_begin_def Let_def] obtain r where r: "exchanged ops sk sk' [?f] [r]"
    "and_then (case r of PairOfferOk \<Rightarrow> Inr () | Error code message \<Rightarrow> Inl (TServer code message)
          | _ \<Rightarrow> Inl (unexpected ops ''pair_offer_ok'' r)) (\<lambda>_.
         and_then (map_err TPairing (qr_new (co_debug ops) (pk_server c) (generate_pairing_code draws) (public_bundle (co_crates ops) (pk_identity c)) nonce_a)) (\<lambda>qr.
         and_then (map_err TPairing (offerer_start (co_debug ops) (co_crates ops) (pk_identity c) qr)) (\<lambda>o'.
           Inr \<lparr>pof_qr = qr, pof_offerer = o', pof_identity = pk_identity c, pof_challenge = pk_challenge c\<rparr>))) = Inr off"
    by (rule send_receive) auto
  then have "r = PairOfferOk" by (cases r) auto
  then show "exchanged ops sk sk' [?f] [PairOfferOk]" using r(1) by simp
  show "pof_identity off = pk_identity c" "pof_challenge off = pk_challenge c"
    "qr_code (pof_qr off) = generate_pairing_code draws" "qr_bundle (pof_qr off) = public_bundle (co_crates ops) (pk_identity c)"
    "offerer_start (co_debug ops) (co_crates ops) (pk_identity c) (pof_qr off) = Inr (pof_offerer off)"
    using r(2) by (auto simp: and_then_eq_Inr map_err_eq_Inr qr_new_def)
qed

lemma wait_peer_Inr:
  assumes "wait_peer ops off sk = (Inr ch, sk')"
  obtains peer where "exchanged ops sk sk' [] [PairPeer peer]" "pch_identity ch = pof_identity off" "pch_challenge ch = pof_challenge off"
    "offerer_receive_peer (co_crates ops) (pof_offerer off) peer = Inr (pch_pending ch)"
proof -
  from assms obtain peer where p: "receive_peer_bundle ops sk = (Inr peer, sk')"
    "and_then (map_err TPairing (offerer_receive_peer (co_crates ops) (pof_offerer off) peer)) (\<lambda>p.
          Inr \<lparr>pch_pending = p, pch_identity = pof_identity off, pch_challenge = pof_challenge off\<rparr>) = Inr ch"
    unfolding wait_peer_def then_do_Inr by auto
  show thesis by (rule that [OF receive_peer_bundle_Inr [OF p(1)]]) (use p(2) in \<open>auto simp: and_then_eq_Inr map_err_eq_Inr\<close>)
qed

lemma claim_channel_Inr:
  assumes "claim_channel ops qr cl c sk = (Inr ch, sk')"
  obtains peer where "exchanged ops sk sk' [PairClaim (qr_code qr) (public_bundle (co_crates ops) (pk_identity c))] [PairPeer peer]"
    "pch_identity ch = pk_identity c" "pch_challenge ch = pk_challenge c" "claimer_receive_peer cl (qr_server qr) peer = Inr (pch_pending ch)"
proof -
  from assms obtain sk1 peer where p: "client_send_frame ops (PairClaim (qr_code qr) (public_bundle (co_crates ops) (pk_identity c))) sk = (Inr (), sk1)"
    "receive_peer_bundle ops sk1 = (Inr peer, sk')"
    "and_then (map_err TPairing (claimer_receive_peer cl (qr_server qr) peer)) (\<lambda>p.
          Inr \<lparr>pch_pending = p, pch_identity = pk_identity c, pch_challenge = pk_challenge c\<rparr>) = Inr ch"
    unfolding claim_channel_def then_do_Inr by auto
  from exchanged_trans [OF client_send_frame_Inr [OF p(1)] receive_peer_bundle_Inr [OF p(2)]] show thesis
    using that p(3) by (auto simp: and_then_eq_Inr map_err_eq_Inr)
qed

text \<open>The bootstrap frame and what the link keeps of it.\<close>

fun bootstrap_frame :: "frame \<Rightarrow> (string \<times> string) option \<Rightarrow> bool" where
  "bootstrap_frame MailboxEmpty boot = (boot = None)"
| "bootstrap_frame (Clip room ciphertext _ mailbox) boot = (mailbox \<and> boot = Some (room, ciphertext))"
| "bootstrap_frame _ boot = False"

lemma join_live_Inr:
  assumes "join_live ops i r challenge sk = (Inr link, sk')"
  obtains message boot where
    "join_sig_msg challenge (pr_room_id r) (id_device_id (co_crates ops) i) (bundle_bytes (public_bundle (co_crates ops) i)) = Inr message"
    "exchanged ops sk sk' [Join (pr_room_id r) (id_device_id (co_crates ops) i) (public_bundle (co_crates ops) i)
       (b64_encode (co_crates ops) (id_sign_message (co_crates ops) i message))] [JoinOk, boot]"
    "bootstrap_frame boot (ll_bootstrap_clip link)" "ll_identity link = i" "ll_record link = r"
proof -
  let ?X = "co_crates ops"
  from assms obtain message where m: "join_sig_msg challenge (pr_room_id r) (id_device_id ?X i) (bundle_bytes (public_bundle ?X i)) = Inr message"
    by (auto simp: join_live_def Let_def split: sum.splits)
  let ?f = "Join (pr_room_id r) (id_device_id ?X i) (public_bundle ?X i) (b64_encode ?X (id_sign_message ?X i message))"
  from assms [unfolded join_live_def Let_def m sum.case] obtain f sk1 where f: "exchanged ops sk sk1 [?f] [f]"
    "(case f of
        JoinOk \<Rightarrow> then_do (receive_frame ops sk1) (\<lambda>f sk.
            (and_then (case f of MailboxEmpty \<Rightarrow> Inr None
                | Clip room ciphertext _ mailbox \<Rightarrow> if mailbox then Inr (Some (room, ciphertext)) else Inl (unexpected ops ''bootstrap'' f)
                | Error code message \<Rightarrow> Inl (TServer code message)
                | _ \<Rightarrow> Inl (unexpected ops ''bootstrap'' f))
             (\<lambda>boot. Inr \<lparr>ll_identity = i, ll_record = r, ll_bootstrap_clip = boot\<rparr>), sk))
      | Error code message \<Rightarrow> (Inl (TServer code message), sk1)
      | _ \<Rightarrow> (Inl (unexpected ops ''join_ok'' f), sk1)) = (Inr link, sk')"
    by (rule send_receive)
  have jo: "f = JoinOk" using f(2) by (cases f) auto
  from f(2) [unfolded jo frame.case then_do_Inr] obtain boot where b: "receive_frame ops sk1 = (Inr boot, sk')"
    "and_then (case boot of MailboxEmpty \<Rightarrow> Inr None
                | Clip room ciphertext _ mailbox \<Rightarrow> if mailbox then Inr (Some (room, ciphertext)) else Inl (unexpected ops ''bootstrap'' boot)
                | Error code message \<Rightarrow> Inl (TServer code message)
                | _ \<Rightarrow> Inl (unexpected ops ''bootstrap'' boot))
             (\<lambda>boot. Inr \<lparr>ll_identity = i, ll_record = r, ll_bootstrap_clip = boot\<rparr>) = Inr link" by auto
  have "bootstrap_frame boot (ll_bootstrap_clip link)" "ll_identity link = i" "ll_record link = r"
    using b(2) by (cases boot; auto split: if_splits)+
  then show thesis using that [OF m] exchanged_trans [OF f(1) [unfolded jo] receive_frame_Inr [OF b(1)]] by simp
qed

subsection \<open>Codes, delays and retries\<close>

lemma generated_code_valid:
  assumes "length draws = 6" "list_all (\<lambda>n. n < 30) draws"
  shows "validate_code (generate_pairing_code draws) = Inr ()" "set (generate_pairing_code draws) \<subseteq> set PAIRING_CODE_ALPHABET"
proof -
  have len: "length PAIRING_CODE_ALPHABET = 30" by (simp add: PAIRING_CODE_ALPHABET_def)
  then show "set (generate_pairing_code draws) \<subseteq> set PAIRING_CODE_ALPHABET"
    using assms(2) by (auto simp: generate_pairing_code_def list_all_iff)
  moreover have "list_all (\<lambda>c. is_ascii_uppercase c \<or> is_ascii_digit c) PAIRING_CODE_ALPHABET" by code_simp
  ultimately have "list_all (\<lambda>c. is_ascii_uppercase c \<or> is_ascii_digit c) (generate_pairing_code draws)"
    by (auto simp: list_all_iff)
  then show "validate_code (generate_pairing_code draws) = Inr ()"
    using assms(1) by (simp add: validate_code_def generate_pairing_code_def)
qed

lemma jittered_bounds:
  fixes s j :: real
  assumes "0 \<le> m" "m \<le> s" "s \<le> M" "0.8 \<le> j" "j \<le> 1.2"
  shows "m * 800 \<le> s * 1000 * j" "s * 1000 * j \<le> M * 1200"
proof -
  have "m * 800 \<le> s * (1000 * j)" using assms by (intro mult_mono) auto
  then show "m * 800 \<le> s * 1000 * j" by (simp add: algebra_simps)
  have "s * (1000 * j) \<le> M * 1200" using assms by (intro mult_mono) auto
  then show "s * 1000 * j \<le> M * 1200" by (simp add: algebra_simps)
qed

text \<open>Every delay lies between 0.8 and 36 seconds, and from the fifth retry on it is 30 seconds
  up to the jitter.\<close>

lemma backoff_bounds:
  shows "800 \<le> backoff_delay_with_jitter n jitter" "backoff_delay_with_jitter n jitter \<le> 36000"
    "5 \<le> unat n \<Longrightarrow> 24000 \<le> backoff_delay_with_jitter n jitter"
proof -
  obtain s :: nat where s: "s = min (2 ^ min (unat n) 31) 30" by blast
  obtain j :: real where j: "j = 1 + max (- 0.2) (min 0.2 jitter)" by blast
  have d: "backoff_delay_with_jitter n jitter = nat (round (real s * 1000 * j))"
    by (simp only: backoff_delay_with_jitter_def Let_def s j)
  have sb: "1 \<le> real s" "real s \<le> 30" and jb: "0.8 \<le> j" "j \<le> 1.2" unfolding s j by auto
  have "800 \<le> round (real s * 1000 * j)" using round_mono [OF jittered_bounds(1) [OF _ sb jb]] by simp
  then show "800 \<le> backoff_delay_with_jitter n jitter" by (simp add: d)
  have "round (real s * 1000 * j) \<le> 36000" using round_mono [OF jittered_bounds(2) [OF _ sb jb]] by simp
  then show "backoff_delay_with_jitter n jitter \<le> 36000" by (simp add: d)
  show "24000 \<le> backoff_delay_with_jitter n jitter" if "5 \<le> unat n"
  proof -
    have "(2 :: nat) ^ 5 \<le> 2 ^ min (unat n) 31" using that by (intro power_increasing) auto
    then have "30 \<le> real s" unfolding s by simp
    then have "24000 \<le> round (real s * 1000 * j)" using round_mono [OF jittered_bounds(1) [OF _ _ sb(2) jb, of 30]] by simp
    then show ?thesis by (simp add: d)
  qed
qed

text \<open>Only transport failures are retried; the loop ends with the first other outcome, and every
  attempt before it was followed by one bounded delay.\<close>

lemma reconnect_outcome:
  "reconnect ops n ats f = ((res, f'), ds) \<Longrightarrow>
     (case res of None \<Rightarrow> length ds = length ats | Some (Inl e) \<Rightarrow> \<not> is_transient e \<and> length ds < length ats
      | Some (Inr _) \<Rightarrow> length ds < length ats) \<and> (\<forall>d\<in>set ds. 800 \<le> d \<and> d \<le> 36000)"
proof (induction ats arbitrary: n f ds)
  case (Cons att ats)
  obtain r f1 where j: "client_join ops att f = (r, f1)" by fastforce
  show ?case
  proof (cases r)
    case (Inl e)
    show ?thesis
    proof (cases "is_transient e")
      case True
      obtain p ds1 where rec: "reconnect ops (saturating_inc n) ats f1 = (p, ds1)" by fastforce
      then have "p = (res, f')" "ds = backoff_delay_with_jitter n (at_jitter att) # ds1"
        using Cons.prems j Inl True by auto
      then show ?thesis using Cons.IH [of "saturating_inc n" f1 ds1] rec backoff_bounds(1,2)
        by (auto split: option.splits sum.splits)
    next
      case False
      then show ?thesis using Cons.prems j Inl by auto
    qed
  next
    case (Inr l)
    then show ?thesis using Cons.prems j by auto
  qed
qed simp

text \<open>A control frame that reaches the client ends the link for good: it is reported as a protocol
  error, which is not retried.\<close>

lemma control_frame_ends_link:
  assumes "sk_in sk = InOther # rest"
  shows "\<exists>m. recv_reconnecting ops ats link sk f = (Some (Inl (TProtocol (BadFrame m))), link, sk\<lparr>sk_in := rest\<rparr>, f)"
  using assms by (simp add: recv_reconnecting_def link_recv_def receive_frame_def then_do_def)

section \<open>Properties\<close>

fun sent_by_client :: "frame \<Rightarrow> bool" where
  "sent_by_client (Hello _ _ _) = True"
| "sent_by_client (PairOffer _ _) = True"
| "sent_by_client (PairClaim _ _) = True"
| "sent_by_client (Join _ _ _ _) = True"
| "sent_by_client _ = False"

text \<open>What may happen on a socket between handshake and join: nothing (a paired device that
  rejoins), an offer that found its peer, or a claim.\<close>

inductive pairing_middle :: "core_ops \<Rightarrow> pairing_client \<Rightarrow> socket \<Rightarrow> socket \<Rightarrow> frame list \<Rightarrow> bool" for ops c where
  middle_rejoin: "pairing_middle ops c sk sk []"
| middle_offer: "client_pair_begin ops draws nonce_a c sk = (Inr off, sk1) \<Longrightarrow> wait_peer ops off sk1 = (Inr ch, sk2)
    \<Longrightarrow> pairing_middle ops c sk sk2 [PairOffer (qr_code (pof_qr off)) (public_bundle (co_crates ops) (pk_identity c)), PairOfferOk,
          PairPeer (pc_peer_bundle (pe_candidate (pch_pending ch)))]"
| middle_claim: "claim_channel ops qr cl c sk = (Inr ch, sk1)
    \<Longrightarrow> pairing_middle ops c sk sk1 [PairClaim (qr_code qr) (public_bundle (co_crates ops) (pk_identity c)),
          PairPeer (pc_peer_bundle (pe_candidate (pch_pending ch)))]"

lemma pairing_middle_exchanged:
  assumes "pairing_middle ops c sk sk' mid"
  shows "exchanged ops sk sk' (filter sent_by_client mid) (filter (\<lambda>f. \<not> sent_by_client f) mid)
    \<and> map from_frame mid \<in> {[], [EvPairOffer, EvPairOfferOk, EvPairPeer], [EvPairClaim, EvPairPeer]}"
  using assms
proof cases
  case (middle_offer draws nonce_a off sk1 ch)
  note b = client_pair_begin_Inr [OF middle_offer(2)]
  from middle_offer(3) obtain peer where p: "exchanged ops sk1 sk' [] [PairPeer peer]"
    "offerer_receive_peer (co_crates ops) (pof_offerer off) peer = Inr (pch_pending ch)" by (rule wait_peer_Inr)
  have "pc_peer_bundle (pe_candidate (pch_pending ch)) = peer" using p(2) [symmetric] by (simp add: offerer_receive_peer_def split: if_splits)
  then show ?thesis using exchanged_trans [OF b(1) p(1)] middle_offer(1) b(4) by simp
next
  case (middle_claim qr cl ch)
  from middle_claim(2) obtain peer where p: "exchanged ops sk sk' [PairClaim (qr_code qr) (public_bundle (co_crates ops) (pk_identity c))] [PairPeer peer]"
    "claimer_receive_peer cl (qr_server qr) peer = Inr (pch_pending ch)" by (rule claim_channel_Inr)
  have "pc_peer_bundle (pe_candidate (pch_pending ch)) = peer" using p(2) [symmetric] by (auto simp: claimer_receive_peer_def split: if_splits)
  then show ?thesis using p(1) middle_claim(1) by simp
qed simp

lemma validate_run_events:
  assumes "list_all (\<lambda>f. validate_frame X f = Inr ()) fs"
    and "fold (\<lambda>e s. Option.bind s (\<lambda>s. documented_step s e)) (map from_frame fs) (Some s) = Some s'"
  shows "validate_run X s fs = Inr s'"
  using assms
proof (induction fs arbitrary: s)
  case (Cons f fs)
  have none: "fold (\<lambda>e s. Option.bind s (\<lambda>s. documented_step s e)) es None = None" for es
    by (induction es) simp_all
  obtain t where t: "documented_step s (from_frame f) = Some t"
    using Cons.prems(2) none by (cases "documented_step s (from_frame f)") auto
  then have "validate_frame_order X s f = Inr t" using Cons.prems(1) by (simp add: validate_frame_order_eq_Inr)
  then show ?case using Cons.IH [of t] Cons.prems t by simp
qed simp

text \<open>C24: a client that goes live has spoken exactly the documented protocol. Whether the device
  rejoins, offers or claims a pairing code, a successful run from the fresh socket to the live link
  wrote and read just these frames: hello and its answer, the pairing frames of its role, the join,
  join\_ok and one bootstrap frame; in this order they lead the protocol table from Connected to
  Live. The join is signed over the challenge this very connection was sent, and the link keeps the
  clip of the bootstrap frame, if it had one.\<close>

theorem client_follows_protocol:
  assumes "handshake ops server i sk0 = (Inr c, sk1)" and "pairing_middle ops c sk1 sk2 mid"
    and "join_live ops (pk_identity c) r (pk_challenge c) sk2 = (Inr link, sk3)"
  shows "\<exists>hello nonce_b64 join message boot.
      hello = Hello (id_device_id (co_crates ops) i) (public_bundle (co_crates ops) i) PROTOCOL_VERSION
    \<and> b64_decode (co_crates ops) nonce_b64 = Inr (pk_challenge c)
    \<and> join_sig_msg (pk_challenge c) (pr_room_id r) (id_device_id (co_crates ops) i) (bundle_bytes (public_bundle (co_crates ops) i)) = Inr message
    \<and> join = Join (pr_room_id r) (id_device_id (co_crates ops) i) (public_bundle (co_crates ops) i)
               (b64_encode (co_crates ops) (id_sign_message (co_crates ops) i message))
    \<and> exchanged ops sk0 sk3 (hello # filter sent_by_client mid @ [join])
        (HelloOk PROTOCOL_VERSION nonce_b64 # filter (\<lambda>f. \<not> sent_by_client f) mid @ [JoinOk, boot])
    \<and> validate_run (co_crates ops) Connected ([hello, HelloOk PROTOCOL_VERSION nonce_b64] @ mid @ [join, JoinOk, boot]) = Inr Live
    \<and> bootstrap_frame boot (ll_bootstrap_clip link)"
proof -
  let ?X = "co_crates ops"
  let ?hello = "Hello (id_device_id ?X i) (public_bundle ?X i) PROTOCOL_VERSION"
  from assms(1) obtain nonce_b64 where h: "b64_decode ?X nonce_b64 = Inr (pk_challenge c)" "pk_identity c = i"
    "exchanged ops sk0 sk1 [?hello] [HelloOk PROTOCOL_VERSION nonce_b64]" by (rule handshake_Inr)
  note m = pairing_middle_exchanged [OF assms(2)]
  from assms(3) obtain message boot where j:
    "join_sig_msg (pk_challenge c) (pr_room_id r) (id_device_id ?X i) (bundle_bytes (public_bundle ?X i)) = Inr message"
    "exchanged ops sk2 sk3 [Join (pr_room_id r) (id_device_id ?X i) (public_bundle ?X i) (b64_encode ?X (id_sign_message ?X i message))] [JoinOk, boot]"
    "bootstrap_frame boot (ll_bootstrap_clip link)" unfolding h(2) by (rule join_live_Inr)
  let ?join = "Join (pr_room_id r) (id_device_id ?X i) (public_bundle ?X i) (b64_encode ?X (id_sign_message ?X i message))"
  have all: "exchanged ops sk0 sk3 (?hello # filter sent_by_client mid @ [?join])
      (HelloOk PROTOCOL_VERSION nonce_b64 # filter (\<lambda>f. \<not> sent_by_client f) mid @ [JoinOk, boot])"
    using exchanged_trans [OF h(3) exchanged_trans [OF conjunct1 [OF m] j(2)]] by simp
  have "list_all (\<lambda>f. validate_frame ?X f = Inr ()) ([?hello, HelloOk PROTOCOL_VERSION nonce_b64] @ mid @ [?join, JoinOk, boot])"
    using exchanged_valid [OF all] by (auto simp: list_all_iff simp del: validate_frame.simps)
  moreover have "from_frame boot = EvMailboxClip \<or> from_frame boot = EvMailboxEmpty" using j(3) by (cases boot) auto
  ultimately have "validate_run ?X Connected ([?hello, HelloOk PROTOCOL_VERSION nonce_b64] @ mid @ [?join, JoinOk, boot]) = Inr Live"
    using conjunct2 [OF m] by (intro validate_run_events) (auto simp: documented_step_def simp del: validate_frame.simps)
  with h(1) j(1,3) all show ?thesis by blast
qed

text \<open>A device that rejoins: the relay answers with its challenge, join\_ok and an empty mailbox.\<close>

definition demo_challenge :: bytes where "demo_challenge = replicate 32 9"

definition demo_rejoin_record :: pairing_record where
  "demo_rejoin_record = \<lparr>pr_generation = 1, pr_server = ''wss://r'',
     pr_room_id = room_id demo_crates (public_bundle demo_crates (demo_identity 1)) (public_bundle demo_crates (demo_identity 2)),
     pr_local_bundle_fp = id_bundle_fp demo_crates (demo_identity 1), pr_peer_bundle = public_bundle demo_crates (demo_identity 2),
     pr_peer_bundle_fp = id_bundle_fp demo_crates (demo_identity 2)\<rparr>"

definition demo_message :: bytes where
  "demo_message = projr (join_sig_msg demo_challenge (pr_room_id demo_rejoin_record) (id_device_id demo_crates (demo_identity 1))
     (bundle_bytes (public_bundle demo_crates (demo_identity 1))))"

definition demo_core_ops :: core_ops where
  "demo_core_ops = \<lparr>co_debug = False, co_crates = demo_crates,
     co_frames = table_json [Hello (id_device_id demo_crates (demo_identity 1)) (public_bundle demo_crates (demo_identity 1)) PROTOCOL_VERSION,
       HelloOk PROTOCOL_VERSION (b64_encode demo_crates demo_challenge),
       Join (pr_room_id demo_rejoin_record) (id_device_id demo_crates (demo_identity 1)) (public_bundle demo_crates (demo_identity 1))
         (b64_encode demo_crates (id_sign_message demo_crates (demo_identity 1) demo_message)), JoinOk, MailboxEmpty],
     co_identity = table_json [], co_record = table_json [], co_show_frame = (\<lambda>_. [])\<rparr>"

definition demo_socket :: "nat \<Rightarrow> bytes list \<Rightarrow> socket" where
  "demo_socket n out = \<lparr>sk_in = drop n [InText [1, 2], InText [1, 1, 1, 2], InText [1, 1, 1, 1, 2]], sk_out = out, sk_sends = []\<rparr>"

lemma demo_core_ops_simps [simp]: "co_crates demo_core_ops = demo_crates"
  by (simp add: demo_core_ops_def)

lemma demo_message: "join_sig_msg demo_challenge (pr_room_id demo_rejoin_record) (id_device_id demo_crates (demo_identity 1))
     (bundle_bytes (public_bundle demo_crates (demo_identity 1))) = Inr demo_message"
proof -
  have "is_ok (join_sig_msg demo_challenge (pr_room_id demo_rejoin_record) (id_device_id demo_crates (demo_identity 1))
     (bundle_bytes (public_bundle demo_crates (demo_identity 1))))"
    using room_id_hex [OF demo_laws(2)] device_id_hex [OF demo_laws(2)]
    by (intro join_sig_msg_ok) (simp_all add: demo_challenge_def demo_rejoin_record_def id_device_id_def is_lower_hex_def
        bundle_bytes_def public_bundle_def demo_crates_def demo_identity_def)
  then show ?thesis by (auto simp: demo_message_def is_ok_iff)
qed

lemma demo_frames:
  "encode_frame demo_crates (co_frames demo_core_ops)
     (Hello (id_device_id demo_crates (demo_identity 1)) (public_bundle demo_crates (demo_identity 1)) PROTOCOL_VERSION) = Inr [2, 10]"
  "encode_frame demo_crates (co_frames demo_core_ops)
     (Join (pr_room_id demo_rejoin_record) (id_device_id demo_crates (demo_identity 1)) (public_bundle demo_crates (demo_identity 1))
         (b64_encode demo_crates (id_sign_message demo_crates (demo_identity 1) demo_message))) = Inr [1, 1, 2, 10]"
  "decode_frame demo_crates (co_frames demo_core_ops) [1, 2] = Inr (HelloOk PROTOCOL_VERSION (b64_encode demo_crates demo_challenge))"
  "decode_frame demo_crates (co_frames demo_core_ops) [1, 1, 1, 2] = Inr JoinOk"
  "decode_frame demo_crates (co_frames demo_core_ops) [1, 1, 1, 1, 2] = Inr MailboxEmpty"
  using demo_laws
  by (simp_all add: decode_frame_def encode_frame_def encode_json_def ensure_size_def MAX_FRAME_BYTES_def demo_core_ops_def table_json_def
      valid_hello valid_hello_ok valid_join demo_rejoin_record_def Let_def del: validate_frame.simps(1-4))

lemma demo_handshake:
  "handshake demo_core_ops ''wss://r'' (demo_identity 1) (demo_socket 0 [])
   = (Inr \<lparr>pk_server = ''wss://r'', pk_identity = demo_identity 1, pk_challenge = demo_challenge\<rparr>, demo_socket 1 [[2, 10]])"
  using demo_laws(1) demo_frames
  by (simp add: handshake_def client_send_frame_def socket_send_def receive_frame_def then_do_def demo_socket_def decode_challenge_def
      b64_law_def demo_challenge_def)

lemma demo_join_live:
  "join_live demo_core_ops (demo_identity 1) demo_rejoin_record demo_challenge (demo_socket 1 [[2, 10]])
   = (Inr \<lparr>ll_identity = demo_identity 1, ll_record = demo_rejoin_record, ll_bootstrap_clip = None\<rparr>, demo_socket 3 [[2, 10], [1, 1, 2, 10]])"
  using demo_frames demo_message
  by (simp add: join_live_def client_send_frame_def socket_send_def receive_frame_def then_do_def demo_socket_def Let_def numeral_3_eq_3)

theorem client_follows_protocol_witness:
  "\<exists>join boot nonce_b64. exchanged demo_core_ops (demo_socket 0 []) (demo_socket 3 [[2, 10], [1, 1, 2, 10]])
      [Hello (id_device_id demo_crates (demo_identity 1)) (public_bundle demo_crates (demo_identity 1)) PROTOCOL_VERSION, join]
      [HelloOk PROTOCOL_VERSION nonce_b64, JoinOk, boot] \<and> bootstrap_frame boot None"
proof -
  let ?c = "\<lparr>pk_server = ''wss://r'', pk_identity = demo_identity 1, pk_challenge = demo_challenge\<rparr>"
  have j: "join_live demo_core_ops (pk_identity ?c) demo_rejoin_record (pk_challenge ?c) (demo_socket 1 [[2, 10]])
      = (Inr \<lparr>ll_identity = demo_identity 1, ll_record = demo_rejoin_record, ll_bootstrap_clip = None\<rparr>, demo_socket 3 [[2, 10], [1, 1, 2, 10]])"
    using demo_join_live by simp
  from client_follows_protocol [OF demo_handshake middle_rejoin j] show ?thesis by auto
qed

end
