(* ===== verification/Dispatcher.thy ===== *)
theory Dispatcher
  imports Pairing_Client Session_Runs
begin

text \<open>
  The values that cross the foreign-function boundary and the command dispatcher of
  crates/core/src/ffi.rs: one task that takes commands from a bounded queue, receives from the live
  link, and owns the session.

  The three directories of a handle are the record \<open>disk\<close>. A session works on its own copy of
  the two files it owns, so each turn puts the files of the disk into the session before the call
  and takes them out after it. The shell's callbacks are a record of functions, \<open>None\<close> a panic;
  what the shell sees, statuses, clips and replies, is one list in order. The texts of the errors
  of the other modules are a record of functions. A turn whose reconnect loop is still trying has
  the value \<open>None\<close>.

  The lemmas show that every command is answered exactly once, that the sequence numbers of the
  clips handed to the shell and of the reported sends only grow while one connection is in place
  (by the floors of Session\_Runs), and that a failing callback leaves the connection and the
  history in place.
\<close>

section \<open>Values at the boundary\<close>

datatype ffi_clip_content = FText string | FImage bytes

record ffi_item =
  fi_id :: string
  fi_ts_ms :: int
  fi_seq :: u64
  fi_content :: ffi_clip_content

datatype ffi_disposition = FApplied | FDeferred

datatype core_status = StReadyUnpaired | StOffering | StSasReady | StConnecting | StConnected
  | StReconnecting | StDisconnected | StError string

datatype ffi_history_kind = FHText string | FHImage
datatype ffi_history_source = FHLocal | FHRemote | FHRemoteDeferred

record ffi_entry =
  fh_id :: string
  fh_ts_ms :: int
  fh_kind :: ffi_history_kind
  fh_source :: ffi_history_source

datatype core_error = CInvalidInput string | CBusy | CNotPaired | CQueueFull | CTransport string
  | CSasMismatch | CShutdown | CInternal string

fun core_error_text :: "core_error \<Rightarrow> string" where
  "core_error_text (CInvalidInput m) = ''invalid input: '' @ m"
| "core_error_text CBusy = ''another pairing or session transition is in progress''"
| "core_error_text CNotPaired = ''no live session is connected''"
| "core_error_text CQueueFull = ''outbound dispatcher queue is full''"
| "core_error_text (CTransport m) = ''relay transport failed: '' @ m"
| "core_error_text CSasMismatch = ''the confirmed SAS does not match''"
| "core_error_text CShutdown = ''core handle is shut down''"
| "core_error_text (CInternal m) = ''internal failure: '' @ m"

record core_callbacks =
  cb_on_clip :: "ffi_item \<Rightarrow> (core_error + unit) option"
  cb_on_mailbox_clip :: "ffi_item \<Rightarrow> (core_error + ffi_disposition) option"

record error_texts =
  et_transport :: "transport_error \<Rightarrow> string"
  et_pairing :: "pairing_error \<Rightarrow> string"
  et_session :: "session_error \<Rightarrow> string"
  et_callback :: "callback_error \<Rightarrow> string"
  et_history :: "history_error \<Rightarrow> string"

record handle_ops =
  ho_core :: core_ops
  ho_envelope :: "envelope json"
  ho_document :: "document_json json"
  ho_item :: "history_item json"
  ho_qr :: "qr_json json"
  ho_callbacks :: core_callbacks
  ho_texts :: error_texts
  ho_queue_capacity :: nat

abbreviation ho_crates :: "handle_ops \<Rightarrow> crates" where
  "ho_crates ops \<equiv> co_crates (ho_core ops)"

fun ffi_content :: "clip_content \<Rightarrow> ffi_clip_content" where
  "ffi_content (CText t) = FText t"
| "ffi_content (CImage bs) = FImage bs"

definition ffi_clip_item :: "crates \<Rightarrow> clip_item \<Rightarrow> ffi_item" where
  "ffi_clip_item X item = \<lparr>fi_id = uuid_to_string X (ci_id item), fi_ts_ms = ci_ts_ms item,
     fi_seq = ci_seq item, fi_content = ffi_content (ci_content item)\<rparr>"

fun ffi_kind :: "history_kind \<Rightarrow> ffi_history_kind" where
  "ffi_kind (KindText content) = FHText content"
| "ffi_kind (KindImage _) = FHImage"

fun ffi_source :: "history_source \<Rightarrow> ffi_history_source" where
  "ffi_source Local = FHLocal"
| "ffi_source Remote = FHRemote"
| "ffi_source RemoteDeferred = FHRemoteDeferred"

definition ffi_history_item :: "crates \<Rightarrow> history_item \<Rightarrow> ffi_entry" where
  "ffi_history_item X item = \<lparr>fh_id = uuid_to_string X (hi_id item), fh_ts_ms = hi_ts_ms item,
     fh_kind = ffi_kind (hi_kind item), fh_source = ffi_source (hi_source item)\<rparr>"

fun from_transport :: "error_texts \<Rightarrow> transport_error \<Rightarrow> core_error" where
  "from_transport T (TPairing SasMismatch) = CSasMismatch"
| "from_transport T other = CTransport (et_transport T other)"

fun from_pairing :: "error_texts \<Rightarrow> pairing_error \<Rightarrow> core_error" where
  "from_pairing T SasMismatch = CSasMismatch"
| "from_pairing T InvalidServer = CInvalidInput (et_pairing T InvalidServer)"
| "from_pairing T InvalidCode = CInvalidInput (et_pairing T InvalidCode)"
| "from_pairing T e = CInternal (et_pairing T e)"

definition from_session :: "error_texts \<Rightarrow> session_error \<Rightarrow> core_error" where
  "from_session T e = CInternal (et_session T e)"

definition from_history :: "error_texts \<Rightarrow> history_error \<Rightarrow> core_error" where
  "from_history T e = CInternal (et_history T e)"

text \<open>The session's callback object around the shell's.\<close>

fun session_disposition :: "ffi_disposition \<Rightarrow> mailbox_disposition" where
  "session_disposition FApplied = Applied"
| "session_disposition FDeferred = Deferred"

definition ffi_session_callback :: "crates \<Rightarrow> core_callbacks \<Rightarrow> session_callback" where
  "ffi_session_callback X cbs =
     \<lparr>on_clip = (\<lambda>item. map_option (map_err (\<lambda>e. Rejected (core_error_text e))) (cb_on_clip cbs (ffi_clip_item X item))),
      on_mailbox_clip = (\<lambda>item. map_option (\<lambda>r. and_then (map_err (\<lambda>e. Rejected (core_error_text e)) r)
        (\<lambda>d. Inr (session_disposition d))) (cb_on_mailbox_clip cbs (ffi_clip_item X item)))\<rparr>"

section \<open>State of the dispatcher\<close>

record disk =
  dk_pairing :: fs
  dk_session :: "bytes option"
  dk_history :: history_disk

definition put_disk :: "disk \<Rightarrow> session \<Rightarrow> session" where
  "put_disk d s = s\<lparr>ss_file := dk_session d, ss_history := (ss_history s)\<lparr>hs_disk := dk_history d\<rparr>\<rparr>"

definition get_disk :: "session \<Rightarrow> disk \<Rightarrow> disk" where
  "get_disk s d = d\<lparr>dk_session := ss_file s, dk_history := hs_disk (ss_history s)\<rparr>"

record live_connection =
  lc_link :: live_link
  lc_socket :: socket
  lc_session :: session

text \<open>A reply channel is a number.\<close>

datatype command =
    CmdSend clip_content int nat
  | CmdHistory nat
  | CmdHistoryImage uuid nat
  | CmdHistoryApply uuid nat
  | CmdHistoryClear nat
  | CmdIsEcho string nat
  | CmdConnect live_connection nat
  | CmdDisconnect nat

fun reply_to :: "command \<Rightarrow> nat" where
  "reply_to (CmdSend _ _ k) = k"
| "reply_to (CmdHistory k) = k"
| "reply_to (CmdHistoryImage _ k) = k"
| "reply_to (CmdHistoryApply _ k) = k"
| "reply_to (CmdHistoryClear k) = k"
| "reply_to (CmdIsEcho _ k) = k"
| "reply_to (CmdConnect _ k) = k"
| "reply_to (CmdDisconnect k) = k"

text \<open>\<open>RpGone\<close>: the sender of the reply was dropped.\<close>

datatype reply = RpSent "core_error + u64" | RpHistory "core_error + ffi_entry list"
  | RpImage "core_error + bytes" | RpDone "core_error + unit" | RpEcho bool | RpAck | RpGone

datatype shell_event = OStatus core_status | OClip ffi_item | OMailboxClip ffi_item | OReply nat reply

fun replies :: "shell_event list \<Rightarrow> nat list" where
  "replies [] = []"
| "replies (OReply k _ # os) = k # replies os"
| "replies (_ # os) = replies os"

record dispatcher =
  dp_queue :: "command list"
  dp_connection :: "live_connection option"
  dp_open :: bool
  dp_stopped :: bool

text \<open>The outside of one turn: the randomness, clock and faults its calls may use.\<close>

record turn_env =
  te_send :: send_env
  te_attempts :: "attempt list"
  te_receive :: receive_env
  te_now :: int
  te_faults :: history_faults
  te_open :: open_env

section \<open>Operations\<close>

fun call_output :: "crates \<Rightarrow> bool \<times> clip_item \<Rightarrow> shell_event" where
  "call_output X (mailbox, item) = (if mailbox then OMailboxClip (ffi_clip_item X item) else OClip (ffi_clip_item X item))"

fun inbound_status :: "error_texts \<Rightarrow> session_error + inbound_outcome \<Rightarrow> shell_event list" where
  "inbound_status T (Inr _) = []"
| "inbound_status T (Inl (SessionCallback e)) = [OStatus (StError (et_callback T e))]"
| "inbound_status T (Inl e) = [OStatus (StError (et_session T e))]"

definition handle_inbound_clip ::
  "handle_ops \<Rightarrow> turn_env \<Rightarrow> string \<Rightarrow> string \<Rightarrow> bool \<Rightarrow> live_connection \<Rightarrow> disk
   \<Rightarrow> live_connection \<times> disk \<times> shell_event list" where
  "handle_inbound_clip ops env room ciphertext_b64 mailbox c d =
     (case handle_clip (ho_crates ops) (ho_envelope ops) (ho_document ops) (ho_item ops)
             ((te_receive env)\<lparr>re_callback := ffi_session_callback (ho_crates ops) (ho_callbacks ops)\<rparr>)
             room ciphertext_b64 mailbox (te_now env) (put_disk d (lc_session c)) of
        (r, calls, s) \<Rightarrow>
          (c\<lparr>lc_session := s\<rparr>, get_disk s d, map (call_output (ho_crates ops)) calls @
           inbound_status (ho_texts ops) r))"

definition handle_bootstrap ::
  "handle_ops \<Rightarrow> turn_env \<Rightarrow> (string \<times> string) option \<Rightarrow> live_connection \<Rightarrow> disk
   \<Rightarrow> live_connection \<times> disk \<times> shell_event list" where
  "handle_bootstrap ops env boot c d =
     (case boot of None \<Rightarrow> (c, d, []) | Some (room, ciphertext) \<Rightarrow> handle_inbound_clip ops env room ciphertext True c d)"

text \<open>The branch of \<open>send_over_connection\<close> for a link that was closed.\<close>

definition resend ::
  "handle_ops \<Rightarrow> turn_env \<Rightarrow> frame \<Rightarrow> u64 \<Rightarrow> live_connection \<Rightarrow> disk
   \<Rightarrow> ((core_error + u64) \<times> live_connection \<times> disk \<times> shell_event list) option" where
  "resend ops env frame seq c d =
     (case reconnect (ho_core ops) 0 (te_attempts env) (dk_pairing d) of
        ((None, _), _) \<Rightarrow> None
      | ((Some (Inl e), f), _) \<Rightarrow>
          Some (Inl (from_transport (ho_texts ops) e), c, d\<lparr>dk_pairing := f\<rparr>, [OStatus StReconnecting])
      | ((Some (Inr (link, sk)), f), _) \<Rightarrow>
          (case handle_bootstrap ops env (ll_bootstrap_clip link) (c\<lparr>lc_link := link, lc_socket := sk\<rparr>) (d\<lparr>dk_pairing := f\<rparr>) of
             (c, d, os) \<Rightarrow>
               (case link_send (ho_core ops) frame (lc_socket c) of
                  (r, sk) \<Rightarrow> Some (and_then (map_err (from_transport (ho_texts ops)) r) (\<lambda>_. Inr seq),
                    c\<lparr>lc_socket := sk\<rparr>, d, [OStatus StReconnecting] @ os @ [OStatus StConnected]))))"

definition send_over_connection ::
  "handle_ops \<Rightarrow> turn_env \<Rightarrow> clip_content \<Rightarrow> int \<Rightarrow> live_connection \<Rightarrow> disk
   \<Rightarrow> ((core_error + u64) \<times> live_connection \<times> disk \<times> shell_event list) option" where
  "send_over_connection ops env content ts_ms c d =
     (let seq = ds_next_seq (ss_send_state (lc_session c)) in
      case send_clip (ho_crates ops) (ho_envelope ops) (ho_document ops) (ho_item ops) (te_send env) content ts_ms
             (put_disk d (lc_session c)) of
        (Inl e, s) \<Rightarrow> Some (Inl (from_session (ho_texts ops) e), c\<lparr>lc_session := s\<rparr>, get_disk s d, [])
      | (Inr frame, s) \<Rightarrow>
          (case link_send (ho_core ops) frame (lc_socket c) of
             (Inr _, sk) \<Rightarrow> Some (Inr seq, c\<lparr>lc_session := s, lc_socket := sk\<rparr>, get_disk s d, [])
           | (Inl e, sk) \<Rightarrow>
               (if is_transient e then resend ops env frame seq (c\<lparr>lc_session := s, lc_socket := sk\<rparr>) (get_disk s d)
                else Some (Inl (from_transport (ho_texts ops) e), c\<lparr>lc_session := s, lc_socket := sk\<rparr>, get_disk s d, []))))"

definition open_history ::
  "handle_ops \<Rightarrow> turn_env \<Rightarrow> disk \<Rightarrow> (core_error + history_store) \<times> disk" where
  "open_history ops env d =
     (case history_new (ho_crates ops) (ho_item ops) (oe_history (te_open env)) (oe_remove (te_open env))
             (oe_listing (te_open env)) (dk_history d) of
        (r, h) \<Rightarrow> (map_err (from_history (ho_texts ops)) r, d\<lparr>dk_history := h\<rparr>))"

text \<open>What the idle dispatcher does with a history command: open the store, run the operation.\<close>

definition on_idle_history ::
  "handle_ops \<Rightarrow> turn_env \<Rightarrow> (history_store \<Rightarrow> (history_error + 'a) \<times> history_store) \<Rightarrow> disk \<Rightarrow> (core_error + 'a) \<times> disk" where
  "on_idle_history ops env f d =
     (case open_history ops env d of
        (Inl e, d) \<Rightarrow> (Inl e, d)
      | (Inr st, d) \<Rightarrow> (case f st of (r, st) \<Rightarrow> (map_err (from_history (ho_texts ops)) r, d\<lparr>dk_history := hs_disk st\<rparr>)))"

definition close_live_connection :: "shell_event list" where
  "close_live_connection = [OStatus StDisconnected]"

text \<open>The state of the task between two commands: its connection and the disk.\<close>

fun handle_command ::
  "handle_ops \<Rightarrow> turn_env \<Rightarrow> command \<Rightarrow> live_connection option \<Rightarrow> disk
   \<Rightarrow> (live_connection option \<times> disk \<times> shell_event list) option" where
  "handle_command ops env (CmdSend content ts_ms k) (Some c) d =
     map_option (\<lambda>(r, c, d, os). (Some c, d, os @ [OReply k (RpSent r)])) (send_over_connection ops env content ts_ms c d)"
| "handle_command ops env (CmdSend content ts_ms k) None d = Some (None, d, [OReply k (RpSent (Inl CNotPaired))])"
| "handle_command ops env (CmdHistory k) (Some c) d =
     Some (Some c, d, [OReply k (RpHistory (Inr (map (ffi_history_item (ho_crates ops)) (hs_items (ss_history (lc_session c))))))])"
| "handle_command ops env (CmdHistory k) None d =
     (case open_history ops env d of
        (r, d) \<Rightarrow> Some (None, d, [OReply k (RpHistory (and_then r (\<lambda>st. Inr (map (ffi_history_item (ho_crates ops)) (hs_items st)))))]))"
| "handle_command ops env (CmdHistoryImage i k) (Some c) d =
     Some (Some c, d, [OReply k (RpImage (map_err (\<lambda>e. CInternal (et_history (ho_texts ops) e))
       (image_bytes i (ss_history (put_disk d (lc_session c))))))])"
| "handle_command ops env (CmdHistoryImage i k) None d =
     (case on_idle_history ops env (\<lambda>st. (image_bytes i st, st)) d of
        (r, d) \<Rightarrow> Some (None, d, [OReply k (RpImage r)]))"
| "handle_command ops env (CmdHistoryApply i k) (Some c) d =
     (case apply_deferred (ho_crates ops) (ho_item ops) (te_faults env) i (put_disk d (lc_session c)) of
        (r, s) \<Rightarrow> Some (Some (c\<lparr>lc_session := s\<rparr>), get_disk s d,
          [OReply k (RpDone (map_err (\<lambda>e. CInternal (et_session (ho_texts ops) e)) r))]))"
| "handle_command ops env (CmdHistoryApply i k) None d =
     (case on_idle_history ops env (set_source (ho_item ops) (te_faults env) i Remote) d of
        (r, d) \<Rightarrow> Some (None, d, [OReply k (RpDone r)]))"
| "handle_command ops env (CmdHistoryClear k) (Some c) d =
     (case clear_history (ho_item ops) (te_faults env) (put_disk d (lc_session c)) of
        (r, s) \<Rightarrow> Some (Some (c\<lparr>lc_session := s\<rparr>), get_disk s d,
          [OReply k (RpDone (map_err (\<lambda>e. CInternal (et_session (ho_texts ops) e)) r))]))"
| "handle_command ops env (CmdHistoryClear k) None d =
     (case on_idle_history ops env (history_clear (ho_item ops) (te_faults env)) d of
        (r, d) \<Rightarrow> Some (None, d, [OReply k (RpDone r)]))"
| "handle_command ops env (CmdIsEcho hash k) oc d =
     Some (oc, d, [OReply k (RpEcho (case oc of None \<Rightarrow> False | Some c \<Rightarrow> is_echo hash (lc_session c)))])"
| "handle_command ops env (CmdConnect fresh k) oc d =
     (case handle_bootstrap ops env (ll_bootstrap_clip (lc_link fresh)) fresh d of
        (fresh, d, os) \<Rightarrow>
          Some (Some fresh, d, (case oc of None \<Rightarrow> [] | Some _ \<Rightarrow> close_live_connection) @ os
            @ [OReply k RpAck, OStatus StConnected]))"
| "handle_command ops env (CmdDisconnect k) oc d =
     Some (None, d, (case oc of None \<Rightarrow> [] | Some _ \<Rightarrow> close_live_connection) @ [OReply k RpAck])"

definition handle_live_event ::
  "handle_ops \<Rightarrow> turn_env \<Rightarrow> live_event \<Rightarrow> live_connection \<Rightarrow> disk \<Rightarrow> live_connection \<times> disk \<times> shell_event list" where
  "handle_live_event ops env event c d =
     (case event of
        LiveFrame (Clip room ciphertext _ mailbox) \<Rightarrow> handle_inbound_clip ops env room ciphertext mailbox c d
      | LiveFrame _ \<Rightarrow> (c, d, [])
      | Reconnected boot \<Rightarrow>
          (case handle_bootstrap ops env boot c d of (c, d, os) \<Rightarrow> (c, d, OStatus StConnected # os)))"

text \<open>The two branches of the loop of \<open>run_dispatcher\<close>. A closed and empty queue ends it.\<close>

definition command_turn ::
  "handle_ops \<Rightarrow> turn_env \<Rightarrow> dispatcher \<Rightarrow> disk \<Rightarrow> (dispatcher \<times> disk \<times> shell_event list) option" where
  "command_turn ops env dp d =
     (if dp_stopped dp then None
      else case dp_queue dp of
        [] \<Rightarrow> if dp_open dp then None else Some (dp\<lparr>dp_stopped := True, dp_connection := None\<rparr>, d, [])
      | cmd # rest \<Rightarrow>
          map_option (\<lambda>(oc, d, os). (dp\<lparr>dp_queue := rest, dp_connection := oc\<rparr>, d, os))
            (handle_command ops env cmd (dp_connection dp) d))"

definition live_turn ::
  "handle_ops \<Rightarrow> turn_env \<Rightarrow> dispatcher \<Rightarrow> disk \<Rightarrow> (dispatcher \<times> disk \<times> shell_event list) option" where
  "live_turn ops env dp d =
     (if dp_stopped dp then None
      else case dp_connection dp of
        None \<Rightarrow> None
      | Some c \<Rightarrow>
          (case recv_reconnecting (ho_core ops) (te_attempts env) (lc_link c) (lc_socket c) (dk_pairing d) of
             (None, _) \<Rightarrow> None
           | (Some (Inr event), link, sk, f) \<Rightarrow>
               (case handle_live_event ops env event (c\<lparr>lc_link := link, lc_socket := sk\<rparr>) (d\<lparr>dk_pairing := f\<rparr>) of
                  (c, d, os) \<Rightarrow> Some (dp\<lparr>dp_connection := Some c\<rparr>, d, os))
           | (Some (Inl e), link, sk, f) \<Rightarrow>
               Some (dp\<lparr>dp_connection := None\<rparr>, d\<lparr>dk_pairing := f\<rparr>, close_live_connection @ [OStatus StDisconnected])))"

text \<open>The loop, with what reaches the task between its turns: commands in its queue and messages
  or failures of the socket. A turn that is not possible leaves everything as it is.\<close>

datatype dispatch_event = Enqueue command | SocketWorld socket | CommandTurn turn_env | LiveTurn turn_env

fun dispatch ::
  "handle_ops \<Rightarrow> dispatch_event \<Rightarrow> dispatcher \<Rightarrow> disk \<Rightarrow> dispatcher \<times> disk \<times> shell_event list" where
  "dispatch ops (Enqueue cmd) dp d = (dp\<lparr>dp_queue := dp_queue dp @ [cmd]\<rparr>, d, [])"
| "dispatch ops (SocketWorld sk) dp d =
     (dp\<lparr>dp_connection := map_option (\<lambda>c. c\<lparr>lc_socket := sk\<rparr>) (dp_connection dp)\<rparr>, d, [])"
| "dispatch ops (CommandTurn env) dp d = (case command_turn ops env dp d of None \<Rightarrow> (dp, d, []) | Some r \<Rightarrow> r)"
| "dispatch ops (LiveTurn env) dp d = (case live_turn ops env dp d of None \<Rightarrow> (dp, d, []) | Some r \<Rightarrow> r)"

fun run_dispatcher ::
  "handle_ops \<Rightarrow> dispatch_event list \<Rightarrow> dispatcher \<Rightarrow> disk \<Rightarrow> dispatcher \<times> disk \<times> shell_event list" where
  "run_dispatcher ops [] dp d = (dp, d, [])"
| "run_dispatcher ops (ev # evs) dp d =
     (case dispatch ops ev dp d of (dp, d, os) \<Rightarrow>
        (case run_dispatcher ops evs dp d of (dp, d, os') \<Rightarrow> (dp, d, os @ os')))"

section \<open>Replies\<close>

lemma replies_append [simp]: "replies (a @ b) = replies a @ replies b"
  by (induction a rule: replies.induct) simp_all

lemma replies_calls [simp]: "replies (map (call_output X) calls) = []"
  by (induction calls) (auto split: if_splits)

lemma inbound_status_errors: "ev \<in> set (inbound_status T r) \<Longrightarrow> \<exists>m. ev = OStatus (StError m)"
  by (induction T r rule: inbound_status.induct) auto

lemma replies_inbound_status [simp]: "replies (inbound_status T r) = []"
  by (induction T r rule: inbound_status.induct) auto

lemma replies_inbound:
  assumes "handle_inbound_clip ops env room ct mailbox c d = (c', d', os)" shows "replies os = []"
  using assms by (auto simp: handle_inbound_clip_def split: prod.splits)

lemma replies_bootstrap:
  assumes "handle_bootstrap ops env boot c d = (c', d', os)" shows "replies os = []"
  using assms replies_inbound by (auto simp: handle_bootstrap_def split: option.splits)

lemma replies_send:
  assumes "send_over_connection ops env content ts c d = Some (r, c', d', os)" shows "replies os = []"
  using assms replies_bootstrap
  by (fastforce simp: send_over_connection_def resend_def Let_def split: prod.splits sum.splits if_splits option.splits)

lemma handle_command_replies:
  assumes "handle_command ops env cmd oc d = Some (oc', d', os)" shows "replies os = [reply_to cmd]"
  using assms replies_bootstrap
  by (induction ops env cmd oc d rule: handle_command.induct)
     (auto simp: close_live_connection_def dest!: replies_send split: prod.splits option.splits)

lemma command_turn_fields:
  assumes "command_turn ops env dp d = Some (dp', d', os)"
  shows "map reply_to (dp_queue dp) = replies os @ map reply_to (dp_queue dp')" "dp_open dp' = dp_open dp"
    "dp_stopped dp' \<longleftrightarrow> dp_queue dp = [] \<and> \<not> dp_open dp" "length (dp_queue dp') \<le> length (dp_queue dp)" "\<not> dp_stopped dp"
  using assms by (auto simp: command_turn_def dest!: handle_command_replies split: if_splits list.splits)

lemma handle_live_event_replies:
  assumes "handle_live_event ops env ev c d = (c', d', os)" shows "replies os = []"
  using assms replies_inbound replies_bootstrap
  by (fastforce simp: handle_live_event_def split: live_event.splits frame.splits prod.splits)

lemma live_turn_fields:
  assumes "live_turn ops env dp d = Some (dp', d', os)"
  shows "dp_queue dp' = dp_queue dp" "dp_open dp' = dp_open dp" "dp_stopped dp' = dp_stopped dp" "replies os = []" "\<not> dp_stopped dp"
  using assms
  by (auto simp: live_turn_def close_live_connection_def dest!: handle_live_event_replies
      split: if_splits option.splits prod.splits sum.splits)

section \<open>The session behind the dispatcher\<close>

definition world_of :: "handle_ops \<Rightarrow> identity \<Rightarrow> pairing_record \<Rightarrow> session_world" where
  "world_of ops i r = \<lparr>sw_crates = ho_crates ops, sw_envelope = ho_envelope ops, sw_document = ho_document ops,
     sw_item = ho_item ops, sw_identity = i, sw_record = r\<rparr>"

lemma world_of_simps [simp]:
  "sw_crates (world_of ops i r) = ho_crates ops" "sw_envelope (world_of ops i r) = ho_envelope ops"
  "sw_document (world_of ops i r) = ho_document ops" "sw_item (world_of ops i r) = ho_item ops"
  "sw_identity (world_of ops i r) = i" "sw_record (world_of ops i r) = r"
  by (simp_all add: world_of_def)

text \<open>The session of the connection and the disk hold the same files.\<close>

definition owns :: "session \<Rightarrow> disk \<Rightarrow> bool" where
  "owns s d \<longleftrightarrow> ss_file s = dk_session d \<and> hs_disk (ss_history s) = dk_history d"

lemma owns_put [simp]: "owns s d \<Longrightarrow> put_disk d s = s"
  by (simp add: owns_def put_disk_def)

lemma owns_get [simp]: "owns s (get_disk s d)"
  by (simp add: owns_def get_disk_def)

lemma owns_pairing [simp]: "owns s (d\<lparr>dk_pairing := f\<rparr>) = owns s d"
  by (simp add: owns_def)

definition conn_floors :: "session_world \<Rightarrow> u64 \<Rightarrow> u64 \<Rightarrow> live_connection option \<Rightarrow> disk \<Rightarrow> bool" where
  "conn_floors w L M oc d \<longleftrightarrow> (case oc of
     None \<Rightarrow> file_floor w L M (dk_session d)
   | Some c \<Rightarrow> owns (lc_session c) d \<and> floors w L M (Running (lc_session c)))"

text \<open>The sequence numbers of the clips handed to the shell and of the successful sends.\<close>

fun clip_seqs :: "shell_event list \<Rightarrow> u64 list" where
  "clip_seqs [] = []"
| "clip_seqs (OClip item # os) = fi_seq item # clip_seqs os"
| "clip_seqs (OMailboxClip item # os) = fi_seq item # clip_seqs os"
| "clip_seqs (_ # os) = clip_seqs os"

fun reported_seqs :: "shell_event list \<Rightarrow> u64 list" where
  "reported_seqs [] = []"
| "reported_seqs (OReply _ (RpSent (Inr q)) # os) = q # reported_seqs os"
| "reported_seqs (_ # os) = reported_seqs os"

lemma seqs_of_append [simp]:
  "clip_seqs (a @ b) = clip_seqs a @ clip_seqs b" "reported_seqs (a @ b) = reported_seqs a @ reported_seqs b"
  by (induction a rule: clip_seqs.induct; simp) (induction a rule: reported_seqs.induct; simp)

lemma seqs_of_inbound_status [simp]: "clip_seqs (inbound_status T r) = []" "reported_seqs (inbound_status T r) = []"
  by (induction T r rule: inbound_status.induct) auto

lemma seqs_of_calls [simp]:
  "clip_seqs (map (call_output X) calls) = map (\<lambda>(_, item). ci_seq item) calls" "reported_seqs (map (call_output X) calls) = []"
  by (induction calls) (auto simp: ffi_clip_item_def split: if_splits)

text \<open>What one turn may add: numbers above the floors, below the new floors, in order.\<close>

definition raised :: "u64 \<Rightarrow> u64 \<Rightarrow> u64 \<Rightarrow> u64 \<Rightarrow> shell_event list \<Rightarrow> bool" where
  "raised L M L' M' os \<longleftrightarrow> L \<le> L' \<and> M \<le> M'
     \<and> sorted_wrt (<) (clip_seqs os) \<and> (\<forall>q \<in> set (clip_seqs os). L < q \<and> q \<le> L')
     \<and> sorted_wrt (<) (reported_seqs os) \<and> (\<forall>q \<in> set (reported_seqs os). M \<le> q \<and> q < M')"

lemma raised_quiet: "clip_seqs os = [] \<Longrightarrow> reported_seqs os = [] \<Longrightarrow> raised L M L M os"
  by (simp add: raised_def)

lemma raised_none [simp]: "raised L M L M []"
  by (simp add: raised_def)

lemma raised_trans:
  assumes "raised L M L1 M1 os" "raised L1 M1 L2 M2 os'" shows "raised L M L2 M2 (os @ os')"
  using assms unfolding raised_def by (fastforce simp: sorted_wrt_append intro: order.trans order.strict_trans1 order.strict_trans2)

lemma inbound_raises:
  assumes "world_ok (world_of ops i r)" "conn_floors (world_of ops i r) L M (Some c) d"
    and "handle_inbound_clip ops env room ct mailbox c d = (c', d', os)"
  shows "\<exists>L'. conn_floors (world_of ops i r) L' M (Some c') d' \<and> raised L M L' M os"
proof -
  let ?w = "world_of ops i r"
  let ?env = "((te_receive env)\<lparr>re_callback := ffi_session_callback (ho_crates ops) (ho_callbacks ops)\<rparr>)\<lparr>re_fail_at := None\<rparr>"
  have own: "owns (lc_session c) d" and fl: "floors ?w L M (Running (lc_session c))"
    using assms(2) by (simp_all add: conn_floors_def del: floors.simps)
  obtain q calls s where run: "handle_clip_with_fault (sw_crates ?w) (sw_envelope ?w) (sw_document ?w) (sw_item ?w)
      ?env room ct mailbox (te_now env) (lc_session c) = (q, calls, s)" by (metis prod_cases3)
  from receive_floor [OF assms(1) fl run] obtain L' where L': "floors ?w L' M (Running s)" "L \<le> L'"
    "calls = [] \<or> (\<exists>mb item. calls = [(mb, item)] \<and> L < ci_seq item \<and> ci_seq item \<le> L')" by blast
  have res: "c' = c\<lparr>lc_session := s\<rparr>" "d' = get_disk s d" "clip_seqs os = map (\<lambda>(_, item). ci_seq item) calls" "reported_seqs os = []"
    using assms(3) run own by (auto simp: handle_inbound_clip_def handle_clip_def)
  show ?thesis
    by (rule exI [of _ L']) (use L' res in \<open>auto simp: conn_floors_def raised_def simp del: floors.simps\<close>)
qed

lemma bootstrap_raises:
  assumes "world_ok (world_of ops i r)" "conn_floors (world_of ops i r) L M (Some c) d"
    and "handle_bootstrap ops env boot c d = (c', d', os)"
  shows "\<exists>L'. conn_floors (world_of ops i r) L' M (Some c') d' \<and> raised L M L' M os"
proof (cases boot)
  case None
  then show ?thesis using assms(2,3) by (intro exI [of _ L]) (auto simp: handle_bootstrap_def intro: raised_quiet)
next
  case (Some rc)
  then show ?thesis using inbound_raises [OF assms(1,2)] assms(3) by (cases rc) (auto simp: handle_bootstrap_def)
qed

lemma reported_are_replies: "replies os = [] \<Longrightarrow> reported_seqs os = []"
  by (induction os rule: reported_seqs.induct) auto

lemma resend_raises:
  assumes "world_ok (world_of ops i r)" "conn_floors (world_of ops i r) L M' (Some c) d" "M \<le> n" "n < M'"
    and "resend ops env frame n c d = Some (q, c', d', os)"
  shows "\<exists>L'. conn_floors (world_of ops i r) L' M' (Some c') d' \<and> raised L M L' M' (os @ [OReply k (RpSent q)])"
proof -
  let ?w = "world_of ops i r"
  have M: "M \<le> M'" using assms(3,4) by simp
  obtain o1 f ds where rec: "reconnect (ho_core ops) 0 (te_attempts env) (dk_pairing d) = ((o1, f), ds)"
    by (metis prod.collapse)
  consider (none) "o1 = None" | (fails) e where "o1 = Some (Inl e)" | (joined) link sk where "o1 = Some (Inr (link, sk))"
    by (metis option.exhaust prod.collapse sumE)
  then show ?thesis
  proof cases
    case none
    then show ?thesis using assms(5) rec by (simp add: resend_def)
  next
    case fails
    then show ?thesis using assms(2,5) rec M
      by (intro exI [of _ L]) (auto simp: resend_def raised_def conn_floors_def simp del: floors.simps)
  next
    case joined
    let ?c = "c\<lparr>lc_link := link, lc_socket := sk\<rparr>" and ?d = "d\<lparr>dk_pairing := f\<rparr>"
    have fl: "conn_floors ?w L M' (Some ?c) ?d" using assms(2) by (simp add: conn_floors_def del: floors.simps)
    obtain c2 d2 os2 where boot: "handle_bootstrap ops env (ll_bootstrap_clip link) ?c ?d = (c2, d2, os2)"
      by (metis prod_cases3)
    obtain L' where L': "conn_floors ?w L' M' (Some c2) d2" "raised L M' L' M' os2"
      using bootstrap_raises [OF assms(1) fl boot] by blast
    obtain b sk2 where again: "link_send (ho_core ops) frame (lc_socket c2) = (b, sk2)" by fastforce
    have res: "q = and_then (map_err (from_transport (ho_texts ops)) b) (\<lambda>_. Inr n)" "c' = c2\<lparr>lc_socket := sk2\<rparr>" "d' = d2"
      "os = OStatus StReconnecting # os2 @ [OStatus StConnected]"
      using assms(5) joined rec boot again by (auto simp: resend_def)
    have "conn_floors ?w L' M' (Some c') d'" using L'(1) res by (simp add: conn_floors_def del: floors.simps)
    moreover have "raised L M L' M' (os @ [OReply k (RpSent q)])"
      using L'(2) reported_are_replies [OF replies_bootstrap [OF boot]] M assms(3,4) res(1,4) by (cases b) (auto simp: raised_def)
    ultimately show ?thesis by blast
  qed
qed

lemma send_raises:
  assumes "world_ok (world_of ops i r)" "conn_floors (world_of ops i r) L M (Some c) d"
    and "send_over_connection ops env content ts c d = Some (q, c', d', os)"
  shows "\<exists>L' M'. conn_floors (world_of ops i r) L' M' (Some c') d' \<and> raised L M L' M' (os @ [OReply k (RpSent q)])"
proof -
  let ?w = "world_of ops i r" and ?n = "ds_next_seq (ss_send_state (lc_session c))"
  have own: "owns (lc_session c) d" and fl: "floors ?w L M (Running (lc_session c))"
    using assms(2) by (simp_all add: conn_floors_def del: floors.simps)
  obtain p s where run: "send_clip_with_fault (sw_crates ?w) (ho_envelope ops) (sw_document ?w) (ho_item ops)
      ((te_send env)\<lparr>se_fail_at := None\<rparr>) content ts (lc_session c) = (p, s)" by fastforce
  from send_floor [OF assms(1) fl run] obtain M' where M': "floors ?w L M' (Running s)" "M \<le> M'"
    "is_ok p \<longrightarrow> M \<le> ?n \<and> ?n < M'" by blast
  have here: "conn_floors ?w L M' (Some (c\<lparr>lc_session := s, lc_socket := sk\<rparr>)) (get_disk s d)"
    "conn_floors ?w L M' (Some (c\<lparr>lc_session := s\<rparr>)) (get_disk s d)" for sk
    using M'(1) by (simp_all add: conn_floors_def del: floors.simps)
  have quiet: "raised L M L M' [OReply k (RpSent (Inl e))]" for e using M'(2) by (simp add: raised_def)
  note step = assms(3) [unfolded send_over_connection_def send_clip_def owns_put [OF own] Let_def
      run [unfolded world_of_simps] prod.case]
  show ?thesis
  proof (cases p)
    case (Inl e)
    then show ?thesis using step here(2) quiet by (intro exI [of _ L] exI [of _ M']) auto
  next
    case (Inr frame)
    then have n: "raised L M L M' [OReply k (RpSent (Inr ?n))]" "M \<le> ?n" "?n < M'" using M' by (simp_all add: raised_def)
    obtain a sk where sent: "link_send (ho_core ops) frame (lc_socket c) = (a, sk)" by fastforce
    show ?thesis
    proof (cases "\<exists>e. a = Inl e \<and> is_transient e")
      case False
      with step sent Inr here(1) n(1) quiet show ?thesis
        by (intro exI [of _ L] exI [of _ M']) (auto split: sum.splits if_splits)
    next
      case True
      with step sent Inr have "resend ops env frame ?n (c\<lparr>lc_session := s, lc_socket := sk\<rparr>) (get_disk s d) = Some (q, c', d', os)"
        by auto
      from resend_raises [OF assms(1) here(1) n(2,3) this] show ?thesis by blast
    qed
  qed
qed

text \<open>History operations keep what the floors speak of.\<close>

lemma floors_cong:
  assumes "floors w L M (Running s)" "ss_file s' = ss_file s" "ss_send_state s' = ss_send_state s" "ss_recv_state s' = ss_recv_state s"
    "ss_send_key s' = ss_send_key s" "ss_recv_key s' = ss_recv_key s"
  shows "floors w L M (Running s')"
  using assms by simp

lemma history_operations_frame:
  assumes "apply_deferred X JH hf i s = (r, s') \<or> clear_history JH hf s = (r, s')"
  shows "ss_file s' = ss_file s" "ss_send_state s' = ss_send_state s" "ss_recv_state s' = ss_recv_state s"
    "ss_send_key s' = ss_send_key s" "ss_recv_key s' = ss_recv_key s"
  using assms
  by (auto simp: apply_deferred_def clear_history_def register_echo_def Let_def
      split: prod.splits sum.splits option.splits history_kind.splits if_splits)

lemma idle_history_session:
  "open_history ops env d = (r, d') \<Longrightarrow> dk_session d' = dk_session d"
  "on_idle_history ops env f d = (q, d') \<Longrightarrow> dk_session d' = dk_session d"
  by (auto simp: open_history_def on_idle_history_def split: prod.splits sum.splits)

lemma history_command_keeps:
  assumes "conn_floors w L M (Some c) d"
    and "apply_deferred X JH hf i (put_disk d (lc_session c)) = (r, s) \<or> clear_history JH hf (put_disk d (lc_session c)) = (r, s)"
  shows "conn_floors w L M (Some (c\<lparr>lc_session := s\<rparr>)) (get_disk s d)"
proof -
  have "floors w L M (Running (lc_session c))" "put_disk d (lc_session c) = lc_session c"
    using assms(1) by (auto simp: conn_floors_def simp del: floors.simps)
  with assms(2) show ?thesis
    using floors_cong [OF _ history_operations_frame [of X JH hf i "lc_session c" r s]] by (simp add: conn_floors_def del: floors.simps)
qed

lemma disconnected_floors: "conn_floors w L M oc d \<Longrightarrow> conn_floors w L M None d"
  by (cases oc) (auto simp: conn_floors_def owns_def)

fun is_connect :: "command \<Rightarrow> bool" where
  "is_connect (CmdConnect _ _) = True"
| "is_connect _ = False"

lemma command_raises:
  assumes "world_ok (world_of ops i r)" "conn_floors (world_of ops i r) L M oc d" "\<not> is_connect cmd"
    and "handle_command ops env cmd oc d = Some (oc', d', os)"
  shows "\<exists>L' M'. conn_floors (world_of ops i r) L' M' oc' d' \<and> raised L M L' M' os"
proof -
  let ?w = "world_of ops i r"
  have quiet: ?thesis if "conn_floors ?w L M oc' d'" "clip_seqs os = []" "reported_seqs os = []"
    using that raised_quiet by blast
  have idle: "conn_floors ?w L M None d''" if "dk_session d'' = dk_session d" "oc = None" for d''
    using assms(2) that by (simp add: conn_floors_def)
  show ?thesis
  proof (cases cmd)
    case (CmdSend content ts k)
    show ?thesis
    proof (cases oc)
      case None
      then show ?thesis using assms(2,4) CmdSend by (intro quiet) auto
    next
      case (Some c)
      then obtain q c' os' where "send_over_connection ops env content ts c d = Some (q, c', d', os')" "oc' = Some c'"
        "os = os' @ [OReply k (RpSent q)]" using assms(4) CmdSend by auto
      then show ?thesis using send_raises [OF assms(1)] assms(2) Some by blast
    qed
  next
    case (CmdHistory k)
    then show ?thesis using assms(2,4) idle_history_session(1) by (intro quiet; cases oc) (auto split: prod.splits intro!: idle)
  next
    case (CmdHistoryImage j k)
    then show ?thesis using assms(2,4) idle_history_session(2) by (intro quiet; cases oc) (auto split: prod.splits intro!: idle)
  next
    case (CmdHistoryApply j k)
    then show ?thesis using assms(2,4) idle_history_session(2)
      by (intro quiet; cases oc) (auto split: prod.splits intro!: idle elim!: history_command_keeps [OF _ disjI1])
  next
    case (CmdHistoryClear k)
    then show ?thesis using assms(2,4) idle_history_session(2)
      by (intro quiet; cases oc) (auto split: prod.splits intro!: idle elim!: history_command_keeps [OF _ disjI2])
  next
    case (CmdIsEcho hash k)
    then show ?thesis using assms(2,4) by (intro quiet) auto
  next
    case (CmdDisconnect k)
    then show ?thesis using assms(4) disconnected_floors [OF assms(2)]
      by (intro quiet) (auto simp: close_live_connection_def split: option.splits)
  qed (use assms(3) in simp)
qed

lemma command_turn_raises:
  assumes "world_ok (world_of ops i r)" "conn_floors (world_of ops i r) L M (dp_connection dp) d"
    and "\<not> list_ex is_connect (dp_queue dp)" "command_turn ops env dp d = Some (dp', d', os)"
  shows "\<exists>L' M'. conn_floors (world_of ops i r) L' M' (dp_connection dp') d' \<and> raised L M L' M' os
    \<and> \<not> list_ex is_connect (dp_queue dp')"
proof (cases "dp_queue dp")
  case Nil
  then show ?thesis using assms(4) disconnected_floors [OF assms(2)]
    by (intro exI [of _ L] exI [of _ M]) (auto simp: command_turn_def intro: raised_quiet split: if_splits)
next
  case (Cons cmd rest)
  then obtain oc where oc: "handle_command ops env cmd (dp_connection dp) d = Some (oc, d', os)"
    "dp' = dp\<lparr>dp_queue := rest, dp_connection := oc\<rparr>"
    using assms(4) by (auto simp: command_turn_def split: if_splits)
  have "\<not> is_connect cmd" "\<not> list_ex is_connect rest" using assms(3) Cons by simp_all
  with command_raises [OF assms(1,2) _ oc(1)] oc(2) show ?thesis by simp
qed

lemma live_turn_raises:
  assumes "world_ok (world_of ops i r)" "conn_floors (world_of ops i r) L M (dp_connection dp) d"
    and "live_turn ops env dp d = Some (dp', d', os)"
  shows "\<exists>L' M'. conn_floors (world_of ops i r) L' M' (dp_connection dp') d' \<and> raised L M L' M' os"
proof -
  let ?w = "world_of ops i r"
  obtain c where c: "dp_connection dp = Some c" using assms(3) by (auto simp: live_turn_def split: if_splits option.splits)
  obtain ev link sk f where rv: "recv_reconnecting (ho_core ops) (te_attempts env) (lc_link c) (lc_socket c) (dk_pairing d) = (ev, link, sk, f)"
    by (metis prod_cases4)
  let ?c = "c\<lparr>lc_link := link, lc_socket := sk\<rparr>" and ?d = "d\<lparr>dk_pairing := f\<rparr>"
  have fl: "conn_floors ?w L M (Some ?c) ?d" using assms(2) c by (simp add: conn_floors_def del: floors.simps)
  consider (fails) e where "ev = Some (Inl e)" | (event) e where "ev = Some (Inr e)"
    using assms(3) c rv by (auto simp: live_turn_def split: if_splits option.splits sum.splits)
  then show ?thesis
  proof cases
    case fails
    then show ?thesis using assms(3) c rv disconnected_floors [OF fl]
      by (intro exI [of _ L] exI [of _ M]) (auto simp: live_turn_def close_live_connection_def intro: raised_quiet split: if_splits)
  next
    case event
    obtain c' d'' os' where h: "handle_live_event ops env e ?c ?d = (c', d'', os')" by (metis prod_cases3)
    have res: "dp' = dp\<lparr>dp_connection := Some c'\<rparr>" "d' = d''" "os = os'"
      using assms(3) c rv event h by (auto simp: live_turn_def split: if_splits)
    have "\<exists>L'. conn_floors ?w L' M (Some c') d'' \<and> raised L M L' M os'"
    proof (cases e)
      case (LiveFrame fr)
      show ?thesis
      proof (cases "\<exists>room ct o' mb. fr = Clip room ct o' mb")
        case True
        then show ?thesis using h LiveFrame inbound_raises [OF assms(1) fl] by (auto simp: handle_live_event_def)
      next
        case False
        then have "(c', d'', os') = (?c, ?d, [])" using h LiveFrame by (cases fr) (auto simp: handle_live_event_def)
        then show ?thesis using fl by (intro exI [of _ L]) simp
      qed
    next
      case (Reconnected boot)
      obtain os1 where b: "handle_bootstrap ops env boot ?c ?d = (c', d'', os1)" "os' = OStatus StConnected # os1"
        using h Reconnected by (auto simp: handle_live_event_def split: prod.splits)
      then show ?thesis using bootstrap_raises [OF assms(1) fl b(1)] by (auto simp: raised_def)
    qed
    then show ?thesis using res by auto
  qed
qed

fun enqueues_connect :: "dispatch_event \<Rightarrow> bool" where
  "enqueues_connect (Enqueue cmd) = is_connect cmd"
| "enqueues_connect _ = False"

lemma dispatch_raises:
  assumes "world_ok (world_of ops i r)" "conn_floors (world_of ops i r) L M (dp_connection dp) d"
    and "\<not> list_ex is_connect (dp_queue dp)" "\<not> enqueues_connect ev" "dispatch ops ev dp d = (dp', d', os)"
  shows "\<exists>L' M'. conn_floors (world_of ops i r) L' M' (dp_connection dp') d' \<and> raised L M L' M' os
    \<and> \<not> list_ex is_connect (dp_queue dp')"
proof (cases ev)
  case (Enqueue cmd)
  then show ?thesis using assms by (intro exI [of _ L] exI [of _ M]) (auto intro: raised_quiet)
next
  case (SocketWorld sk)
  then show ?thesis using assms
    by (intro exI [of _ L] exI [of _ M])
       (cases "dp_connection dp"; auto simp: conn_floors_def intro: raised_quiet simp del: floors.simps)
next
  case (CommandTurn env)
  then show ?thesis
  proof (cases "command_turn ops env dp d")
    case None
    with CommandTurn assms show ?thesis by (intro exI [of _ L] exI [of _ M]) auto
  next
    case (Some t)
    with CommandTurn assms(5) command_turn_raises [OF assms(1-3)] show ?thesis by simp
  qed
next
  case (LiveTurn env)
  then show ?thesis
  proof (cases "live_turn ops env dp d")
    case None
    with LiveTurn assms show ?thesis by (intro exI [of _ L] exI [of _ M]) auto
  next
    case (Some t)
    with LiveTurn assms(3,5) live_turn_raises [OF assms(1,2)] live_turn_fields(1) [of ops env dp d dp' d' os] show ?thesis by simp
  qed
qed

lemma run_dispatcher_raises:
  assumes "world_ok (world_of ops i r)" "conn_floors (world_of ops i r) L M (dp_connection dp) d"
    and "\<not> list_ex is_connect (dp_queue dp)" "\<not> list_ex enqueues_connect evs" "run_dispatcher ops evs dp d = (dp', d', os)"
  shows "\<exists>L' M'. raised L M L' M' os"
  using assms(2-)
proof (induction evs arbitrary: L M dp d os)
  case Nil
  then show ?case by (intro exI [of _ L] exI [of _ M]) simp
next
  case (Cons ev evs)
  obtain dp1 d1 os1 where one: "dispatch ops ev dp d = (dp1, d1, os1)" by (metis prod_cases3)
  obtain dp2 d2 os2 where rest: "run_dispatcher ops evs dp1 d1 = (dp2, d2, os2)" by (metis prod_cases3)
  have os: "os = os1 @ os2" "dp2 = dp'" "d2 = d'" using Cons.prems(4) one rest by simp_all
  from dispatch_raises [OF assms(1) Cons.prems(1,2) _ one] Cons.prems(3) obtain L1 M1 where
    s: "conn_floors (world_of ops i r) L1 M1 (dp_connection dp1) d1" "raised L M L1 M1 os1" "\<not> list_ex is_connect (dp_queue dp1)" by auto
  from Cons.IH [OF s(1,3) _ rest [unfolded os]] Cons.prems(3) obtain L2 M2 where "raised L1 M1 L2 M2 os2" by auto
  with raised_trans [OF s(2)] os show ?case by blast
qed

section \<open>Failing callbacks\<close>

text \<open>The shell returned an error from the callback of this event, or panicked in it.\<close>

fun callback_fails :: "core_callbacks \<Rightarrow> shell_event \<Rightarrow> bool" where
  "callback_fails cbs (OClip item) \<longleftrightarrow> (case cb_on_clip cbs item of None \<Rightarrow> True | Some r \<Rightarrow> \<not> is_ok r)"
| "callback_fails cbs (OMailboxClip item) \<longleftrightarrow> (case cb_on_mailbox_clip cbs item of None \<Rightarrow> True | Some r \<Rightarrow> \<not> is_ok r)"
| "callback_fails cbs _ \<longleftrightarrow> False"

lemma failed_invocation:
  assumes "callback_fails cbs (call_output X (mb, item))"
  shows "\<exists>e. invoke_callback (ffi_session_callback X cbs) item mb = Inl e"
proof (cases mb)
  case True
  then show ?thesis using assms
    by (cases "cb_on_mailbox_clip cbs (ffi_clip_item X item)"; cases "the (cb_on_mailbox_clip cbs (ffi_clip_item X item))")
       (auto simp: invoke_callback_def ffi_session_callback_def)
next
  case False
  then show ?thesis using assms
    by (cases "cb_on_clip cbs (ffi_clip_item X item)"; cases "the (cb_on_clip cbs (ffi_clip_item X item))")
       (auto simp: invoke_callback_def ffi_session_callback_def)
qed

lemma failed_callback_reported:
  assumes "handle_clip_with_fault X JE J JH env room ct mailbox now s = (r, [(mb, item)], s')"
    and "invoke_callback (re_callback env) item mb = Inl e"
  shows "r = Inl (SessionCallback e)"
  using assms(1)
proof (cases rule: handle_clip_cases)
  case (accepted item' src q fl)
  then have "record_and_deliver X J JH env item' (is_fresh mailbox (ci_ts_ms item') now) src
      (s\<lparr>ss_file := fl, ss_recv_state := delivered_state X item' src (ss_recv_state s)\<rparr>) = (r, [(mb, item)], s')" by auto
  then show ?thesis
  proof (cases rule: record_and_deliver_cases)
    case (added h)
    from added(2) show ?thesis
    proof (cases rule: clear_pending_cases)
      case (called fl2)
      with assms(2) show ?thesis by (auto simp: deliver_def split: if_splits)
    qed simp_all
  qed simp
qed simp

text \<open>C27: a callback error or panic never ends the session and never loses the item. Whatever the
  shell's callbacks do with an inbound clip, the connection keeps its link, its socket and its keys
  and no disconnect is reported; every item handed to a callback is in the list that the history
  command returns; and when its callback fails, an error status reaches the shell.\<close>

theorem callback_failure_survives:
  assumes "session_laws (ho_crates ops) (ho_document ops)" "history_ok (ho_crates ops) (ss_history (lc_session c))"
    and "handle_inbound_clip ops env room ct mailbox c d = (c', d', os)"
  shows "lc_link c' = lc_link c \<and> lc_socket c' = lc_socket c \<and> ss_keys (lc_session c') = ss_keys (lc_session c)
    \<and> OStatus StDisconnected \<notin> set os
    \<and> (\<forall>item ev. ev = OClip item \<or> ev = OMailboxClip item \<longrightarrow> ev \<in> set os \<longrightarrow>
        fi_id item \<in> fh_id ` set (map (ffi_history_item (ho_crates ops)) (hs_items (ss_history (lc_session c'))))
        \<and> (callback_fails (ho_callbacks ops) ev \<longrightarrow> (\<exists>m. OStatus (StError m) \<in> set os)))"
proof -
  let ?X = "ho_crates ops" and ?cb = "ffi_session_callback (ho_crates ops) (ho_callbacks ops)"
  let ?env = "((te_receive env)\<lparr>re_callback := ?cb\<rparr>)\<lparr>re_fail_at := None\<rparr>"
  obtain r calls s where run: "handle_clip_with_fault ?X (ho_envelope ops) (ho_document ops) (ho_item ops) ?env
      room ct mailbox (te_now env) (put_disk d (lc_session c)) = (r, calls, s)" by (metis prod_cases3)
  have res: "c' = c\<lparr>lc_session := s\<rparr>" and os: "os = map (call_output ?X) calls @ inbound_status (ho_texts ops) r"
    using assms(3) run by (simp_all add: handle_inbound_clip_def handle_clip_def)
  have ok: "history_ok ?X (ss_history (put_disk d (lc_session c)))" using assms(2) by (simp add: put_disk_def history_ok_def)
  have keys: "ss_keys s = ss_keys (lc_session c)" using handle_clip_static [OF run] by (simp add: put_disk_def)
  have quiet: "OStatus StDisconnected \<notin> set os"
    unfolding os by (auto dest: inbound_status_errors split: if_splits)
  have "fi_id item \<in> fh_id ` set (map (ffi_history_item ?X) (hs_items (ss_history s)))
      \<and> (callback_fails (ho_callbacks ops) ev \<longrightarrow> (\<exists>m. OStatus (StError m) \<in> set os))"
    if ev: "ev = OClip item \<or> ev = OMailboxClip item" "ev \<in> set os" for item ev
  proof -
    have "ev \<in> set (map (call_output ?X) calls)" using ev unfolding os by (auto dest: inbound_status_errors)
    then have "calls \<noteq> []" by auto
    from durable_callback [OF assms(1) ok run this] obtain it where it:
      "calls = [(\<not> is_fresh mailbox (ci_ts_ms it) (te_now env), it)]" "ci_id it \<in> history_ids (ss_history s)" by blast
    let ?mb = "\<not> is_fresh mailbox (ci_ts_ms it) (te_now env)"
    have e: "ev = call_output ?X (?mb, it)" using \<open>ev \<in> set (map (call_output ?X) calls)\<close> it(1) by simp
    have "fi_id item = uuid_to_string ?X (ci_id it)" using e ev(1) by (auto simp: ffi_clip_item_def split: if_splits)
    then have listed: "fi_id item \<in> fh_id ` set (map (ffi_history_item ?X) (hs_items (ss_history s)))"
      using it(2) by (auto simp: history_ids_def ffi_history_item_def image_iff)
    moreover have "\<exists>m. OStatus (StError m) \<in> set os" if "callback_fails (ho_callbacks ops) ev"
    proof -
      from failed_invocation [OF that [unfolded e]] obtain x where "invoke_callback ?cb it ?mb = Inl x" ..
      then have "r = Inl (SessionCallback x)" using failed_callback_reported [OF run [unfolded it(1)]] by simp
      then show ?thesis unfolding os by auto
    qed
    ultimately show ?thesis by blast
  qed
  then show ?thesis using keys quiet res by simp
qed

text \<open>A shell whose live callback panics.\<close>

definition demo_texts :: error_texts where
  "demo_texts = \<lparr>et_transport = (\<lambda>_. ''transport''), et_pairing = (\<lambda>_. ''pairing''), et_session = (\<lambda>_. ''session''),
     et_callback = (\<lambda>_. ''callback''), et_history = (\<lambda>_. ''history'')\<rparr>"

definition demo_handle_ops :: handle_ops where
  "demo_handle_ops = \<lparr>ho_core = demo_core_ops, ho_envelope = demo_envelope_json, ho_document = demo_documents_json,
     ho_item = demo_items_json, ho_qr = demo_qr_json,
     ho_callbacks = \<lparr>cb_on_clip = (\<lambda>_. None), cb_on_mailbox_clip = (\<lambda>_. Some (Inr FDeferred))\<rparr>,
     ho_texts = demo_texts, ho_queue_capacity = 32\<rparr>"

definition demo_turn :: turn_env where
  "demo_turn = \<lparr>te_send = demo_send_env, te_attempts = [], te_receive = demo_receive_env, te_now = 1000, te_faults = demo_faults,
     te_open = \<lparr>oe_history = (False, False), oe_remove = (\<lambda>_. False), oe_listing = [],
       oe_start = \<lparr>st_read_send = False, st_read_recv = False, st_add = (\<lambda>_. demo_faults), st_commit = demo_commit\<rparr>\<rparr>\<rparr>"

definition demo_disk :: disk where
  "demo_disk = \<lparr>dk_pairing = (\<lambda>_. None), dk_session = None, dk_history = hs_disk empty_history\<rparr>"

definition demo_connection :: live_connection where
  "demo_connection = \<lparr>lc_link = \<lparr>ll_identity = demo_identity 2, ll_record = demo_party 2 1, ll_bootstrap_clip = None\<rparr>,
     lc_socket = demo_socket 3 [], lc_session = demo_session 2 1\<rparr>"

lemma demo_owns: "owns (demo_session a b) demo_disk"
  by (simp add: owns_def demo_disk_def demo_session_def open_session_def Let_def)

lemma demo_panics:
  "\<exists>s'. handle_clip_with_fault demo_crates demo_envelope_json demo_documents_json demo_items_json
     (demo_receive_env\<lparr>re_callback := ffi_session_callback demo_crates (ho_callbacks demo_handle_ops), re_fail_at := None\<rparr>)
     (ss_room_id (demo_session 2 1)) demo_ciphertext False 1000 (demo_session 2 1) = (Inl (SessionCallback Panicked), [(False, demo_clip)], s')"
proof -
  let ?J = demo_documents_json and ?k = "ss_recv_key (demo_session 2 1)"
  let ?c = "demo_delivered\<lparr>ds_pending := []\<rparr>"
  obtain d1 d2 where d: "commit_direction demo_crates ?J demo_commit ?k demo_delivered None None = (Inr (), Some d1)"
    "commit_direction demo_crates ?J demo_commit ?k ?c None (Some d1) = (Inr (), Some d2)" by (rule demo_documents)
  have p: "filter (\<lambda>p. pi_id p \<noteq> ci_id demo_clip) (ds_pending demo_delivered) = []"
    by (simp add: demo_delivered_def direction_new_def)
  obtain h' where h: "history_add demo_crates demo_items_json demo_faults (entry_of demo_clip Remote) empty_history
      = (Inr (), h')" using demo_history_add by blast
  show ?thesis
    using d h demo_fresh demo_direction_new
    by (simp add: handle_clip_with_fault_def demo_authenticates demo_session_fields(2-8)
        record_and_deliver_def clear_pending_and_deliver_def deliver_def invoke_callback_def demo_receive_env_def
        demo_delivered_def [symmetric] entry_of_def p Let_def ffi_session_callback_def demo_handle_ops_def)
qed

lemma demo_inbound:
  "\<exists>c' d'. handle_inbound_clip demo_handle_ops demo_turn (ss_room_id (demo_session 2 1)) demo_ciphertext False demo_connection demo_disk
     = (c', d', [OClip (ffi_clip_item demo_crates demo_clip), OStatus (StError ''callback'')])"
proof -
  obtain s' where "handle_clip_with_fault demo_crates demo_envelope_json demo_documents_json demo_items_json
     (demo_receive_env\<lparr>re_callback := ffi_session_callback demo_crates (ho_callbacks demo_handle_ops), re_fail_at := None\<rparr>)
     (ss_room_id (demo_session 2 1)) demo_ciphertext False 1000 (demo_session 2 1) = (Inl (SessionCallback Panicked), [(False, demo_clip)], s')"
    using demo_panics by blast
  then show ?thesis using demo_owns
    by (simp add: handle_inbound_clip_def handle_clip_def demo_handle_ops_def demo_turn_def demo_connection_def demo_texts_def)
qed

theorem callback_failure_survives_witness:
  "callback_fails (ho_callbacks demo_handle_ops) (OClip (ffi_clip_item demo_crates demo_clip))
   \<and> (\<exists>c' d' os. handle_inbound_clip demo_handle_ops demo_turn (ss_room_id (demo_session 2 1)) demo_ciphertext False demo_connection demo_disk = (c', d', os)
       \<and> OClip (ffi_clip_item demo_crates demo_clip) \<in> set os \<and> lc_link c' = lc_link demo_connection
       \<and> uuid_to_string demo_crates demo_uuid \<in> fh_id ` set (map (ffi_history_item demo_crates) (hs_items (ss_history (lc_session c')))))"
proof -
  obtain c' d' where r: "handle_inbound_clip demo_handle_ops demo_turn (ss_room_id (demo_session 2 1)) demo_ciphertext False demo_connection demo_disk
     = (c', d', [OClip (ffi_clip_item demo_crates demo_clip), OStatus (StError ''callback'')])" using demo_inbound by blast
  have x: "ho_crates demo_handle_ops = demo_crates" "ho_document demo_handle_ops = demo_documents_json"
    "lc_session demo_connection = demo_session 2 1" by (simp_all add: demo_handle_ops_def demo_connection_def)
  have "fi_id (ffi_clip_item demo_crates demo_clip) = uuid_to_string demo_crates demo_uuid"
    by (simp add: ffi_clip_item_def demo_clip_def)
  then show ?thesis
    using callback_failure_survives [of demo_handle_ops demo_connection, unfolded x, OF demo_session_laws demo_session_history r] r
    by (simp add: demo_handle_ops_def)
qed

end
