(* ===== verification/Core_Handle.thy ===== *)
theory Core_Handle
  imports Dispatcher
begin

text \<open>
  The handle of crates/core/src/ffi.rs: the pairing phases, the calls of the shell, the task that
  waits for the peer, and the stop and restart of the dispatcher.

  A call of the shell holds the state lock only in short sections and blocks between them, so each
  call is split into its sections, and other calls, the dispatcher and the waiting task may run in
  between; \<open>core_step\<close> is that interleaving and \<open>core_reach\<close> its runs from a fresh handle. The
  sections of one call that nothing can observe in between are one definition. A call in progress
  is an element of \<open>cr_calls\<close>, a stop in progress is \<open>cr_stopping\<close>. Shared slots and reply
  channels are numbers. The runtime, its threads and the file system errors of creating a
  directory are arguments of the calls.

  The lemmas show the invariant of all runs: the queue is bounded and first-in first-out, each
  accepted command is answered at most once and in order, a shown short authentication string
  belongs to the channel that a confirmation would use, and a handle that was shut down stays so.
\<close>

section \<open>State\<close>

datatype pairing_phase = PhUnpaired | PhBusy | PhOffering bytes nat | PhSasReady string nat | PhPaired pairing_record

datatype pairing_snapshot = SnUnpaired | SnOffering bytes | SnSasReady string | SnPaired string

record active =
  ac_dispatcher :: dispatcher
  ac_phase :: pairing_phase

datatype handle_state = HActive active | HTransitioning | HShutdown

text \<open>The task of \<open>wait_for_peer\<close> before and after the peer arrived.\<close>

datatype wait_task = Waiting nat pairing_offer socket | Arrived nat string

fun wait_slot :: "wait_task \<Rightarrow> nat" where
  "wait_slot (Waiting k _ _) = k"
| "wait_slot (Arrived k _) = k"

datatype call = InBegin string | InOffer bytes nat | InClaim qr_payload
  | InConfirm string pairing_channel socket | InStart pairing_record | InActivate pairing_record nat

datatype stop_kind = StopForReset | StopForShutdown

record stopping =
  sp_kind :: stop_kind
  sp_dispatcher :: dispatcher

record core =
  cr_state :: handle_state
  cr_disk :: disk
  cr_log :: "shell_event list"
  cr_slots :: "nat \<Rightarrow> (pairing_channel \<times> socket) option"
  cr_waits :: "wait_task list"
  cr_calls :: "call list"
  cr_stopping :: "stopping option"
  cr_next :: nat
  cr_accepted :: "nat list"   \<comment> \<open>reply channels of the accepted commands, for the theorems\<close>

text \<open>The outside of a blocking call.\<close>

record io_env =
  io_dir_fails :: bool
  io_timed_out :: bool
  io_attempt :: attempt
  io_draws :: "nat list"
  io_nonce :: bytes
  io_fault :: "write_step option"
  io_tmp :: string
  io_identity :: identity_env
  io_session_dir_fails :: bool
  io_open :: open_env

section \<open>Sections shared by the calls\<close>

definition emit :: "core_status \<Rightarrow> core \<Rightarrow> core" where
  "emit st c = c\<lparr>cr_log := cr_log c @ [OStatus st]\<rparr>"

definition with_active :: "(active \<Rightarrow> (core_error + 'a) \<times> active) \<Rightarrow> core \<Rightarrow> (core_error + 'a) \<times> core" where
  "with_active f c =
     (case cr_state c of
        HActive a \<Rightarrow> (case f a of (r, a) \<Rightarrow> (r, c\<lparr>cr_state := HActive a\<rparr>))
      | HTransitioning \<Rightarrow> (Inl CBusy, c)
      | HShutdown \<Rightarrow> (Inl CShutdown, c))"

definition set_phase :: "pairing_phase \<Rightarrow> core \<Rightarrow> (core_error + unit) \<times> core" where
  "set_phase p = with_active (\<lambda>a. (Inr (), a\<lparr>ac_phase := p\<rparr>))"

definition begin_phase_transition :: "core \<Rightarrow> (core_error + unit) \<times> core" where
  "begin_phase_transition = with_active (\<lambda>a.
     if ac_phase a \<noteq> PhUnpaired then (Inl CBusy, a) else (Inr (), a\<lparr>ac_phase := PhBusy\<rparr>))"

definition abort_phase_transition :: "core_error \<Rightarrow> core \<Rightarrow> core" where
  "abort_phase_transition e c =
     emit (StError (core_error_text e))
       (case cr_state c of
          HActive a \<Rightarrow> if ac_phase a = PhBusy then c\<lparr>cr_state := HActive (a\<lparr>ac_phase := PhUnpaired\<rparr>)\<rparr> else c
        | _ \<Rightarrow> c)"

definition pairing_store :: "handle_ops \<Rightarrow> bool \<Rightarrow> core_error + unit" where
  "pairing_store ops dir_fails = (if dir_fails then Inl (from_pairing (ho_texts ops) PairingIo) else Inr ())"

definition block_on_io :: "bool \<Rightarrow> core_error + 'a \<Rightarrow> core_error + 'a" where
  "block_on_io timed_out r = (if timed_out then Inl (CTransport ''relay operation timed out'') else r)"

definition set_pairing_files :: "fs \<Rightarrow> core \<Rightarrow> core" where
  "set_pairing_files f c = c\<lparr>cr_disk := (cr_disk c)\<lparr>dk_pairing := f\<rparr>\<rparr>"

text \<open>The bounded queue: what \<open>try_send\<close> of the channel does, and \<open>try_command\<close>.\<close>

definition queue_try_send :: "handle_ops \<Rightarrow> command \<Rightarrow> dispatcher \<Rightarrow> (core_error + unit) \<times> dispatcher" where
  "queue_try_send ops cmd dp =
     (if dp_stopped dp then (Inl CShutdown, dp)
      else if length (dp_queue dp) \<ge> max 1 (ho_queue_capacity ops) then (Inl CQueueFull, dp)
      else (Inr (), dp\<lparr>dp_queue := dp_queue dp @ [cmd]\<rparr>))"

definition try_command :: "handle_ops \<Rightarrow> (nat \<Rightarrow> command) \<Rightarrow> core \<Rightarrow> (core_error + nat) \<times> core" where
  "try_command ops cmd c =
     (let k = cr_next c in
      case with_active (\<lambda>a. case queue_try_send ops (cmd k) (ac_dispatcher a) of
                              (r, dp) \<Rightarrow> (r, a\<lparr>ac_dispatcher := dp\<rparr>)) c of
        (Inl e, c) \<Rightarrow> (Inl e, c)
      | (Inr _, c) \<Rightarrow> (Inr k, c\<lparr>cr_next := Suc k, cr_accepted := cr_accepted c @ [k]\<rparr>))"

text \<open>A blocked caller's view of its reply channel.\<close>

fun find_reply :: "nat \<Rightarrow> shell_event list \<Rightarrow> reply option" where
  "find_reply k [] = None"
| "find_reply k (OReply j r # os) = (if j = k then Some r else find_reply k os)"
| "find_reply k (_ # os) = find_reply k os"

section \<open>Pairing\<close>

definition pair_begin_enter :: "handle_ops \<Rightarrow> io_env \<Rightarrow> string \<Rightarrow> core \<Rightarrow> (core_error + unit) \<times> core" where
  "pair_begin_enter ops io server_url c =
     (case map_err (\<lambda>e. CInvalidInput (et_pairing (ho_texts ops) e)) (validate_server (co_debug (ho_core ops)) server_url) of
        Inl e \<Rightarrow> (Inl e, c)
      | Inr _ \<Rightarrow>
          (case pairing_store ops (io_dir_fails io) of
             Inl e \<Rightarrow> (Inl e, c)
           | Inr _ \<Rightarrow>
               (case begin_phase_transition c of
                  (Inl e, c) \<Rightarrow> (Inl e, c)
                | (Inr _, c) \<Rightarrow> (Inr (), c\<lparr>cr_calls := InBegin server_url # cr_calls c\<rparr>))))"

definition publish_offer ::
  "handle_ops \<Rightarrow> io_env \<Rightarrow> string \<Rightarrow> fs \<Rightarrow> (core_error + pairing_offer \<times> socket) \<times> fs" where
  "publish_offer ops io server_url f =
     (case connect (ho_core ops) (io_attempt io) server_url f of
        (Inl e, f) \<Rightarrow> (Inl (from_transport (ho_texts ops) e), f)
      | (Inr (client, sk), f) \<Rightarrow>
          (case client_pair_begin (ho_core ops) (io_draws io) (io_nonce io) client sk of
             (r, sk) \<Rightarrow> (and_then (map_err (from_transport (ho_texts ops)) r) (\<lambda>off. Inr (off, sk)), f)))"

text \<open>The end of the network round trip; the waiting task is spawned before the phase is set.\<close>

definition pair_begin_io ::
  "handle_ops \<Rightarrow> io_env \<Rightarrow> string \<Rightarrow> core \<Rightarrow> (core_error + bytes \<times> nat) \<times> core" where
  "pair_begin_io ops io server_url c =
     (case publish_offer ops io server_url (dk_pairing (cr_disk c)) of
        (r, f) \<Rightarrow>
          (let c = set_pairing_files f c in
           case block_on_io (io_timed_out io) r of
             Inl e \<Rightarrow> (Inl e, abort_phase_transition e c)
           | Inr (off, sk) \<Rightarrow>
               (case map_err (from_pairing (ho_texts ops)) (qr_to_json (ho_crates ops) (ho_qr ops) (pof_qr off)) of
                  Inl e \<Rightarrow> (Inl e, c)
                | Inr qr_json \<Rightarrow>
                    (let k = cr_next c in
                     (Inr (qr_json, k), c\<lparr>cr_next := Suc k, cr_slots := (cr_slots c)(k := None),
                        cr_waits := Waiting k off sk # cr_waits c, cr_calls := InOffer qr_json k # cr_calls c\<rparr>)))))"

definition pair_begin_offer :: "bytes \<Rightarrow> nat \<Rightarrow> core \<Rightarrow> (core_error + bytes) \<times> core" where
  "pair_begin_offer qr_json k c =
     (case set_phase (PhOffering qr_json k) c of
        (Inl e, c) \<Rightarrow> (Inl e, c)
      | (Inr _, c) \<Rightarrow> (Inr qr_json, emit StOffering c))"

definition pair_claim_enter :: "handle_ops \<Rightarrow> io_env \<Rightarrow> bytes \<Rightarrow> core \<Rightarrow> (core_error + unit) \<times> core" where
  "pair_claim_enter ops io qr_payload c =
     (case map_err (\<lambda>e. CInvalidInput (et_pairing (ho_texts ops) e))
             (qr_parse (co_debug (ho_core ops)) (ho_crates ops) (ho_qr ops) qr_payload) of
        Inl e \<Rightarrow> (Inl e, c)
      | Inr qr \<Rightarrow>
          (case pairing_store ops (io_dir_fails io) of
             Inl e \<Rightarrow> (Inl e, c)
           | Inr _ \<Rightarrow>
               (case begin_phase_transition c of
                  (Inl e, c) \<Rightarrow> (Inl e, c)
                | (Inr _, c) \<Rightarrow> (Inr (), c\<lparr>cr_calls := InClaim qr # cr_calls c\<rparr>))))"

definition pair_claim_io ::
  "handle_ops \<Rightarrow> io_env \<Rightarrow> qr_payload \<Rightarrow> core \<Rightarrow> (core_error + string) \<times> core" where
  "pair_claim_io ops io qr c =
     (case claim (ho_core ops) (io_attempt io) qr (dk_pairing (cr_disk c)) of
        (r, f) \<Rightarrow>
          (let c = set_pairing_files f c in
           case block_on_io (io_timed_out io) (map_err (from_transport (ho_texts ops)) r) of
             Inl e \<Rightarrow> (Inl e, abort_phase_transition e c)
           | Inr (ch, sk) \<Rightarrow>
               (let sas = pending_sas (ho_crates ops) (pch_pending ch); k = cr_next c;
                    c = c\<lparr>cr_next := Suc k, cr_slots := (cr_slots c)(k \<mapsto> (ch, sk))\<rparr> in
                case set_phase (PhSasReady sas k) c of
                  (Inl e, c) \<Rightarrow> (Inl e, c)
                | (Inr _, c) \<Rightarrow> (Inr sas, emit StSasReady c))))"

fun snapshot_of :: "pairing_phase \<Rightarrow> pairing_snapshot" where
  "snapshot_of PhUnpaired = SnUnpaired"
| "snapshot_of PhBusy = SnUnpaired"
| "snapshot_of (PhOffering qr_json _) = SnOffering qr_json"
| "snapshot_of (PhSasReady sas _) = SnSasReady sas"
| "snapshot_of (PhPaired r) = SnPaired (pr_room_id r)"

definition pair_poll :: "core \<Rightarrow> pairing_snapshot" where
  "pair_poll c = (case cr_state c of HActive a \<Rightarrow> snapshot_of (ac_phase a) | _ \<Rightarrow> SnUnpaired)"

definition pair_confirm_enter :: "handle_ops \<Rightarrow> io_env \<Rightarrow> string \<Rightarrow> core \<Rightarrow> (core_error + unit) \<times> core" where
  "pair_confirm_enter ops io sas c =
     (case with_active (\<lambda>a. case ac_phase a of
              PhSasReady _ k \<Rightarrow> (Inr k, a\<lparr>ac_phase := PhBusy\<rparr>)
            | _ \<Rightarrow> (Inl CBusy, a)) c of
        (Inl e, c) \<Rightarrow> (Inl e, c)
      | (Inr k, c) \<Rightarrow>
          (case cr_slots c k of
             None \<Rightarrow> (Inl CBusy, c)
           | Some (ch, sk) \<Rightarrow>
               (let c = c\<lparr>cr_slots := (cr_slots c)(k := None)\<rparr> in
                case pairing_store ops (io_dir_fails io) of
                  Inl e \<Rightarrow> (Inl e, c)
                | Inr _ \<Rightarrow> (Inr (), c\<lparr>cr_calls := InConfirm sas ch sk # cr_calls c\<rparr>))))"

text \<open>A new session reads the files; the connection of an earlier start may still own them.\<close>

definition build_connection ::
  "handle_ops \<Rightarrow> io_env \<Rightarrow> live_link \<times> socket \<Rightarrow> core \<Rightarrow> (core_error + live_connection) \<times> core" where
  "build_connection ops io l c =
     (let T = ho_texts ops; X = ho_crates ops in
      case pairing_store ops (io_dir_fails io) of
        Inl e \<Rightarrow> (Inl e, c)
      | Inr _ \<Rightarrow>
      (case load_identity X (co_identity (ho_core ops)) (io_identity io) (dk_pairing (cr_disk c)) of
         (Inl e, f) \<Rightarrow> (Inl (from_pairing T e), set_pairing_files f c)
       | (Inr i, f) \<Rightarrow>
       (let c = set_pairing_files f c in
        if io_session_dir_fails io then (Inl (from_session T SessionIo), c)
        else case history_new X (ho_item ops) (oe_history (io_open io)) (oe_remove (io_open io)) (oe_listing (io_open io)) (dk_history (cr_disk c)) of
          (Inl e, h) \<Rightarrow> (Inl (from_history T e), c\<lparr>cr_disk := (cr_disk c)\<lparr>dk_history := h\<rparr>\<rparr>)
        | (Inr st, _) \<Rightarrow>
            (case session_new X (ho_document ops) (ho_item ops) i (ll_record (fst l)) (oe_start (io_open io)) (dk_session (cr_disk c)) st of
               (r, fl, st) \<Rightarrow>
                 (and_then (map_err (from_session T) r) (\<lambda>s. Inr \<lparr>lc_link = fst l, lc_socket = snd l, lc_session = s\<rparr>),
                  c\<lparr>cr_disk := (cr_disk c)\<lparr>dk_session := fl, dk_history := hs_disk st\<rparr>\<rparr>)))))"

definition activate_enqueue ::
  "handle_ops \<Rightarrow> io_env \<Rightarrow> live_link \<times> socket \<Rightarrow> core \<Rightarrow> (core_error + unit) \<times> core" where
  "activate_enqueue ops io l c =
     (case build_connection ops io l c of
        (Inl e, c) \<Rightarrow> (Inl e, c)
      | (Inr conn, c) \<Rightarrow>
          (case try_command ops (CmdConnect conn) c of
             (Inl e, c) \<Rightarrow> (Inl e, c)
           | (Inr k, c) \<Rightarrow> (Inr (), c\<lparr>cr_calls := InActivate (ll_record (fst l)) k # cr_calls c\<rparr>)))"

text \<open>\<open>answered\<close>: the reply came within the join timeout.\<close>

definition activate_finish :: "pairing_record \<Rightarrow> bool \<Rightarrow> core \<Rightarrow> (core_error + unit) \<times> core" where
  "activate_finish r answered c =
     (if answered then set_phase (PhPaired r) c
      else (Inl (CInternal ''dispatcher did not accept the connection''), c))"

definition pair_confirm_io ::
  "handle_ops \<Rightarrow> io_env \<Rightarrow> string \<Rightarrow> pairing_channel \<Rightarrow> socket \<Rightarrow> core \<Rightarrow> (core_error + unit) \<times> core" where
  "pair_confirm_io ops io sas ch sk c =
     (case confirm_pair (ho_core ops) (at_env (io_attempt io)) (io_fault io) (io_tmp io) sas ch sk (dk_pairing (cr_disk c)) of
        (r, f) \<Rightarrow>
          (let c = set_pairing_files f c in
           case block_on_io (io_timed_out io) (map_err (from_transport (ho_texts ops)) r) of
             Inl e \<Rightarrow> (Inl e, abort_phase_transition e c)
           | Inr l \<Rightarrow> activate_enqueue ops io l c))"

definition abort_wait :: "nat \<Rightarrow> core \<Rightarrow> core" where
  "abort_wait k c = c\<lparr>cr_waits := filter (\<lambda>w. case w of Waiting j _ _ \<Rightarrow> j \<noteq> k | Arrived _ _ \<Rightarrow> True) (cr_waits c)\<rparr>"

definition pair_cancel :: "core \<Rightarrow> (core_error + unit) \<times> core" where
  "pair_cancel c =
     (case with_active (\<lambda>a. case ac_phase a of
              PhOffering _ k \<Rightarrow> (Inr (True, Some k), a\<lparr>ac_phase := PhUnpaired\<rparr>)
            | PhSasReady _ _ \<Rightarrow> (Inr (True, None), a\<lparr>ac_phase := PhUnpaired\<rparr>)
            | _ \<Rightarrow> (Inr (False, None), a)) c of
        (Inl e, c) \<Rightarrow> (Inl e, c)
      | (Inr (cancelled, wait), c) \<Rightarrow>
          (let c = (case wait of None \<Rightarrow> c | Some k \<Rightarrow> abort_wait k c) in
           (Inr (), if cancelled then emit StReadyUnpaired c else c)))"

definition pair_load :: "handle_ops \<Rightarrow> io_env \<Rightarrow> core \<Rightarrow> (core_error + bool) \<times> core" where
  "pair_load ops io c =
     (case pairing_store ops (io_dir_fails io) of
        Inl e \<Rightarrow> (Inl e, c)
      | Inr _ \<Rightarrow>
          (case load_pairing (co_debug (ho_core ops)) (ho_crates ops) (co_identity (ho_core ops)) (co_record (ho_core ops))
                  (at_record_env (io_attempt io)) (at_read_fails (io_attempt io)) (dk_pairing (cr_disk c)) of
             (Inl e, f) \<Rightarrow> (Inl (from_pairing (ho_texts ops) e), set_pairing_files f c)
           | (Inr rec, f) \<Rightarrow>
               with_active (\<lambda>a. case (ac_phase a, rec) of
                   (PhPaired _, _) \<Rightarrow> (Inr True, a)
                 | (PhUnpaired, Some r) \<Rightarrow> (Inr True, a\<lparr>ac_phase := PhPaired r\<rparr>)
                 | (PhUnpaired, None) \<Rightarrow> (Inr False, a)
                 | (_, Some _) \<Rightarrow> (Inl CBusy, a)
                 | (_, None) \<Rightarrow> (Inr False, a)) (set_pairing_files f c)))"

text \<open>The task that waits for the peer, up to its arrival and after it.\<close>

definition replace_wait :: "wait_task \<Rightarrow> wait_task list \<Rightarrow> core \<Rightarrow> core" where
  "replace_wait w ws c = c\<lparr>cr_waits := ws @ remove1 w (cr_waits c)\<rparr>"

definition is_offering :: "nat \<Rightarrow> pairing_phase \<Rightarrow> bool" where
  "is_offering k p = (case p of PhOffering _ j \<Rightarrow> j = k | _ \<Rightarrow> False)"

definition wait_for_peer :: "handle_ops \<Rightarrow> nat \<Rightarrow> pairing_offer \<Rightarrow> socket \<Rightarrow> core \<Rightarrow> core" where
  "wait_for_peer ops k off sk c =
     (case wait_peer (ho_core ops) off sk of
        (Inr ch, sk') \<Rightarrow>
          (replace_wait (Waiting k off sk) [Arrived k (pending_sas (ho_crates ops) (pch_pending ch))] c)
            \<lparr>cr_slots := (cr_slots c)(k \<mapsto> (ch, sk'))\<rparr>
      | (Inl e, _) \<Rightarrow>
          (case with_active (\<lambda>a. if is_offering k (ac_phase a) then (Inr True, a\<lparr>ac_phase := PhUnpaired\<rparr>) else (Inr False, a))
                  (replace_wait (Waiting k off sk) [] c) of
             (Inr True, c) \<Rightarrow> emit (StError (et_transport (ho_texts ops) e)) c
           | (_, c) \<Rightarrow> c))"

definition announce_peer :: "nat \<Rightarrow> string \<Rightarrow> core \<Rightarrow> core" where
  "announce_peer k sas c =
     (case with_active (\<lambda>a. (Inr (), if is_offering k (ac_phase a) then a\<lparr>ac_phase := PhSasReady sas k\<rparr> else a))
             (replace_wait (Arrived k sas) [] c) of
        (Inr _, c) \<Rightarrow> emit StSasReady c
      | (Inl _, c) \<Rightarrow> c)"

section \<open>The live session\<close>

definition start_enter :: "handle_ops \<Rightarrow> io_env \<Rightarrow> core \<Rightarrow> (core_error + unit) \<times> core" where
  "start_enter ops io c =
     (case with_active (\<lambda>a. case ac_phase a of
              PhPaired r \<Rightarrow> (Inr r, a\<lparr>ac_phase := PhBusy\<rparr>)
            | PhUnpaired \<Rightarrow> (Inl CNotPaired, a)
            | _ \<Rightarrow> (Inl CBusy, a)) (emit StConnecting c) of
        (Inl e, c) \<Rightarrow> (Inl e, c)
      | (Inr r, c) \<Rightarrow>
          (case pairing_store ops (io_dir_fails io) of
             Inl e \<Rightarrow> (Inl e, c)
           | Inr _ \<Rightarrow> (Inr (), c\<lparr>cr_calls := InStart r # cr_calls c\<rparr>)))"

definition start_io :: "handle_ops \<Rightarrow> io_env \<Rightarrow> pairing_record \<Rightarrow> core \<Rightarrow> (core_error + unit) \<times> core" where
  "start_io ops io r c =
     (case client_join (ho_core ops) (io_attempt io) (dk_pairing (cr_disk c)) of
        (l, f) \<Rightarrow>
          (let c = set_pairing_files f c in
           case block_on_io (io_timed_out io) (map_err (from_transport (ho_texts ops)) l) of
             Inl e \<Rightarrow>
               (case set_phase (PhPaired r) c of
                  (Inl e', c) \<Rightarrow> (Inl e', c)
                | (Inr _, c) \<Rightarrow> (Inl e, emit (StError (core_error_text e)) c))
           | Inr l \<Rightarrow> activate_enqueue ops io l c))"

text \<open>The calls that pass one command to the dispatcher; the result is the reply channel.
  \<open>message\<close> is the text of the uuid library for an id that does not parse.\<close>

definition send_text :: "handle_ops \<Rightarrow> string \<Rightarrow> int \<Rightarrow> core \<Rightarrow> (core_error + nat) \<times> core" where
  "send_text ops t now_ms = try_command ops (CmdSend (CText t) now_ms)"

definition send_image :: "handle_ops \<Rightarrow> bytes \<Rightarrow> int \<Rightarrow> core \<Rightarrow> (core_error + nat) \<times> core" where
  "send_image ops bs now_ms = try_command ops (CmdSend (CImage bs) now_ms)"

definition list_history :: "handle_ops \<Rightarrow> core \<Rightarrow> (core_error + nat) \<times> core" where
  "list_history ops = try_command ops CmdHistory"

definition parse_item_id :: "handle_ops \<Rightarrow> string \<Rightarrow> string \<Rightarrow> core_error + uuid" where
  "parse_item_id ops message i =
     (case uuid_parse (ho_crates ops) i of None \<Rightarrow> Inl (CInvalidInput message) | Some u \<Rightarrow> Inr u)"

definition history_image_bytes :: "handle_ops \<Rightarrow> string \<Rightarrow> string \<Rightarrow> core \<Rightarrow> (core_error + nat) \<times> core" where
  "history_image_bytes ops message i c =
     (case parse_item_id ops message i of Inl e \<Rightarrow> (Inl e, c) | Inr u \<Rightarrow> try_command ops (CmdHistoryImage u) c)"

definition history_apply :: "handle_ops \<Rightarrow> string \<Rightarrow> string \<Rightarrow> core \<Rightarrow> (core_error + nat) \<times> core" where
  "history_apply ops message i c =
     (case parse_item_id ops message i of Inl e \<Rightarrow> (Inl e, c) | Inr u \<Rightarrow> try_command ops (CmdHistoryApply u) c)"

definition clear_all_history :: "handle_ops \<Rightarrow> core \<Rightarrow> (core_error + nat) \<times> core" where
  "clear_all_history ops = try_command ops CmdHistoryClear"

definition ask_echo :: "handle_ops \<Rightarrow> string \<Rightarrow> core \<Rightarrow> (bool + nat) \<times> core" where
  "ask_echo ops hash c = (case try_command ops (CmdIsEcho hash) c of (Inl _, c) \<Rightarrow> (Inl False, c) | (Inr k, c) \<Rightarrow> (Inr k, c))"

text \<open>The second half of such a call, \<open>None\<close> while it blocks: the value of the reply, or an error
  when the sender of the reply was dropped.\<close>

definition await_reply :: "(reply \<Rightarrow> core_error + 'a) \<Rightarrow> nat \<Rightarrow> core \<Rightarrow> (core_error + 'a) option" where
  "await_reply get k c =
     map_option (\<lambda>r. if r = RpGone then Inl (CInternal ''dispatcher stopped'') else get r) (find_reply k (cr_log c))"

definition await_echo :: "nat \<Rightarrow> core \<Rightarrow> bool option" where
  "await_echo k c = map_option (\<lambda>r. case r of RpEcho b \<Rightarrow> b | _ \<Rightarrow> False) (find_reply k (cr_log c))"

section \<open>Stop and restart\<close>

definition fresh_dispatcher :: dispatcher where
  "fresh_dispatcher = \<lparr>dp_queue = [], dp_connection = None, dp_open = True, dp_stopped = False\<rparr>"

definition spawn_active :: "bool \<Rightarrow> core_error + active" where
  "spawn_active runtime_fails =
     (if runtime_fails then Inl (CInternal ''runtime failed to start'')
      else Inr \<lparr>ac_dispatcher = fresh_dispatcher, ac_phase = PhUnpaired\<rparr>)"

definition build :: "bool \<Rightarrow> bool \<Rightarrow> disk \<Rightarrow> core_error + core" where
  "build dir_fails runtime_fails d =
     (if dir_fails then Inl (CInternal ''data dir is not writable'')
      else and_then (spawn_active runtime_fails) (\<lambda>a. Inr
        \<lparr>cr_state = HActive a, cr_disk = d, cr_log = [], cr_slots = \<lambda>_. None, cr_waits = [], cr_calls = [],
         cr_stopping = None, cr_next = 0, cr_accepted = []\<rparr>))"

definition take_active :: "core \<Rightarrow> (core_error + active) \<times> core" where
  "take_active c =
     (case cr_state c of
        HActive a \<Rightarrow> (Inr a, c\<lparr>cr_state := HTransitioning\<rparr>)
      | HTransitioning \<Rightarrow> (Inl CBusy, c)
      | HShutdown \<Rightarrow> (Inl CShutdown, c))"

text \<open>\<open>stop_active\<close>: drop the phase, queue a disconnect unless the queue stays full, close the
  queue, wait for the dispatcher. A runtime that is dropped with the dispatcher still running drops
  the reply channels of the queued commands.\<close>

definition stop_enter :: "stop_kind \<Rightarrow> core \<Rightarrow> (core_error + unit) \<times> core" where
  "stop_enter kind c =
     (case take_active c of
        (Inl e, c) \<Rightarrow> (Inl e, c)
      | (Inr a, c) \<Rightarrow>
          (Inr (), (case ac_phase a of PhOffering _ k \<Rightarrow> abort_wait k c | _ \<Rightarrow> c)
             \<lparr>cr_stopping := Some \<lparr>sp_kind = kind, sp_dispatcher = ac_dispatcher a\<rparr>\<rparr>))"

definition stop_disconnect :: "handle_ops \<Rightarrow> stopping \<Rightarrow> core \<Rightarrow> core" where
  "stop_disconnect ops sp c =
     (case queue_try_send ops (CmdDisconnect (cr_next c)) (sp_dispatcher sp) of
        (Inl _, _) \<Rightarrow> c
      | (Inr _, dp) \<Rightarrow> c\<lparr>cr_stopping := Some (sp\<lparr>sp_dispatcher := dp\<rparr>), cr_next := Suc (cr_next c),
                           cr_accepted := cr_accepted c @ [cr_next c]\<rparr>)"

definition stop_close :: "stopping \<Rightarrow> core \<Rightarrow> core" where
  "stop_close sp c = c\<lparr>cr_stopping := Some (sp\<lparr>sp_dispatcher := (sp_dispatcher sp)\<lparr>dp_open := False\<rparr>\<rparr>)\<rparr>"

definition stop_join :: "stopping \<Rightarrow> core \<Rightarrow> (core_error + unit) \<times> core" where
  "stop_join sp c =
     (if dp_stopped (sp_dispatcher sp) then (Inr (), c\<lparr>cr_stopping := None\<rparr>)
      else (Inl (CInternal ''dispatcher did not stop within the join timeout''),
            c\<lparr>cr_stopping := None,
              cr_log := cr_log c @ map (\<lambda>cmd. OReply (reply_to cmd) RpGone) (dp_queue (sp_dispatcher sp))\<rparr>))"

definition shutdown_finish :: "stopping \<Rightarrow> core \<Rightarrow> (core_error + unit) \<times> core" where
  "shutdown_finish sp c =
     (case stop_join sp c of
        (Inl e, c) \<Rightarrow> (Inl e, c)
      | (Inr _, c) \<Rightarrow> (Inr (), c\<lparr>cr_state := HShutdown\<rparr>))"

record reset_env =
  rs_dir_fails :: bool
  rs_identity :: identity_env
  rs_rng :: "bytes \<times> bytes"
  rs_fault :: "write_step option"
  rs_tmp :: string
  rs_remove_fails :: bool
  rs_runtime_fails :: bool

definition reset_files :: "handle_ops \<Rightarrow> reset_env \<Rightarrow> core \<Rightarrow> (core_error + unit) \<times> core" where
  "reset_files ops env c =
     (case pairing_store ops (rs_dir_fails env) of
        Inl e \<Rightarrow> (Inl e, c)
      | Inr _ \<Rightarrow>
          (case reset_pairing_state_after_quiesce (ho_crates ops) (co_identity (ho_core ops)) (rs_identity env) (rs_rng env)
                  (rs_fault env) (rs_tmp env) (rs_remove_fails env) (dk_pairing (cr_disk c)) of
             (r, f) \<Rightarrow> (and_then (map_err (from_pairing (ho_texts ops)) r) (\<lambda>_. Inr ()), set_pairing_files f c)))"

definition reset_finish :: "handle_ops \<Rightarrow> reset_env \<Rightarrow> stopping \<Rightarrow> core \<Rightarrow> (core_error + unit) \<times> core" where
  "reset_finish ops env sp c =
     (case stop_join sp c of
        (stop_result, c) \<Rightarrow>
          (case reset_files ops env c of
             (reset_result, c) \<Rightarrow>
               (case spawn_active (rs_runtime_fails env) of
                  Inl e \<Rightarrow> (Inl e, c\<lparr>cr_state := HShutdown\<rparr>)
                | Inr a \<Rightarrow> (and_then stop_result (\<lambda>_. reset_result), emit StReadyUnpaired (c\<lparr>cr_state := HActive a\<rparr>)))))"

section \<open>Interleaved runs\<close>

definition drop_call :: "call \<Rightarrow> core \<Rightarrow> core" where
  "drop_call x c = c\<lparr>cr_calls := remove1 x (cr_calls c)\<rparr>"

definition dispatcher_turn ::
  "handle_ops \<Rightarrow> turn_env \<Rightarrow> dispatcher \<Rightarrow> disk \<Rightarrow> dispatcher \<Rightarrow> disk \<Rightarrow> shell_event list \<Rightarrow> bool" where
  "dispatcher_turn ops env dp d dp' d' os \<longleftrightarrow>
     command_turn ops env dp d = Some (dp', d', os) \<or> live_turn ops env dp d = Some (dp', d', os)"

definition set_socket :: "socket \<Rightarrow> dispatcher \<Rightarrow> dispatcher" where
  "set_socket sk dp = dp\<lparr>dp_connection := map_option (\<lambda>c. c\<lparr>lc_socket := sk\<rparr>) (dp_connection dp)\<rparr>"

text \<open>One step of a thread of the shell, of the dispatcher, of the waiting task or of the outside. A
  blocked call may also end without a further section, when its runtime is gone.\<close>

inductive core_step :: "handle_ops \<Rightarrow> core \<Rightarrow> core \<Rightarrow> bool" for ops where
  step_begin: "core_step ops c (snd (pair_begin_enter ops io server_url c))"
| step_begin_io: "InBegin server_url \<in> set (cr_calls c) \<Longrightarrow>
    core_step ops c (snd (pair_begin_io ops io server_url (drop_call (InBegin server_url) c)))"
| step_offer: "InOffer qr_json k \<in> set (cr_calls c) \<Longrightarrow>
    core_step ops c (snd (pair_begin_offer qr_json k (drop_call (InOffer qr_json k) c)))"
| step_claim: "core_step ops c (snd (pair_claim_enter ops io qr_payload c))"
| step_claim_io: "InClaim qr \<in> set (cr_calls c) \<Longrightarrow>
    core_step ops c (snd (pair_claim_io ops io qr (drop_call (InClaim qr) c)))"
| step_confirm: "core_step ops c (snd (pair_confirm_enter ops io sas c))"
| step_confirm_io: "InConfirm sas ch sk \<in> set (cr_calls c) \<Longrightarrow>
    core_step ops c (snd (pair_confirm_io ops io sas ch sk (drop_call (InConfirm sas ch sk) c)))"
| step_activated: "InActivate r k \<in> set (cr_calls c) \<Longrightarrow>
    core_step ops c (snd (activate_finish r (find_reply k (cr_log c) = Some RpAck) (drop_call (InActivate r k) c)))"
| step_cancel: "core_step ops c (snd (pair_cancel c))"
| step_load: "core_step ops c (snd (pair_load ops io c))"
| step_start: "core_step ops c (snd (start_enter ops io c))"
| step_start_io: "InStart r \<in> set (cr_calls c) \<Longrightarrow>
    core_step ops c (snd (start_io ops io r (drop_call (InStart r) c)))"
| step_send_text: "core_step ops c (snd (send_text ops t now c))"
| step_send_image: "core_step ops c (snd (send_image ops bs now c))"
| step_history: "core_step ops c (snd (list_history ops c))"
| step_image_bytes: "core_step ops c (snd (history_image_bytes ops message i c))"
| step_apply: "core_step ops c (snd (history_apply ops message i c))"
| step_clear: "core_step ops c (snd (clear_all_history ops c))"
| step_echo: "core_step ops c (snd (ask_echo ops hash c))"
| step_stop: "core_step ops c (snd (stop_enter kind c))"
| step_disconnect: "cr_stopping c = Some sp \<Longrightarrow> core_step ops c (stop_disconnect ops sp c)"
| step_close: "cr_stopping c = Some sp \<Longrightarrow> core_step ops c (stop_close sp c)"
| step_shut: "cr_stopping c = Some sp \<Longrightarrow> sp_kind sp = StopForShutdown \<Longrightarrow> core_step ops c (snd (shutdown_finish sp c))"
| step_reset: "cr_stopping c = Some sp \<Longrightarrow> sp_kind sp = StopForReset \<Longrightarrow> core_step ops c (snd (reset_finish ops env sp c))"
| step_wait: "Waiting k off sk \<in> set (cr_waits c) \<Longrightarrow> core_step ops c (wait_for_peer ops k off sk c)"
| step_announce: "Arrived k sas \<in> set (cr_waits c) \<Longrightarrow> core_step ops c (announce_peer k sas c)"
| step_dispatch: "cr_state c = HActive a \<Longrightarrow> dispatcher_turn ops env (ac_dispatcher a) (cr_disk c) dp d os \<Longrightarrow>
    core_step ops c (c\<lparr>cr_state := HActive (a\<lparr>ac_dispatcher := dp\<rparr>), cr_disk := d, cr_log := cr_log c @ os\<rparr>)"
| step_dispatch_stopping: "cr_stopping c = Some sp \<Longrightarrow> dispatcher_turn ops env (sp_dispatcher sp) (cr_disk c) dp d os \<Longrightarrow>
    core_step ops c (c\<lparr>cr_stopping := Some (sp\<lparr>sp_dispatcher := dp\<rparr>), cr_disk := d, cr_log := cr_log c @ os\<rparr>)"
| step_socket: "cr_state c = HActive a \<Longrightarrow>
    core_step ops c (c\<lparr>cr_state := HActive (a\<lparr>ac_dispatcher := set_socket sk (ac_dispatcher a)\<rparr>)\<rparr>)"
| step_wait_socket: "Waiting k off sk \<in> set (cr_waits c) \<Longrightarrow>
    core_step ops c (replace_wait (Waiting k off sk) [Waiting k off sk'] c)"
| step_gone: "core_step ops c (drop_call x c)"

inductive core_reach :: "handle_ops \<Rightarrow> core \<Rightarrow> bool" for ops where
  reach_build: "build False False d = Inr c \<Longrightarrow> core_reach ops c"
| reach_step: "core_reach ops c \<Longrightarrow> core_step ops c c' \<Longrightarrow> core_reach ops c'"

section \<open>The invariant\<close>

text \<open>The dispatcher that is running, if any.\<close>

definition the_dispatcher :: "core \<Rightarrow> dispatcher option" where
  "the_dispatcher c = (case cr_stopping c of
     Some sp \<Rightarrow> Some (sp_dispatcher sp)
   | None \<Rightarrow> (case cr_state c of HActive a \<Rightarrow> Some (ac_dispatcher a) | _ \<Rightarrow> None))"

definition queue_ok :: "handle_ops \<Rightarrow> dispatcher \<Rightarrow> bool" where
  "queue_ok ops dp \<longleftrightarrow> length (dp_queue dp) \<le> max 1 (ho_queue_capacity ops) \<and> (dp_stopped dp \<longrightarrow> dp_queue dp = [])"

definition queued :: "core \<Rightarrow> nat list" where
  "queued c = (case the_dispatcher c of None \<Rightarrow> [] | Some dp \<Rightarrow> map reply_to (dp_queue dp))"

definition ids_ok :: "nat \<Rightarrow> nat list \<Rightarrow> bool" where
  "ids_ok n ks \<longleftrightarrow> distinct ks \<and> list_all (\<lambda>k. k < n) ks"

definition commands_ok :: "handle_ops \<Rightarrow> core \<Rightarrow> bool" where
  "commands_ok ops c \<longleftrightarrow> pred_option (queue_ok ops) (the_dispatcher c)
     \<and> cr_accepted c = replies (cr_log c) @ queued c
     \<and> ids_ok (cr_next c) (cr_accepted c)"

definition states_ok :: "core \<Rightarrow> bool" where
  "states_ok c \<longleftrightarrow> (cr_stopping c \<noteq> None \<longrightarrow> cr_state c = HTransitioning)
     \<and> (\<forall>a. cr_state c = HActive a \<longrightarrow> dp_open (ac_dispatcher a) \<and> \<not> dp_stopped (ac_dispatcher a))"

definition filled :: "handle_ops \<Rightarrow> core \<Rightarrow> nat \<Rightarrow> string \<Rightarrow> bool" where
  "filled ops c k sas \<longleftrightarrow> (case cr_slots c k of
     None \<Rightarrow> False | Some (ch, _) \<Rightarrow> sas = pending_sas (ho_crates ops) (pch_pending ch))"

definition phase_ok :: "handle_ops \<Rightarrow> core \<Rightarrow> pairing_phase \<Rightarrow> bool" where
  "phase_ok ops c p = (case p of
     PhSasReady sas k \<Rightarrow> k < cr_next c \<and> k \<notin> wait_slot ` set (cr_waits c) \<and> filled ops c k sas
   | _ \<Rightarrow> True)"

definition slots_ok :: "handle_ops \<Rightarrow> core \<Rightarrow> bool" where
  "slots_ok ops c \<longleftrightarrow> distinct (map wait_slot (cr_waits c)) \<and> list_all (\<lambda>w. wait_slot w < cr_next c) (cr_waits c)
     \<and> (\<forall>k sas. Arrived k sas \<in> set (cr_waits c) \<longrightarrow> filled ops c k sas)
     \<and> (\<forall>a. cr_state c = HActive a \<longrightarrow> phase_ok ops c (ac_phase a))"

definition core_ok :: "handle_ops \<Rightarrow> core \<Rightarrow> bool" where
  "core_ok ops c \<longleftrightarrow> commands_ok ops c \<and> states_ok c \<and> slots_ok ops c"

lemmas case_congs = option.case_cong handle_state.case_cong pairing_phase.case_cong

lemma the_dispatcher_update [simp]:
  "the_dispatcher (c\<lparr>cr_calls := x\<rparr>) = the_dispatcher c" "the_dispatcher (c\<lparr>cr_disk := d\<rparr>) = the_dispatcher c"
  "the_dispatcher (c\<lparr>cr_log := l\<rparr>) = the_dispatcher c" "the_dispatcher (c\<lparr>cr_slots := sl\<rparr>) = the_dispatcher c"
  "the_dispatcher (c\<lparr>cr_waits := ws\<rparr>) = the_dispatcher c" "the_dispatcher (c\<lparr>cr_next := n\<rparr>) = the_dispatcher c"
  "the_dispatcher (c\<lparr>cr_accepted := ks\<rparr>) = the_dispatcher c"
  by (simp_all add: the_dispatcher_def cong: case_congs)

lemma queued_update [simp]:
  "queued (c\<lparr>cr_calls := x\<rparr>) = queued c" "queued (c\<lparr>cr_disk := d\<rparr>) = queued c" "queued (c\<lparr>cr_log := l\<rparr>) = queued c"
  "queued (c\<lparr>cr_slots := sl\<rparr>) = queued c" "queued (c\<lparr>cr_waits := ws\<rparr>) = queued c" "queued (c\<lparr>cr_next := n\<rparr>) = queued c"
  "queued (c\<lparr>cr_accepted := ks\<rparr>) = queued c"
  by (simp_all add: queued_def)

lemma phase_ok_update [simp]:
  "phase_ok ops (c\<lparr>cr_calls := x\<rparr>) = phase_ok ops c" "phase_ok ops (c\<lparr>cr_disk := d\<rparr>) = phase_ok ops c"
  "phase_ok ops (c\<lparr>cr_log := l\<rparr>) = phase_ok ops c" "phase_ok ops (c\<lparr>cr_state := st\<rparr>) = phase_ok ops c"
  "phase_ok ops (c\<lparr>cr_stopping := sp\<rparr>) = phase_ok ops c" "phase_ok ops (c\<lparr>cr_accepted := ks\<rparr>) = phase_ok ops c"
  by (rule ext, simp add: phase_ok_def filled_def cong: case_congs)+

lemma filled_update [simp]:
  "filled ops (c\<lparr>cr_calls := x\<rparr>) = filled ops c" "filled ops (c\<lparr>cr_disk := d\<rparr>) = filled ops c"
  "filled ops (c\<lparr>cr_log := l\<rparr>) = filled ops c" "filled ops (c\<lparr>cr_state := st\<rparr>) = filled ops c"
  "filled ops (c\<lparr>cr_stopping := sp\<rparr>) = filled ops c" "filled ops (c\<lparr>cr_accepted := ks\<rparr>) = filled ops c"
  "filled ops (c\<lparr>cr_next := n\<rparr>) = filled ops c" "filled ops (c\<lparr>cr_waits := ws\<rparr>) = filled ops c"
  by (rule ext, rule ext, simp add: filled_def)+

lemma phase_ok_simps [simp]:
  "phase_ok ops c PhUnpaired" "phase_ok ops c PhBusy" "phase_ok ops c (PhOffering q k)" "phase_ok ops c (PhPaired r)"
  "phase_ok ops c (PhSasReady sas k) \<longleftrightarrow> k < cr_next c \<and> k \<notin> wait_slot ` set (cr_waits c) \<and> filled ops c k sas"
  by (simp_all add: phase_ok_def)

text \<open>The parts of the invariant under changes that do not concern them.\<close>

lemma ids_ok_mono: "ids_ok n ks \<Longrightarrow> n \<le> m \<Longrightarrow> ids_ok m ks"
  by (auto simp: ids_ok_def list_all_iff)

lemma ids_ok_snoc: "ids_ok n ks \<Longrightarrow> ids_ok (Suc n) (ks @ [n])"
  by (auto simp: ids_ok_def list_all_iff)

lemma commands_ok_mono:
  assumes "commands_ok ops c" "the_dispatcher c' = the_dispatcher c" "replies (cr_log c') = replies (cr_log c)"
    "cr_accepted c' = cr_accepted c" "cr_next c \<le> cr_next c'"
  shows "commands_ok ops c'"
  using assms ids_ok_mono [of "cr_next c" "cr_accepted c" "cr_next c'"] unfolding commands_ok_def queued_def by metis

lemma states_ok_mono:
  "states_ok c \<Longrightarrow> cr_state c' = cr_state c \<Longrightarrow> cr_stopping c' = cr_stopping c \<Longrightarrow> states_ok c'"
  by (simp add: states_ok_def)

lemma slots_okI:
  assumes "distinct (map wait_slot (cr_waits c))" "\<And>w. w \<in> set (cr_waits c) \<Longrightarrow> wait_slot w < cr_next c"
    "\<And>k sas. Arrived k sas \<in> set (cr_waits c) \<Longrightarrow> filled ops c k sas"
    "\<And>a. cr_state c = HActive a \<Longrightarrow> phase_ok ops c (ac_phase a)"
  shows "slots_ok ops c"
  using assms by (simp add: slots_ok_def list_all_iff)

lemma slots_okD:
  assumes "slots_ok ops c"
  shows "distinct (map wait_slot (cr_waits c))" "w \<in> set (cr_waits c) \<Longrightarrow> wait_slot w < cr_next c"
    "Arrived k sas \<in> set (cr_waits c) \<Longrightarrow> filled ops c k sas" "Arrived k sas \<in> set (cr_waits c) \<Longrightarrow> k < cr_next c"
    "cr_state c = HActive a \<Longrightarrow> phase_ok ops c (ac_phase a)"
  using assms by (force simp: slots_ok_def list_all_iff)+

lemmas core_ok_parts = core_ok_def commands_ok_def states_ok_def slots_ok_def

lemma core_ok_calls [simp]: "core_ok ops (c\<lparr>cr_calls := x\<rparr>) = core_ok ops c"
  by (simp add: core_ok_parts)

lemma core_ok_disk [simp]: "core_ok ops (c\<lparr>cr_disk := d\<rparr>) = core_ok ops c"
  by (simp add: core_ok_parts)

lemma core_ok_drop_call [simp]: "core_ok ops (drop_call x c) = core_ok ops c"
  by (simp add: drop_call_def)

lemma core_ok_files [simp]: "core_ok ops (set_pairing_files f c) = core_ok ops c"
  by (simp add: set_pairing_files_def)

lemma core_ok_emit [simp]: "core_ok ops (emit st c) = core_ok ops c"
  by (simp add: emit_def core_ok_parts)

lemma active_dispatcher:
  assumes "states_ok c" "cr_state c = HActive a"
  shows "cr_stopping c = None" "the_dispatcher c = Some (ac_dispatcher a)"
    "the_dispatcher (c\<lparr>cr_state := HActive a'\<rparr>) = Some (ac_dispatcher a')"
  using assms by (cases "cr_stopping c"; auto simp: states_ok_def the_dispatcher_def)+

lemma core_ok_phase:
  assumes "core_ok ops c" "cr_state c = HActive a" "phase_ok ops c p"
  shows "core_ok ops (c\<lparr>cr_state := HActive (a\<lparr>ac_phase := p\<rparr>)\<rparr>)"
proof -
  have "states_ok c" using assms(1) by (simp add: core_ok_def)
  note td = active_dispatcher [OF this assms(2)]
  have "commands_ok ops (c\<lparr>cr_state := HActive (a\<lparr>ac_phase := p\<rparr>)\<rparr>)"
    by (rule commands_ok_mono [of _ c]) (use assms(1) td in \<open>simp_all add: core_ok_def\<close>)
  then show ?thesis using assms by (simp add: core_ok_def states_ok_def slots_ok_def)
qed

lemma with_active_ok:
  assumes "core_ok ops c" "with_active f c = (r, c')"
    and "\<And>a. cr_state c = HActive a \<Longrightarrow> snd (f a) = a \<or> (\<exists>p. snd (f a) = a\<lparr>ac_phase := p\<rparr> \<and> phase_ok ops c p)"
  shows "core_ok ops c'"
proof (cases "cr_state c")
  case (HActive a)
  have c': "c' = c\<lparr>cr_state := HActive (snd (f a))\<rparr>"
    using assms(2) HActive by (auto simp: with_active_def split: prod.splits)
  from assms(3) [OF HActive] show ?thesis
  proof
    assume "snd (f a) = a"
    then have "c' = c" using c' HActive by simp
    then show ?thesis using assms(1) by simp
  qed (use core_ok_phase [OF assms(1) HActive] c' in auto)
qed (use assms(1,2) in \<open>auto simp: with_active_def\<close>)

lemma set_phase_ok:
  assumes "core_ok ops c" "set_phase p c = (r, c')" "phase_ok ops c p" shows "core_ok ops c'"
  using assms(1) assms(2) [unfolded set_phase_def] by (rule with_active_ok) (use assms(3) in auto)

lemma phase_ok_mono:
  assumes "phase_ok ops c p" "cr_next c \<le> cr_next c'" "cr_waits c' = cr_waits c"
    and "\<And>k. k < cr_next c \<Longrightarrow> cr_slots c' k = cr_slots c k"
  shows "phase_ok ops c' p"
  using assms by (cases p) (auto simp: filled_def)

lemma slots_ok_mono:
  assumes "slots_ok ops c" "cr_next c \<le> cr_next c'" "cr_waits c' = cr_waits c" "cr_state c' = cr_state c"
    and "\<And>k. k < cr_next c \<Longrightarrow> cr_slots c' k = cr_slots c k"
  shows "slots_ok ops c'"
proof (rule slots_okI)
  fix k sas assume "Arrived k sas \<in> set (cr_waits c')"
  then have "filled ops c k sas" "k < cr_next c" using slots_okD(3,4) [OF assms(1)] assms(3) by auto
  then show "filled ops c' k sas" using assms(5) by (simp add: filled_def)
next
  fix a assume "cr_state c' = HActive a"
  then show "phase_ok ops c' (ac_phase a)" using slots_okD(5) [OF assms(1)] assms by (intro phase_ok_mono [OF _ assms(2,3,5)]) auto
qed (use slots_okD(1,2) [OF assms(1)] assms in \<open>auto intro: less_le_trans\<close>)

lemma fresh_slot_ok:
  assumes "core_ok ops c" shows "core_ok ops (c\<lparr>cr_next := Suc (cr_next c), cr_slots := (cr_slots c)(cr_next c := v)\<rparr>)"
proof -
  let ?c = "c\<lparr>cr_next := Suc (cr_next c), cr_slots := (cr_slots c)(cr_next c := v)\<rparr>"
  have ok: "commands_ok ops c" "states_ok c" "slots_ok ops c" using assms by (simp_all add: core_ok_def)
  have "commands_ok ops ?c" by (rule commands_ok_mono [OF ok(1)]) simp_all
  moreover have "states_ok ?c" by (rule states_ok_mono [OF ok(2)]) simp_all
  moreover have "slots_ok ops ?c" by (rule slots_ok_mono [OF ok(3)]) simp_all
  ultimately show ?thesis by (simp add: core_ok_def)
qed

lemma queue_try_send_ok:
  assumes "queue_try_send ops cmd dp = (r, dp')" "queue_ok ops dp"
  shows "queue_ok ops dp'" "r = Inr () \<Longrightarrow> map reply_to (dp_queue dp') = map reply_to (dp_queue dp) @ [reply_to cmd]"
    "r \<noteq> Inr () \<Longrightarrow> dp' = dp" "dp_open dp' = dp_open dp" "dp_stopped dp' = dp_stopped dp"
  using assms by (auto simp: queue_try_send_def queue_ok_def split: if_splits)

lemma try_command_ok:
  assumes "core_ok ops c" "try_command ops cmd c = (r, c')" "\<And>k. reply_to (cmd k) = k"
  shows "core_ok ops c'"
proof (cases "cr_state c")
  case (HActive a)
  obtain q dp where q: "queue_try_send ops (cmd (cr_next c)) (ac_dispatcher a) = (q, dp)" by fastforce
  have "states_ok c" using assms(1) by (simp add: core_ok_def)
  note td = active_dispatcher [OF this HActive]
  then have "queue_ok ops (ac_dispatcher a)" using assms(1) by (simp add: core_ok_def commands_ok_def)
  note qs = queue_try_send_ok [OF q this]
  show ?thesis
  proof (cases q)
    case (Inl e)
    then have "c' = c" using assms(2) q qs(3) HActive by (auto simp: try_command_def with_active_def Let_def)
    then show ?thesis using assms(1) by simp
  next
    case (Inr u)
    then have c': "c' = c\<lparr>cr_state := HActive (a\<lparr>ac_dispatcher := dp\<rparr>), cr_next := Suc (cr_next c), cr_accepted := cr_accepted c @ [cr_next c]\<rparr>"
      using assms(2) q HActive by (auto simp: try_command_def with_active_def Let_def)
    have "commands_ok ops c'"
    proof -
      have "commands_ok ops c" using assms(1) by (simp add: core_ok_def)
      moreover have "q = Inr ()" using Inr by simp
      ultimately show ?thesis using qs(1) qs(2) td assms(3)
        using ids_ok_snoc [of "cr_next c" "cr_accepted c"] unfolding commands_ok_def queued_def by (auto simp: c')
    qed
    moreover have "states_ok c'" using assms(1) qs(4,5) HActive td(1) by (simp add: core_ok_def states_ok_def c')
    moreover have "slots_ok ops c'"
    proof (rule slots_okI)
      have ok: "slots_ok ops c" using assms(1) by (simp add: core_ok_def)
      fix k sas assume "Arrived k sas \<in> set (cr_waits c')"
      then show "filled ops c' k sas" using slots_okD(3) [OF ok] by (simp add: c')
    next
      fix a' assume "cr_state c' = HActive a'"
      then have "a' = a\<lparr>ac_dispatcher := dp\<rparr>" by (simp add: c')
      then have "ac_phase a' = ac_phase a" by simp
      moreover have "phase_ok ops c (ac_phase a)" using assms(1) HActive by (simp add: core_ok_def slots_ok_def)
      ultimately show "phase_ok ops c' (ac_phase a')" by (simp add: phase_ok_mono [of ops c] c')
    qed (use assms(1) slots_okD(1,2) [of ops c] in \<open>simp_all add: core_ok_def c' less_SucI\<close>)
    ultimately show ?thesis by (simp add: core_ok_def)
  qed
qed (use assms(1,2) in \<open>simp_all add: try_command_def with_active_def Let_def\<close>)

lemma turn_fields:
  assumes "dispatcher_turn ops env dp d dp' d' os"
  shows "map reply_to (dp_queue dp) = replies os @ map reply_to (dp_queue dp')" "dp_open dp' = dp_open dp"
    "dp_stopped dp' \<Longrightarrow> dp_queue dp' = [] \<and> \<not> dp_open dp" "length (dp_queue dp') \<le> length (dp_queue dp)"
proof -
  consider "command_turn ops env dp d = Some (dp', d', os)" | "live_turn ops env dp d = Some (dp', d', os)"
    using assms by (auto simp: dispatcher_turn_def)
  then have "map reply_to (dp_queue dp) = replies os @ map reply_to (dp_queue dp') \<and> dp_open dp' = dp_open dp
      \<and> (dp_stopped dp' \<longrightarrow> dp_queue dp' = [] \<and> \<not> dp_open dp) \<and> length (dp_queue dp') \<le> length (dp_queue dp)"
  proof cases
    case 1
    note f = command_turn_fields [OF 1]
    show ?thesis using f(1-4) by auto
  next
    case 2
    note f = live_turn_fields [OF 2]
    show ?thesis using f by simp
  qed
  then show "map reply_to (dp_queue dp) = replies os @ map reply_to (dp_queue dp')" "dp_open dp' = dp_open dp"
    "dp_stopped dp' \<Longrightarrow> dp_queue dp' = [] \<and> \<not> dp_open dp" "length (dp_queue dp') \<le> length (dp_queue dp)" by auto
qed

subsection \<open>Every step keeps the invariant\<close>

lemma begin_phase_transition_ok:
  assumes "core_ok ops c" "begin_phase_transition c = (r, c')" shows "core_ok ops c'"
  using assms(1) assms(2) [unfolded begin_phase_transition_def] by (rule with_active_ok) (auto intro: exI [of _ PhBusy])

lemma abort_phase_transition_ok: "core_ok ops c \<Longrightarrow> core_ok ops (abort_phase_transition e c)"
  by (auto simp: abort_phase_transition_def intro: core_ok_phase split: handle_state.split)

lemma abort_wait_ok:
  assumes "core_ok ops c" shows "core_ok ops (abort_wait k c)"
proof -
  let ?c = "abort_wait k c"
  have ok: "commands_ok ops c" "states_ok c" "slots_ok ops c" using assms by (simp_all add: core_ok_def)
  have "commands_ok ops ?c" by (rule commands_ok_mono [OF ok(1)]) (simp_all add: abort_wait_def)
  moreover have "states_ok ?c" by (rule states_ok_mono [OF ok(2)]) (simp_all add: abort_wait_def)
  moreover have "slots_ok ops ?c"
  proof (rule slots_okI)
    show "distinct (map wait_slot (cr_waits ?c))"
      using slots_okD(1) [OF ok(3)] by (simp add: abort_wait_def distinct_map_filter)
    show "phase_ok ops ?c (ac_phase a)" if "cr_state ?c = HActive a" for a
      using slots_okD(5) [OF ok(3), of a] that by (cases "ac_phase a") (auto simp: abort_wait_def)
  qed (use slots_okD(2,3) [OF ok(3)] in \<open>auto simp: abort_wait_def\<close>)
  ultimately show ?thesis by (simp add: core_ok_def)
qed

lemma build_connection_ok: "core_ok ops c \<Longrightarrow> core_ok ops (snd (build_connection ops io l c))"
  by (auto simp: build_connection_def Let_def split: sum.split prod.split)

lemma activate_enqueue_ok:
  assumes "core_ok ops c" shows "core_ok ops (snd (activate_enqueue ops io l c))"
proof -
  obtain r c1 where b: "build_connection ops io l c = (r, c1)" by fastforce
  have ok: "core_ok ops c1" using build_connection_ok [OF assms] b by (metis snd_conv)
  show ?thesis
  proof (cases r)
    case (Inr conn)
    obtain q c2 where t: "try_command ops (CmdConnect conn) c1 = (q, c2)" by fastforce
    show ?thesis using try_command_ok [OF ok t] b Inr t by (auto simp: activate_enqueue_def split: sum.split)
  qed (use ok b in \<open>simp add: activate_enqueue_def\<close>)
qed

lemma pair_begin_enter_ok: "core_ok ops c \<Longrightarrow> core_ok ops (snd (pair_begin_enter ops io url c))"
  using begin_phase_transition_ok [of ops c] by (auto simp: pair_begin_enter_def split: sum.split prod.split)

lemma pair_claim_enter_ok: "core_ok ops c \<Longrightarrow> core_ok ops (snd (pair_claim_enter ops io url c))"
  using begin_phase_transition_ok [of ops c] by (auto simp: pair_claim_enter_def split: sum.split prod.split)

lemma spawn_wait_ok:
  assumes "core_ok ops c"
  shows "core_ok ops (c\<lparr>cr_next := Suc (cr_next c), cr_slots := (cr_slots c)(cr_next c := None),
      cr_waits := Waiting (cr_next c) off sk # cr_waits c\<rparr>)"
proof -
  let ?c1 = "c\<lparr>cr_next := Suc (cr_next c), cr_slots := (cr_slots c)(cr_next c := None)\<rparr>"
  let ?c = "?c1\<lparr>cr_waits := Waiting (cr_next c) off sk # cr_waits c\<rparr>"
  have fresh: "cr_next c \<notin> wait_slot ` set (cr_waits c)"
    using assms slots_okD(2) [of ops c] by (fastforce simp: core_ok_def)
  have ph: "phase_ok ops c (ac_phase a)" if "cr_state c = HActive a" for a
    using assms that slots_okD(5) by (auto simp: core_ok_def)
  have ok: "commands_ok ops ?c1" "states_ok ?c1" "slots_ok ops ?c1"
    using fresh_slot_ok [OF assms, of None] by (simp_all add: core_ok_def)
  have "commands_ok ops ?c" by (rule commands_ok_mono [OF ok(1)]) simp_all
  moreover have "states_ok ?c" by (rule states_ok_mono [OF ok(2)]) simp_all
  moreover have "slots_ok ops ?c"
  proof (rule slots_okI)
    show "phase_ok ops ?c (ac_phase a)" if "cr_state ?c = HActive a" for a
      using slots_okD(5) [OF ok(3), of a] ph [of a] that by (cases "ac_phase a") auto
  qed (use fresh slots_okD(1,2,3) [OF ok(3)] in auto)
  ultimately show ?thesis by (simp add: core_ok_def)
qed

lemma pair_begin_io_ok:
  assumes "core_ok ops c" shows "core_ok ops (snd (pair_begin_io ops io url c))"
proof -
  obtain r f where p: "publish_offer ops io url (dk_pairing (cr_disk c)) = (r, f)" by fastforce
  have ok: "core_ok ops (set_pairing_files f c)" using assms by simp
  show ?thesis
    using abort_phase_transition_ok [OF ok] spawn_wait_ok [OF ok] ok
    by (auto simp: pair_begin_io_def p Let_def set_pairing_files_def split: sum.split)
qed

lemma pair_begin_offer_ok:
  assumes "core_ok ops c" shows "core_ok ops (snd (pair_begin_offer q k c))"
proof -
  obtain r c' where p: "set_phase (PhOffering q k) c = (r, c')" by fastforce
  show ?thesis using set_phase_ok [OF assms p] p by (auto simp: pair_begin_offer_def split: sum.split)
qed

lemma pair_claim_io_ok:
  assumes "core_ok ops c" shows "core_ok ops (snd (pair_claim_io ops io qr c))"
proof -
  obtain r f where p: "claim (ho_core ops) (io_attempt io) qr (dk_pairing (cr_disk c)) = (r, f)" by fastforce
  let ?c = "set_pairing_files f c"
  have ok: "core_ok ops ?c" using assms by simp
  show ?thesis
  proof (cases "block_on_io (io_timed_out io) (map_err (from_transport (ho_texts ops)) r)")
    case (Inl e)
    then show ?thesis using p abort_phase_transition_ok [OF ok] by (simp add: pair_claim_io_def Let_def)
  next
    case (Inr b)
    obtain ch sk where b: "b = (ch, sk)" by (cases b)
    let ?sas = "pending_sas (ho_crates ops) (pch_pending ch)"
    let ?c1 = "?c\<lparr>cr_next := Suc (cr_next ?c), cr_slots := (cr_slots ?c)(cr_next ?c \<mapsto> (ch, sk))\<rparr>"
    have ok1: "core_ok ops ?c1" by (rule fresh_slot_ok [OF ok])
    have "cr_next ?c \<notin> wait_slot ` set (cr_waits ?c1)"
      using ok slots_okD(2) [of ops ?c] by (fastforce simp: core_ok_def)
    then have ph: "phase_ok ops ?c1 (PhSasReady ?sas (cr_next ?c))" by (simp add: filled_def)
    obtain q c2 where s: "set_phase (PhSasReady ?sas (cr_next ?c)) ?c1 = (q, c2)" by fastforce
    show ?thesis using set_phase_ok [OF ok1 s ph] p Inr b s by (auto simp: pair_claim_io_def Let_def split: sum.split)
  qed
qed

lemma pair_confirm_enter_ok:
  assumes "core_ok ops c" shows "core_ok ops (snd (pair_confirm_enter ops io sas c))"
proof -
  let ?f = "\<lambda>a. case ac_phase a of PhSasReady _ k \<Rightarrow> (Inr k, a\<lparr>ac_phase := PhBusy\<rparr>) | _ \<Rightarrow> (Inl CBusy, a)"
  obtain r c1 where w: "with_active ?f c = (r, c1)" by fastforce
  have ok: "core_ok ops c1"
    by (rule with_active_ok [OF assms w]) (auto split: pairing_phase.split)
  have "core_ok ops (c1\<lparr>cr_slots := (cr_slots c1)(k := None)\<rparr>)" if "r = Inr k" for k
  proof -
    let ?c = "c1\<lparr>cr_slots := (cr_slots c1)(k := None)\<rparr>"
    from w that obtain a sas' where a: "cr_state c = HActive a" "ac_phase a = PhSasReady sas' k"
      "c1 = c\<lparr>cr_state := HActive (a\<lparr>ac_phase := PhBusy\<rparr>)\<rparr>"
      by (auto simp: with_active_def split: handle_state.splits pairing_phase.splits)
    have "phase_ok ops c (ac_phase a)" using assms a(1) slots_okD(5) by (auto simp: core_ok_def)
    then have k: "k \<notin> wait_slot ` set (cr_waits c)" using a(2) by simp
    have parts: "commands_ok ops c1" "states_ok c1" "slots_ok ops c1" using ok by (simp_all add: core_ok_def)
    have "commands_ok ops ?c" by (rule commands_ok_mono [OF parts(1)]) simp_all
    moreover have "states_ok ?c" by (rule states_ok_mono [OF parts(2)]) simp_all
    moreover have "slots_ok ops ?c"
    proof (rule slots_okI)
      fix j sas assume j: "Arrived j sas \<in> set (cr_waits ?c)"
      then have "j \<noteq> k" using k a(3) by force
      then show "filled ops ?c j sas" using slots_okD(3) [OF parts(3)] j by (simp add: filled_def)
    qed (use slots_okD(1,2) [OF parts(3)] a(3) in auto)
    ultimately show ?thesis by (simp add: core_ok_def)
  qed
  then show ?thesis using ok w by (auto simp: pair_confirm_enter_def Let_def split: sum.split option.split)
qed

lemma pair_confirm_io_ok:
  assumes "core_ok ops c" shows "core_ok ops (snd (pair_confirm_io ops io sas ch sk c))"
  using assms abort_phase_transition_ok activate_enqueue_ok
  by (auto simp: pair_confirm_io_def Let_def split: sum.split prod.split)

lemma activate_finish_ok:
  assumes "core_ok ops c" shows "core_ok ops (snd (activate_finish r answered c))"
proof -
  obtain q c' where p: "set_phase (PhPaired r) c = (q, c')" by fastforce
  show ?thesis using set_phase_ok [OF assms p] p assms by (auto simp: activate_finish_def)
qed

lemma pair_cancel_ok:
  assumes "core_ok ops c" shows "core_ok ops (snd (pair_cancel c))"
proof -
  let ?f = "\<lambda>a. case ac_phase a of PhOffering _ k \<Rightarrow> (Inr (True, Some k), a\<lparr>ac_phase := PhUnpaired\<rparr>)
            | PhSasReady _ _ \<Rightarrow> (Inr (True, None), a\<lparr>ac_phase := PhUnpaired\<rparr>)
            | _ \<Rightarrow> (Inr (False, None), a)"
  obtain r c1 where w: "with_active ?f c = (r :: core_error + bool \<times> nat option, c1)" by fastforce
  have ok: "core_ok ops c1" by (rule with_active_ok [OF assms w]) (auto split: pairing_phase.split)
  show ?thesis using w ok abort_wait_ok [OF ok] by (auto simp: pair_cancel_def Let_def split: sum.split option.split)
qed

lemma pair_load_ok:
  assumes "core_ok ops c" shows "core_ok ops (snd (pair_load ops io c))"
proof -
  let ?f = "\<lambda>rec a. case (ac_phase a, rec) of
                   (PhPaired _, _) \<Rightarrow> (Inr True, a)
                 | (PhUnpaired, Some r) \<Rightarrow> (Inr True, a\<lparr>ac_phase := PhPaired r\<rparr>)
                 | (PhUnpaired, None) \<Rightarrow> (Inr False, a)
                 | (_, Some _) \<Rightarrow> (Inl CBusy, a)
                 | (_, None) \<Rightarrow> (Inr False, a)"
  have "core_ok ops (snd (with_active (?f rec) (set_pairing_files f c)))" for rec f
  proof -
    obtain q c' where w: "with_active (?f rec) (set_pairing_files f c) = (q, c')" by fastforce
    have "core_ok ops c'"
      by (rule with_active_ok [OF _ w]) (use assms in \<open>auto split: pairing_phase.split option.split\<close>)
    with w show ?thesis by simp
  qed
  with assms show ?thesis by (auto simp: pair_load_def split: sum.split prod.split)
qed

lemma start_enter_ok:
  assumes "core_ok ops c" shows "core_ok ops (snd (start_enter ops io c))"
proof -
  let ?f = "\<lambda>a. case ac_phase a of PhPaired r \<Rightarrow> (Inr r, a\<lparr>ac_phase := PhBusy\<rparr>)
            | PhUnpaired \<Rightarrow> (Inl CNotPaired, a) | _ \<Rightarrow> (Inl CBusy, a)"
  obtain r c1 where w: "with_active ?f (emit StConnecting c) = (r, c1)" by fastforce
  have "core_ok ops c1" by (rule with_active_ok [OF _ w]) (use assms in \<open>auto split: pairing_phase.split\<close>)
  then show ?thesis using w by (auto simp: start_enter_def split: sum.split)
qed

lemma start_io_ok:
  assumes "core_ok ops c" shows "core_ok ops (snd (start_io ops io r c))"
proof -
  obtain l f where j: "client_join (ho_core ops) (io_attempt io) (dk_pairing (cr_disk c)) = (l, f)" by fastforce
  have ok: "core_ok ops (set_pairing_files f c)" using assms by simp
  obtain q c' where p: "set_phase (PhPaired r) (set_pairing_files f c) = (q, c')" by fastforce
  show ?thesis using j p set_phase_ok [OF ok p] activate_enqueue_ok [OF ok]
    by (auto simp: start_io_def Let_def split: sum.split)
qed

lemma try_command_snd_ok:
  assumes "core_ok ops c" "\<And>k. reply_to (cmd k) = k" shows "core_ok ops (snd (try_command ops cmd c))"
  using try_command_ok [OF assms(1) _ assms(2)] by (metis prod.collapse)

lemma request_ok:
  assumes "core_ok ops c"
  shows "core_ok ops (snd (send_text ops t now c))" "core_ok ops (snd (send_image ops bs now c))"
    "core_ok ops (snd (list_history ops c))" "core_ok ops (snd (history_image_bytes ops message i c))"
    "core_ok ops (snd (history_apply ops message i c))" "core_ok ops (snd (clear_all_history ops c))"
    "core_ok ops (snd (ask_echo ops hash c))"
proof -
  note t = try_command_snd_ok [OF assms]
  show "core_ok ops (snd (send_text ops t now c))" by (simp add: send_text_def t)
  show "core_ok ops (snd (send_image ops bs now c))" by (simp add: send_image_def t)
  show "core_ok ops (snd (list_history ops c))" by (simp add: list_history_def t)
  show "core_ok ops (snd (clear_all_history ops c))" by (simp add: clear_all_history_def t)
  show "core_ok ops (snd (history_image_bytes ops message i c))"
    by (simp add: history_image_bytes_def t assms split: sum.split)
  show "core_ok ops (snd (history_apply ops message i c))"
    by (simp add: history_apply_def t assms split: sum.split)
  show "core_ok ops (snd (ask_echo ops hash c))"
    using t [of "CmdIsEcho hash"] by (auto simp: ask_echo_def split: sum.split prod.split)
qed

lemma stopping_dispatcher [simp]:
  "the_dispatcher (c\<lparr>cr_stopping := Some sp\<rparr>) = Some (sp_dispatcher sp)"
  "cr_stopping c = Some sp \<Longrightarrow> the_dispatcher c = Some (sp_dispatcher sp)"
  by (simp_all add: the_dispatcher_def)

text \<open>A change of the dispatcher with the events of its turn.\<close>

lemma commands_ok_turn:
  assumes "commands_ok ops c" "the_dispatcher c = Some dp" "dispatcher_turn ops env dp d dp' d' os" "the_dispatcher c' = Some dp'"
    "cr_log c' = cr_log c @ os" "cr_accepted c' = cr_accepted c" "cr_next c' = cr_next c"
  shows "commands_ok ops c'"
proof -
  note f = turn_fields [OF assms(3)]
  have "queue_ok ops dp'" using assms(1,2) f(3,4) by (auto simp: commands_ok_def queue_ok_def)
  then show ?thesis using assms f(1) by (auto simp: commands_ok_def queued_def)
qed

lemma stop_enter_ok:
  assumes "core_ok ops c" shows "core_ok ops (snd (stop_enter kind c))"
proof (cases "cr_state c")
  case (HActive a)
  have ok: "commands_ok ops c" "states_ok c" "slots_ok ops c" using assms by (simp_all add: core_ok_def)
  note td = active_dispatcher [OF ok(2) HActive]
  let ?sp = "\<lparr>sp_kind = kind, sp_dispatcher = ac_dispatcher a\<rparr>"
  let ?c = "c\<lparr>cr_state := HTransitioning, cr_stopping := Some ?sp\<rparr>"
  have "commands_ok ops ?c" by (rule commands_ok_mono [OF ok(1)]) (simp_all add: td)
  moreover have "states_ok ?c" by (simp add: states_ok_def)
  moreover have "slots_ok ops ?c" by (rule slots_okI) (use slots_okD(1-3) [OF ok(3)] in auto)
  ultimately have c: "core_ok ops ?c" by (simp add: core_ok_def)
  have "snd (stop_enter kind c) = (case ac_phase a of PhOffering _ k \<Rightarrow> abort_wait k ?c | _ \<Rightarrow> ?c)"
    using HActive by (simp add: stop_enter_def take_active_def abort_wait_def split: pairing_phase.split)
  then show ?thesis using c abort_wait_ok [OF c] by (simp split: pairing_phase.split)
qed (use assms in \<open>simp_all add: stop_enter_def take_active_def\<close>)

lemma stop_disconnect_ok:
  assumes "core_ok ops c" "cr_stopping c = Some sp" shows "core_ok ops (stop_disconnect ops sp c)"
proof -
  have ok: "commands_ok ops c" "states_ok c" "slots_ok ops c" using assms by (simp_all add: core_ok_def)
  have q: "queue_ok ops (sp_dispatcher sp)" using ok(1) assms(2) by (simp add: commands_ok_def)
  obtain r dp where t: "queue_try_send ops (CmdDisconnect (cr_next c)) (sp_dispatcher sp) = (r, dp)" by fastforce
  note qs = queue_try_send_ok [OF t q]
  show ?thesis
  proof (cases r)
    case (Inr u)
    let ?c = "c\<lparr>cr_stopping := Some (sp\<lparr>sp_dispatcher := dp\<rparr>), cr_next := Suc (cr_next c), cr_accepted := cr_accepted c @ [cr_next c]\<rparr>"
    have "commands_ok ops ?c"
      using ok(1) assms(2) qs(1) qs(2) Inr ids_ok_snoc [of "cr_next c" "cr_accepted c"] by (auto simp: commands_ok_def queued_def)
    moreover have "states_ok ?c" using ok(2) assms(2) by (simp add: states_ok_def)
    moreover have "slots_ok ops ?c" by (rule slots_ok_mono [OF ok(3)]) simp_all
    ultimately show ?thesis using t Inr by (simp add: stop_disconnect_def core_ok_def)
  qed (use t assms in \<open>simp add: stop_disconnect_def\<close>)
qed

lemma stop_close_ok:
  assumes "core_ok ops c" "cr_stopping c = Some sp" shows "core_ok ops (stop_close sp c)"
proof -
  have ok: "commands_ok ops c" "states_ok c" "slots_ok ops c" using assms by (simp_all add: core_ok_def)
  have "commands_ok ops (stop_close sp c)" using ok(1) assms(2) by (auto simp: commands_ok_def stop_close_def queued_def queue_ok_def)
  moreover have "states_ok (stop_close sp c)" using ok(2) assms(2) by (simp add: states_ok_def stop_close_def)
  moreover have "slots_ok ops (stop_close sp c)" by (rule slots_ok_mono [OF ok(3)]) (simp_all add: stop_close_def)
  ultimately show ?thesis by (simp add: core_ok_def)
qed

lemma replies_gone [simp]: "replies (map (\<lambda>cmd. OReply (reply_to cmd) RpGone) cmds) = map reply_to cmds"
  by (induction cmds) simp_all

text \<open>After the dispatcher is gone, each accepted command has its reply.\<close>

lemma stop_join_ok:
  assumes "core_ok ops c" "cr_stopping c = Some sp" "stop_join sp c = (r, c')"
  shows "core_ok ops c'" "cr_stopping c' = None" "cr_state c' = HTransitioning"
proof -
  have ok: "commands_ok ops c" "states_ok c" "slots_ok ops c" using assms by (simp_all add: core_ok_def)
  show st: "cr_stopping c' = None" "cr_state c' = HTransitioning"
    using ok(2) assms(2,3) by (auto simp: stop_join_def states_ok_def split: if_splits)
  have "cr_accepted c = replies (cr_log c) @ map reply_to (dp_queue (sp_dispatcher sp))" "ids_ok (cr_next c) (cr_accepted c)"
    "dp_stopped (sp_dispatcher sp) \<Longrightarrow> dp_queue (sp_dispatcher sp) = []"
    using ok(1) assms(2) by (auto simp: commands_ok_def queued_def queue_ok_def)
  moreover have "the_dispatcher c' = None" using st by (simp add: the_dispatcher_def)
  ultimately have "commands_ok ops c'" using assms(3) by (auto simp: stop_join_def commands_ok_def queued_def split: if_splits)
  moreover have "states_ok c'" using st by (simp add: states_ok_def)
  moreover have "slots_ok ops c'" by (rule slots_ok_mono [OF ok(3)]) (use assms(3) in \<open>auto simp: stop_join_def split: if_splits\<close>)
  ultimately show "core_ok ops c'" by (simp add: core_ok_def)
qed

lemma stopped_state_ok:
  assumes "core_ok ops c" "cr_stopping c = None" "cr_state c = HTransitioning"
  shows "core_ok ops (c\<lparr>cr_state := HShutdown\<rparr>)" "spawn_active fails = Inr a \<Longrightarrow> core_ok ops (c\<lparr>cr_state := HActive a\<rparr>)"
proof -
  have ok: "commands_ok ops c" "states_ok c" "slots_ok ops c" using assms by (simp_all add: core_ok_def)
  have td: "the_dispatcher c = None" "the_dispatcher (c\<lparr>cr_state := HShutdown\<rparr>) = None"
    "the_dispatcher (c\<lparr>cr_state := HActive b\<rparr>) = Some (ac_dispatcher b)" for b
    using assms(2,3) by (simp_all add: the_dispatcher_def)
  have s: "slots_ok ops (c\<lparr>cr_state := st\<rparr>)" if "\<And>b. st = HActive b \<Longrightarrow> ac_phase b = PhUnpaired" for st
    by (rule slots_okI) (use slots_okD(1-3) [OF ok(3)] that in auto)
  show "core_ok ops (c\<lparr>cr_state := HShutdown\<rparr>)"
    using ok(1) td s [of HShutdown] assms(2) by (auto simp: core_ok_def commands_ok_def queued_def states_ok_def)
  assume "spawn_active fails = Inr a"
  then have a: "a = \<lparr>ac_dispatcher = fresh_dispatcher, ac_phase = PhUnpaired\<rparr>" by (simp add: spawn_active_def split: if_splits)
  show "core_ok ops (c\<lparr>cr_state := HActive a\<rparr>)"
    using ok(1) td s [of "HActive a"] assms(2) unfolding a
    by (auto simp: core_ok_def commands_ok_def queued_def states_ok_def queue_ok_def fresh_dispatcher_def)
qed

lemma shutdown_finish_ok:
  assumes "core_ok ops c" "cr_stopping c = Some sp" shows "core_ok ops (snd (shutdown_finish sp c))"
proof -
  obtain r c' where j: "stop_join sp c = (r, c')" by fastforce
  note ok = stop_join_ok [OF assms j]
  show ?thesis using ok(1) stopped_state_ok(1) [OF ok] j by (auto simp: shutdown_finish_def split: sum.split)
qed

lemma reset_finish_ok:
  assumes "core_ok ops c" "cr_stopping c = Some sp" shows "core_ok ops (snd (reset_finish ops env sp c))"
proof -
  obtain r c1 where j: "stop_join sp c = (r, c1)" by fastforce
  note ok = stop_join_ok [OF assms j]
  obtain q c2 where f: "reset_files ops env c1 = (q, c2)" by fastforce
  have "c2 = c1 \<or> (\<exists>f. c2 = set_pairing_files f c1)"
    using f by (auto simp: reset_files_def split: sum.splits prod.splits)
  then have ok2: "core_ok ops c2" "cr_stopping c2 = None" "cr_state c2 = HTransitioning"
    using ok by (auto simp: set_pairing_files_def)
  show ?thesis using stopped_state_ok [OF ok2] j f by (auto simp: reset_finish_def split: sum.split)
qed

lemma waits_replaced_ok:
  assumes "core_ok ops c" "w \<in> set (cr_waits c)" "set (map wait_slot ws) \<subseteq> {wait_slot w}" "distinct (map wait_slot ws)"
    and c': "c' = (replace_wait w ws c)\<lparr>cr_slots := sl\<rparr>"
    and "\<And>k. k \<noteq> wait_slot w \<Longrightarrow> sl k = cr_slots c k" "\<And>k sas. Arrived k sas \<in> set ws \<Longrightarrow> filled ops c' k sas"
  shows "core_ok ops c'"
proof -
  have ok: "commands_ok ops c" "states_ok c" "slots_ok ops c" using assms(1) by (simp_all add: core_ok_def)
  note so = slots_okD [OF ok(3)]
  have eq: "cr_waits c' = ws @ remove1 w (cr_waits c)" "cr_slots c' = sl" "cr_next c' = cr_next c" "cr_state c' = cr_state c"
    by (simp_all add: c' replace_wait_def)
  have others: "set (remove1 w (cr_waits c)) = set (cr_waits c) - {w}" using so(1) by (simp add: distinct_map)
  have rest: "wait_slot v \<noteq> wait_slot w" if "v \<in> set (remove1 w (cr_waits c))" for v
    using that assms(2) so(1) by (auto simp: others distinct_map dest: inj_onD)
  have new: "wait_slot v = wait_slot w" if "v \<in> set ws" for v using assms(3) that by auto
  have "commands_ok ops c'" by (rule commands_ok_mono [OF ok(1)]) (simp_all add: c' replace_wait_def)
  moreover have "states_ok c'" by (rule states_ok_mono [OF ok(2)]) (simp_all add: c' replace_wait_def)
  moreover have "slots_ok ops c'"
  proof (rule slots_okI)
    show "distinct (map wait_slot (cr_waits c'))"
    proof -
      have "distinct (map wait_slot (remove1 w (cr_waits c)))"
        using so(1) by (auto simp: distinct_map others intro: inj_on_diff)
      moreover have "set (map wait_slot ws) \<inter> set (map wait_slot (remove1 w (cr_waits c))) = {}" using rest new by fastforce
      ultimately show ?thesis using assms(4) by (simp add: eq)
    qed
    show "wait_slot v < cr_next c'" if "v \<in> set (cr_waits c')" for v
      using that so(2) assms(2) new by (auto simp: eq others)
    show "filled ops c' k sas" if "Arrived k sas \<in> set (cr_waits c')" for k sas
    proof (cases "Arrived k sas \<in> set ws")
      case False
      then have v: "Arrived k sas \<in> set (remove1 w (cr_waits c))" using that by (simp add: eq)
      then have "k \<noteq> wait_slot w" "filled ops c k sas" using rest [OF v] so(3) [of k sas] by (simp_all add: others)
      then show ?thesis using assms(6) by (simp add: filled_def eq)
    qed (use assms(7) in simp)
    show "phase_ok ops c' (ac_phase a)" if "cr_state c' = HActive a" for a
    proof -
      have "phase_ok ops c (ac_phase a)" using so(5) that by (simp add: eq)
      moreover have "set (cr_waits c') \<subseteq> set ws \<union> set (cr_waits c)" by (auto simp: eq others)
      then have "wait_slot ` set (cr_waits c') \<subseteq> wait_slot ` set (cr_waits c)" using new assms(2) by auto
      moreover have "filled ops c' k sas = filled ops c k sas" if "k \<notin> wait_slot ` set (cr_waits c)" for k sas
      proof -
        have "k \<noteq> wait_slot w" using that assms(2) by auto
        then show ?thesis using assms(6) by (simp add: filled_def eq)
      qed
      ultimately show ?thesis by (cases "ac_phase a") (auto simp: eq)
    qed
  qed
  ultimately show ?thesis by (simp add: core_ok_def)
qed

lemma replace_wait_ok:
  assumes "core_ok ops c" "w \<in> set (cr_waits c)" "ws = [] \<or> (\<exists>off sk. ws = [Waiting (wait_slot w) off sk])"
  shows "core_ok ops (replace_wait w ws c)"
  by (rule waits_replaced_ok [OF assms(1,2), of ws _ "cr_slots c"])
     (use assms(3) in \<open>auto simp: replace_wait_def\<close>)

lemma wait_for_peer_ok:
  assumes "core_ok ops c" "Waiting k off sk \<in> set (cr_waits c)" shows "core_ok ops (wait_for_peer ops k off sk c)"
proof -
  let ?w = "Waiting k off sk"
  obtain r sk' where p: "wait_peer (ho_core ops) off sk = (r, sk')" by fastforce
  show ?thesis
  proof (cases r)
    case (Inr ch)
    let ?a = "Arrived k (pending_sas (ho_crates ops) (pch_pending ch))"
    have "core_ok ops ((replace_wait ?w [?a] c)\<lparr>cr_slots := (cr_slots c)(k \<mapsto> (ch, sk'))\<rparr>)"
      by (rule waits_replaced_ok [OF assms, of "[?a]" _ "(cr_slots c)(k \<mapsto> (ch, sk'))"]) (simp_all add: filled_def)
    then show ?thesis using p Inr by (simp add: wait_for_peer_def)
  next
    case (Inl e)
    let ?f = "\<lambda>a. if is_offering k (ac_phase a) then (Inr True, a\<lparr>ac_phase := PhUnpaired\<rparr>) else (Inr False, a)"
    obtain q c' where w: "with_active ?f (replace_wait ?w [] c) = (q, c')" by fastforce
    have "core_ok ops c'" by (rule with_active_ok [OF replace_wait_ok [OF assms, of "[]"] w]) auto
    then show ?thesis using p Inl w by (simp add: wait_for_peer_def split: sum.split bool.split)
  qed
qed

lemma announce_peer_ok:
  assumes "core_ok ops c" "Arrived k sas \<in> set (cr_waits c)" shows "core_ok ops (announce_peer k sas c)"
proof -
  let ?f = "\<lambda>a. (Inr (), if is_offering k (ac_phase a) then a\<lparr>ac_phase := PhSasReady sas k\<rparr> else a)"
  let ?c = "replace_wait (Arrived k sas) [] c"
  obtain q c' where w: "with_active ?f ?c = (q, c')" by fastforce
  have ok: "slots_ok ops c" using assms(1) by (simp add: core_ok_def)
  note so = slots_okD [OF ok]
  have others: "set (cr_waits ?c) = set (cr_waits c) - {Arrived k sas}" and inj: "inj_on wait_slot (set (cr_waits c))"
    using so(1) by (simp_all add: distinct_map replace_wait_def)
  have "wait_slot v \<noteq> k" if "v \<in> set (cr_waits ?c)" for v
    using inj_onD [OF inj, of v "Arrived k sas"] that assms(2) by (simp add: others) fastforce
  then have "k \<notin> wait_slot ` set (cr_waits ?c)" by blast
  then have "phase_ok ops ?c (PhSasReady sas k)"
    using so(3,4) [OF assms(2)] by (simp add: replace_wait_def)
  then have "core_ok ops c'"
    by (intro with_active_ok [OF replace_wait_ok [OF assms, of "[]"] w]) auto
  then show ?thesis using w by (auto simp: announce_peer_def split: sum.split)
qed

lemma dispatch_step_ok:
  assumes "core_ok ops c" "cr_state c = HActive a" "dispatcher_turn ops env (ac_dispatcher a) (cr_disk c) dp d os"
  shows "core_ok ops (c\<lparr>cr_state := HActive (a\<lparr>ac_dispatcher := dp\<rparr>), cr_disk := d, cr_log := cr_log c @ os\<rparr>)"
proof -
  let ?c = "c\<lparr>cr_state := HActive (a\<lparr>ac_dispatcher := dp\<rparr>), cr_disk := d, cr_log := cr_log c @ os\<rparr>"
  have ok: "commands_ok ops c" "states_ok c" "slots_ok ops c" using assms(1) by (simp_all add: core_ok_def)
  note td = active_dispatcher [OF ok(2) assms(2)]
  have "commands_ok ops ?c" by (rule commands_ok_turn [OF ok(1) td(2) assms(3)]) (simp_all add: td(3))
  moreover have "states_ok ?c"
    using ok(2) assms(2) turn_fields(2,3) [OF assms(3)] td(1) by (auto simp: states_ok_def)
  moreover have "slots_ok ops ?c" by (rule slots_okI) (use slots_okD(1-3,5) [OF ok(3)] assms(2) in auto)
  ultimately show ?thesis by (simp add: core_ok_def)
qed

lemma dispatch_stopping_ok:
  assumes "core_ok ops c" "cr_stopping c = Some sp" "dispatcher_turn ops env (sp_dispatcher sp) (cr_disk c) dp d os"
  shows "core_ok ops (c\<lparr>cr_stopping := Some (sp\<lparr>sp_dispatcher := dp\<rparr>), cr_disk := d, cr_log := cr_log c @ os\<rparr>)"
proof -
  let ?c = "c\<lparr>cr_stopping := Some (sp\<lparr>sp_dispatcher := dp\<rparr>), cr_disk := d, cr_log := cr_log c @ os\<rparr>"
  have ok: "commands_ok ops c" "states_ok c" "slots_ok ops c" using assms(1) by (simp_all add: core_ok_def)
  have "commands_ok ops ?c" by (rule commands_ok_turn [OF ok(1) _ assms(3)]) (simp_all add: assms(2))
  moreover have "states_ok ?c" using ok(2) assms(2) by (simp add: states_ok_def)
  moreover have "slots_ok ops ?c" by (rule slots_ok_mono [OF ok(3)]) simp_all
  ultimately show ?thesis by (simp add: core_ok_def)
qed

lemma socket_step_ok:
  assumes "core_ok ops c" "cr_state c = HActive a"
  shows "core_ok ops (c\<lparr>cr_state := HActive (a\<lparr>ac_dispatcher := set_socket sk (ac_dispatcher a)\<rparr>)\<rparr>)"
proof -
  let ?c = "c\<lparr>cr_state := HActive (a\<lparr>ac_dispatcher := set_socket sk (ac_dispatcher a)\<rparr>)\<rparr>"
  have ok: "commands_ok ops c" "states_ok c" "slots_ok ops c" using assms(1) by (simp_all add: core_ok_def)
  note td = active_dispatcher [OF ok(2) assms(2)]
  have "commands_ok ops ?c"
    using ok(1) td by (auto simp: commands_ok_def queued_def queue_ok_def set_socket_def)
  moreover have "states_ok ?c" using ok(2) assms(2) td(1) by (simp add: states_ok_def set_socket_def)
  moreover have "slots_ok ops ?c" by (rule slots_okI) (use slots_okD(1-3,5) [OF ok(3)] assms(2) in auto)
  ultimately show ?thesis by (simp add: core_ok_def)
qed

lemma core_ok_step:
  assumes "core_step ops c c'" "core_ok ops c" shows "core_ok ops c'"
  using assms
proof (induction rule: core_step.induct)
  case (step_wait_socket k off sk c sk')
  then show ?case by (intro replace_wait_ok) auto
qed (simp_all add: pair_begin_enter_ok pair_begin_io_ok pair_begin_offer_ok pair_claim_enter_ok pair_claim_io_ok
    pair_confirm_enter_ok pair_confirm_io_ok activate_finish_ok pair_cancel_ok pair_load_ok start_enter_ok start_io_ok
    request_ok stop_enter_ok stop_disconnect_ok stop_close_ok shutdown_finish_ok reset_finish_ok wait_for_peer_ok
    announce_peer_ok dispatch_step_ok dispatch_stopping_ok socket_step_ok)

lemma build_ok: "build f1 f2 d = Inr c \<Longrightarrow> core_ok ops c"
  by (auto simp: build_def spawn_active_def core_ok_parts the_dispatcher_def queued_def queue_ok_def fresh_dispatcher_def ids_ok_def
      and_then_eq_Inr split: if_splits)

lemma core_reach_ok: "core_reach ops c \<Longrightarrow> core_ok ops c"
  by (induction rule: core_reach.induct) (auto intro: build_ok core_ok_step)

section \<open>From the files to the shell\<close>

lemma session_new_owns:
  assumes "session_new X J JH i rec env fl h = (Inr s, fl', h')" shows "ss_file s = fl' \<and> ss_history s = h'"
  using assms by (auto simp: session_new_def open_session_def Let_def split: if_splits sum.splits prod.splits)

lemma built_connection_floors:
  assumes "session_laws (ho_crates ops) (ho_document ops)" "sha256_law (ho_crates ops)"
    and "is_lower_hex 64 (pr_peer_bundle_fp (ll_record (fst l)))" "build_connection ops io l c = (Inr conn, c')"
  shows "\<exists>i. world_ok (world_of ops i (ll_record (fst l)))
    \<and> conn_floors (world_of ops i (ll_record (fst l))) 0 0 (Some conn) (cr_disk c')"
proof -
  let ?X = "ho_crates ops" and ?r = "ll_record (fst l)"
  from assms(4) obtain i f st s fl st' where sn:
    "session_new ?X (ho_document ops) (ho_item ops) i ?r (oe_start (io_open io)) (dk_session (cr_disk (set_pairing_files f c))) st = (Inr s, fl, st')"
    and res: "conn = \<lparr>lc_link = fst l, lc_socket = snd l, lc_session = s\<rparr>"
      "dk_session (cr_disk c') = fl" "dk_history (cr_disk c') = hs_disk st'"
    by (auto simp: build_connection_def and_then_eq_Inr map_err_eq_Inr Let_def split: sum.splits prod.splits if_splits)
  have w: "world_ok (world_of ops i ?r)" using assms(1-3) by (simp add: world_ok_def)
  have "floors (world_of ops i ?r) 0 0 (Running s)"
    by (rule start_floor(2) [OF w, where fl = "dk_session (cr_disk (set_pairing_files f c))"])
       (use sn in \<open>auto simp: file_floor_def\<close>)
  then show ?thesis using w session_new_owns [OF sn] res
    by (intro exI [of _ i]) (simp add: conn_floors_def owns_def del: floors.simps)
qed

lemma connect_turn_raises:
  assumes "world_ok (world_of ops i r)" "conn_floors (world_of ops i r) 0 0 (Some conn) d"
    and "dispatch ops (CommandTurn env) (fresh_dispatcher\<lparr>dp_queue := [CmdConnect conn k]\<rparr>) d = (dp, d', os)"
  shows "\<exists>L. conn_floors (world_of ops i r) L 0 (dp_connection dp) d' \<and> raised 0 0 L 0 os \<and> dp_queue dp = []"
proof -
  obtain c1 d1 os1 where b: "handle_bootstrap ops env (ll_bootstrap_clip (lc_link conn)) conn d = (c1, d1, os1)" by (metis prod_cases3)
  obtain L where L: "conn_floors (world_of ops i r) L 0 (Some c1) d1" "raised 0 0 L 0 os1"
    using bootstrap_raises [OF assms(1,2) b] by blast
  have "dp_connection dp = Some c1" "d' = d1" "os = os1 @ [OReply k RpAck, OStatus StConnected]" "dp_queue dp = []"
    using assms(3) b by (auto simp: command_turn_def fresh_dispatcher_def)
  with L show ?thesis by (intro exI [of _ L]) (simp add: raised_def)
qed


text \<open>A second device whose live link delivers the clip of the first one.\<close>

definition demo_live_ops :: handle_ops where
  "demo_live_ops = demo_handle_ops\<lparr>ho_core := demo_core_ops
     \<lparr>co_frames := table_json [Clip (ss_room_id (demo_session 2 1)) demo_ciphertext [] False],
      co_identity := table_json [identity_document_of demo_crates (demo_identity 2)]\<rparr>\<rparr>"

definition demo_core :: core where
  "demo_core = \<lparr>cr_state = HActive \<lparr>ac_dispatcher = fresh_dispatcher, ac_phase = PhBusy\<rparr>,
     cr_disk = demo_disk\<lparr>dk_pairing := [IDENTITY_FILE \<mapsto> [2]]\<rparr>, cr_log = [], cr_slots = (\<lambda>_. None), cr_waits = [], cr_calls = [],
     cr_stopping = None, cr_next = 0, cr_accepted = []\<rparr>"

definition demo_io :: io_env where
  "demo_io = \<lparr>io_dir_fails = False, io_timed_out = False,
     io_attempt = \<lparr>at_record_env = demo_env, at_read_fails = False, at_env = demo_env, at_dial = Inl ''offline'', at_jitter = 0\<rparr>,
     io_draws = [], io_nonce = [], io_fault = None, io_tmp = ''t'', io_identity = demo_env, io_session_dir_fails = False,
     io_open = te_open demo_turn\<rparr>"

definition demo_link :: "live_link \<times> socket" where
  "demo_link = (lc_link demo_connection, \<lparr>sk_in = [InText [2]], sk_out = [], sk_sends = []\<rparr>)"

lemma demo_live_ops_simps [simp]:
  "ho_crates demo_live_ops = demo_crates" "ho_document demo_live_ops = demo_documents_json" "ho_item demo_live_ops = demo_items_json"
  "ho_envelope demo_live_ops = demo_envelope_json" "ho_texts demo_live_ops = demo_texts" "ho_callbacks demo_live_ops = ho_callbacks demo_handle_ops"
  by (simp_all add: demo_live_ops_def demo_handle_ops_def)

lemma demo_second_identity:
  "load_identity demo_crates (co_identity (ho_core demo_live_ops)) demo_env [IDENTITY_FILE \<mapsto> [2]]
   = (Inr (demo_identity 2), [IDENTITY_FILE \<mapsto> [2]])"
  by (simp add: load_identity_def load_or_create_def demo_env_def demo_live_ops_def table_json_def from_document_of wf_identity_def demo_identity_def)

lemma demo_second_session:
  "\<exists>fl h. session_new demo_crates demo_documents_json demo_items_json (demo_identity 2) (demo_party 2 1) (oe_start (te_open demo_turn)) None empty_history
   = (Inr (demo_session 2 1), fl, h)"
proof -
  obtain r fl h where sn: "session_new demo_crates demo_documents_json demo_items_json (demo_identity 2) (demo_party 2 1)
      (oe_start (te_open demo_turn)) None empty_history = (r, fl, h)" by (metis prod_cases3)
  then have "(case r of Inl _ \<Rightarrow> Stopped fl (hs_disk h) | Inr s \<Rightarrow> Running s) = Running (demo_session 2 1)"
    using demo_starts(1) demo_history_new by (auto simp: demo_start_def demo_world_def demo_turn_def split: sum.splits)
  then show ?thesis using sn by (cases r) auto
qed

lemma demo_built:
  "\<exists>c'. build_connection demo_live_ops demo_io demo_link demo_core
     = (Inr \<lparr>lc_link = fst demo_link, lc_socket = snd demo_link, lc_session = demo_session 2 1\<rparr>, c') \<and> owns (demo_session 2 1) (cr_disk c')"
proof -
  obtain fl h where sn: "session_new demo_crates demo_documents_json demo_items_json (demo_identity 2) (demo_party 2 1)
      (oe_start (te_open demo_turn)) None empty_history = (Inr (demo_session 2 1), fl, h)" using demo_second_session by blast
  have hn: "history_new demo_crates demo_items_json (oe_history (te_open demo_turn)) (oe_remove (te_open demo_turn)) (oe_listing (te_open demo_turn)) (hs_disk empty_history)
     = (Inr empty_history, hs_disk empty_history)" using demo_history_new by (simp add: demo_turn_def)
  have l: "ll_record (fst demo_link) = demo_party 2 1" by (simp add: demo_link_def demo_connection_def)
  show ?thesis using sn hn session_new_owns [OF sn] demo_second_identity
    by (simp add: build_connection_def pairing_store_def demo_io_def demo_core_def demo_disk_def set_pairing_files_def l owns_def Let_def)
qed

lemma demo_live_frame:
  "receive_frame (ho_core demo_live_ops) (snd demo_link)
   = (Inr (Clip (ss_room_id (demo_session 2 1)) demo_ciphertext [] False), \<lparr>sk_in = [], sk_out = [], sk_sends = []\<rparr>)"
proof -
  have room: "validate_room_id (ss_room_id (demo_session 2 1)) = Inr ()"
    using room_id_hex [OF demo_laws(2)] by (simp add: demo_session_fields(1) validate_room_id_def validate_lower_hex_def)
  obtain f s' where f: "demo_sent = (Inr f, s')" using demo_sent_ok by (metis is_ok_iff prod.collapse)
  then obtain sealed where "f = Clip (ss_room_id (demo_session 1 2)) (b64_encode demo_crates sealed) [] False"
    unfolding demo_sent_def by (rule send_clip_frame)
  then have "demo_ciphertext = b64_encode demo_crates sealed" by (simp add: demo_ciphertext_def f)
  then have "validate_base64 demo_crates ''ciphertext_b64'' demo_ciphertext = Inr ()"
    using validate_base64_iff [OF demo_laws(1)] by auto
  with room show ?thesis
    by (simp add: receive_frame_def demo_link_def decode_frame_def ensure_size_def MAX_FRAME_BYTES_def demo_live_ops_def table_json_def)
qed


section \<open>Shutdown is final\<close>

lemma with_active_shut [simp]: "cr_state c = HShutdown \<Longrightarrow> with_active f c = (Inl CShutdown, c)"
  by (simp add: with_active_def)

lemma try_command_shut [simp]: "cr_state c = HShutdown \<Longrightarrow> try_command ops cmd c = (Inl CShutdown, c)"
  by (simp add: try_command_def Let_def)

lemma shut_simps [simp]:
  "cr_state (drop_call x c) = cr_state c" "cr_state (set_pairing_files f c) = cr_state c" "cr_state (emit st c) = cr_state c"
  "cr_state (replace_wait w ws c) = cr_state c" "cr_state (abort_wait k c) = cr_state c"
  "cr_state c = HShutdown \<Longrightarrow> cr_state (abort_phase_transition e c) = HShutdown"
  "cr_state c = HShutdown \<Longrightarrow> begin_phase_transition c = (Inl CShutdown, c)"
  "cr_state c = HShutdown \<Longrightarrow> set_phase p c = (Inl CShutdown, c)"
  by (simp_all add: drop_call_def set_pairing_files_def emit_def replace_wait_def abort_wait_def abort_phase_transition_def
      begin_phase_transition_def set_phase_def)

lemma activate_enqueue_shut: "cr_state c = HShutdown \<Longrightarrow> cr_state (snd (activate_enqueue ops io l c)) = HShutdown"
  by (auto simp: activate_enqueue_def build_connection_def Let_def split: sum.split prod.split)

lemma request_shut:
  assumes "cr_state c = HShutdown"
  shows "cr_state (snd (send_text ops t now c)) = HShutdown" "cr_state (snd (send_image ops bs now c)) = HShutdown"
    "cr_state (snd (list_history ops c)) = HShutdown" "cr_state (snd (history_image_bytes ops message i c)) = HShutdown"
    "cr_state (snd (history_apply ops message i c)) = HShutdown" "cr_state (snd (clear_all_history ops c)) = HShutdown"
    "cr_state (snd (ask_echo ops hash c)) = HShutdown"
  using assms by (simp_all add: send_text_def send_image_def list_history_def history_image_bytes_def history_apply_def
      clear_all_history_def ask_echo_def split: sum.split)

lemma pairing_shut:
  assumes "cr_state c = HShutdown"
  shows "cr_state (snd (pair_begin_enter ops io url c)) = HShutdown" "cr_state (snd (pair_begin_io ops io url c)) = HShutdown"
    "cr_state (snd (pair_begin_offer q k c)) = HShutdown" "cr_state (snd (pair_claim_enter ops io p c)) = HShutdown"
    "cr_state (snd (pair_claim_io ops io qr c)) = HShutdown" "cr_state (snd (pair_confirm_enter ops io sas c)) = HShutdown"
    "cr_state (snd (pair_confirm_io ops io sas ch sk c)) = HShutdown" "cr_state (snd (activate_finish r answered c)) = HShutdown"
    "cr_state (snd (pair_cancel c)) = HShutdown" "cr_state (snd (pair_load ops io c)) = HShutdown"
    "cr_state (snd (start_enter ops io c)) = HShutdown" "cr_state (snd (start_io ops io r c)) = HShutdown"
    "cr_state (snd (stop_enter kind c)) = HShutdown"
  using assms
  by (simp_all add: pair_begin_enter_def pair_begin_io_def pair_begin_offer_def pair_claim_enter_def pair_claim_io_def
      pair_confirm_enter_def pair_confirm_io_def activate_finish_def pair_cancel_def pair_load_def start_enter_def start_io_def
      stop_enter_def take_active_def activate_enqueue_shut Let_def split: sum.split prod.split)

lemma waiting_shut:
  assumes "cr_state c = HShutdown"
  shows "cr_state (wait_for_peer ops k off sk c) = HShutdown" "cr_state (announce_peer k sas c) = HShutdown"
  using assms by (simp_all add: wait_for_peer_def announce_peer_def split: sum.split prod.split)

lemma shutdown_step:
  assumes "core_step ops c c'" "cr_state c = HShutdown" "cr_stopping c = None" shows "cr_state c' = HShutdown"
  using assms by (induction rule: core_step.induct) (simp_all add: pairing_shut request_shut waiting_shut)

section \<open>The handle over all runs\<close>

text \<open>C26: the handle stays consistent. In every interleaving of the shell's calls with the
  dispatcher, the waiting task, resets and shutdowns: the queue never holds more than its capacity;
  the accepted commands are, in order, those already answered followed by those still queued, and no
  reply channel is used twice, so a command is never dropped silently, never answered twice and never
  overtaken; the short authentication string that polling shows is the one of the channel that a
  confirmation would use; and a handle that was shut down stays shut down.\<close>

theorem handle_stays_consistent:
  assumes "core_reach ops c"
  shows "length (queued c) \<le> max 1 (ho_queue_capacity ops)
    \<and> cr_accepted c = replies (cr_log c) @ queued c \<and> distinct (cr_accepted c)
    \<and> (\<forall>sas. pair_poll c = SnSasReady sas \<longrightarrow> (\<exists>a k ch sk. cr_state c = HActive a \<and> ac_phase a = PhSasReady sas k
          \<and> cr_slots c k = Some (ch, sk) \<and> sas = pending_sas (ho_crates ops) (pch_pending ch)))
    \<and> (cr_state c = HShutdown \<longrightarrow> (\<forall>c'. core_step ops c c' \<longrightarrow> cr_state c' = HShutdown))"
proof -
  have ok: "commands_ok ops c" "states_ok c" "slots_ok ops c" using core_reach_ok [OF assms] by (simp_all add: core_ok_def)
  have "length (queued c) \<le> max 1 (ho_queue_capacity ops)"
    using ok(1) by (auto simp: commands_ok_def queued_def queue_ok_def split: option.splits)
  moreover have "cr_accepted c = replies (cr_log c) @ queued c" "distinct (cr_accepted c)"
    using ok(1) unfolding commands_ok_def ids_ok_def by blast+
  moreover have "\<exists>a k ch sk. cr_state c = HActive a \<and> ac_phase a = PhSasReady sas k
      \<and> cr_slots c k = Some (ch, sk) \<and> sas = pending_sas (ho_crates ops) (pch_pending ch)" if "pair_poll c = SnSasReady sas" for sas
  proof -
    from that obtain a where a: "cr_state c = HActive a" "snapshot_of (ac_phase a) = SnSasReady sas"
      by (auto simp: pair_poll_def split: handle_state.splits)
    then obtain k where k: "ac_phase a = PhSasReady sas k" by (cases "ac_phase a") auto
    have "filled ops c k sas" using slots_okD(5) [OF ok(3) a(1)] k by simp
    then show ?thesis using a(1) k by (auto simp: filled_def split: option.splits)
  qed
  moreover have "cr_state c' = HShutdown" if "cr_state c = HShutdown" "core_step ops c c'" for c'
  proof -
    have "cr_stopping c = None" using ok(2) that(1) by (cases "cr_stopping c") (simp_all add: states_ok_def)
    then show ?thesis using shutdown_step [OF that(2,1)] by simp
  qed
  ultimately show ?thesis by blast
qed

theorem handle_stays_consistent_witness:
  "\<exists>c. core_reach demo_handle_ops c \<and> replies (cr_log c) = [0] \<and> queued c = [1]
     \<and> cr_accepted c = replies (cr_log c) @ queued c \<and> length (queued c) \<le> max 1 (ho_queue_capacity demo_handle_ops)"
proof -
  let ?ops = demo_handle_ops
  let ?c0 = "\<lparr>cr_state = HActive \<lparr>ac_dispatcher = fresh_dispatcher, ac_phase = PhUnpaired\<rparr>, cr_disk = demo_disk, cr_log = [],
    cr_slots = \<lambda>_. None, cr_waits = [], cr_calls = [], cr_stopping = None, cr_next = 0, cr_accepted = []\<rparr>"
  let ?send = "\<lambda>k. CmdSend (CText ''hi'') 1000 k"
  let ?a = "\<lambda>q. \<lparr>ac_dispatcher = fresh_dispatcher\<lparr>dp_queue := map ?send q\<rparr>, ac_phase = PhUnpaired\<rparr>"
  let ?c1 = "?c0\<lparr>cr_state := HActive (?a [0]), cr_next := 1, cr_accepted := [0]\<rparr>"
  let ?c2 = "?c0\<lparr>cr_state := HActive (?a [0, 1]), cr_next := 2, cr_accepted := [0, 1]\<rparr>"
  let ?c3 = "?c2\<lparr>cr_state := HActive ((?a [0, 1])\<lparr>ac_dispatcher := fresh_dispatcher\<lparr>dp_queue := [?send 1]\<rparr>\<rparr>), cr_disk := demo_disk,
    cr_log := cr_log ?c2 @ [OReply 0 (RpSent (Inl CNotPaired))]\<rparr>"
  note defs = send_text_def try_command_def with_active_def queue_try_send_def fresh_dispatcher_def
  have r0: "core_reach ?ops ?c0" by (rule reach_build [of demo_disk]) (simp add: build_def spawn_active_def)
  have s1: "snd (send_text ?ops ''hi'' 1000 ?c0) = ?c1" by (simp add: defs demo_handle_ops_def)
  have r1: "core_reach ?ops ?c1" using reach_step [OF r0 step_send_text [of ?ops ?c0 "''hi''" 1000]] unfolding s1 .
  have s2: "snd (send_text ?ops ''hi'' 1000 ?c1) = ?c2" by (simp add: defs demo_handle_ops_def)
  have r2: "core_reach ?ops ?c2" using reach_step [OF r1 step_send_text [of ?ops ?c1 "''hi''" 1000]] unfolding s2 .
  have "dispatcher_turn ?ops demo_turn (ac_dispatcher (?a [0, 1])) (cr_disk ?c2) (fresh_dispatcher\<lparr>dp_queue := [?send 1]\<rparr>) demo_disk
      [OReply 0 (RpSent (Inl CNotPaired))]"
    by (simp add: dispatcher_turn_def command_turn_def fresh_dispatcher_def)
  then have r3: "core_reach ?ops ?c3" by (intro reach_step [OF r2] step_dispatch) simp_all
  have "replies (cr_log ?c3) = [0]" "queued ?c3 = [1]" by (simp_all add: queued_def the_dispatcher_def)
  with handle_stays_consistent [OF r3] r3 show ?thesis by blast
qed

text \<open>A caller whose command is no longer queued has its result.\<close>

lemma find_reply_iff: "find_reply k os \<noteq> None \<longleftrightarrow> k \<in> set (replies os)"
  by (induction k os rule: find_reply.induct) auto

lemma await_returns:
  assumes "core_reach ops c" "k \<in> set (cr_accepted c)" "k \<notin> set (queued c)"
  shows "\<exists>r. await_reply get k c = Some r" "\<exists>b. await_echo k c = Some b"
proof -
  have "cr_accepted c = replies (cr_log c) @ queued c"
    using core_reach_ok [OF assms(1)] by (simp add: core_ok_def commands_ok_def)
  then have "k \<in> set (replies (cr_log c))" using assms(2,3) by auto
  then have "find_reply k (cr_log c) \<noteq> None" by (simp only: find_reply_iff)
  then show "\<exists>r. await_reply get k c = Some r" "\<exists>b. await_echo k c = Some b"
    by (auto simp: await_reply_def await_echo_def)
qed

section \<open>Corner cases\<close>

text \<open>A failure after the phase was taken leaves the phase busy: no call of the handle gets it back,
  except a reset.\<close>

lemma busy_is_stuck:
  assumes "cr_state c = HActive a" "ac_phase a = PhBusy"
  shows "fst (start_enter ops io c) = Inl CBusy" "fst (begin_phase_transition c) = Inl CBusy" "pair_cancel c = (Inr (), c)"
    "fst (pair_confirm_enter ops io sas c) = Inl CBusy" "pair_poll c = SnUnpaired"
  using assms by (simp_all add: start_enter_def begin_phase_transition_def pair_cancel_def pair_confirm_enter_def pair_poll_def
      with_active_def emit_def)

lemma failed_start_leaves_busy:
  assumes "cr_state c = HActive a" "ac_phase a = PhPaired r" "io_dir_fails io"
  shows "\<exists>e c'. start_enter ops io c = (Inl e, c') \<and> cr_calls c' = cr_calls c \<and> cr_state c' = HActive (a\<lparr>ac_phase := PhBusy\<rparr>)"
  using assms by (simp add: start_enter_def with_active_def emit_def pairing_store_def)

lemma full_queue_leaves_busy:
  assumes "cr_state c = HActive a" "ac_phase a = PhBusy" "\<not> dp_stopped (ac_dispatcher a)"
    and "length (dp_queue (ac_dispatcher a)) \<ge> max 1 (ho_queue_capacity ops)" "build_connection ops io l c = (Inr conn, c1)"
  shows "\<exists>c'. activate_enqueue ops io l c = (Inl CQueueFull, c') \<and> cr_calls c' = cr_calls c \<and> cr_state c' = HActive a"
proof -
  have "cr_state c1 = HActive a \<and> cr_calls c1 = cr_calls c"
    using assms(1,5) by (auto simp: build_connection_def set_pairing_files_def and_then_eq_Inr Let_def split: sum.splits prod.splits if_splits)
  then show ?thesis using assms(3-5) by (auto simp: activate_enqueue_def try_command_def with_active_def queue_try_send_def Let_def)
qed

text \<open>A cancel between the arrival of the peer and its announcement.\<close>

lemma announced_after_cancel:
  assumes "cr_state c = HActive a" "ac_phase a = PhOffering q k" "Arrived k sas \<in> set (cr_waits c)"
  shows "Arrived k sas \<in> set (cr_waits (snd (pair_cancel c)))"
    "pair_poll (announce_peer k sas (snd (pair_cancel c))) = SnUnpaired"
    "last (cr_log (announce_peer k sas (snd (pair_cancel c)))) = OStatus StSasReady"
  using assms by (simp_all add: pair_cancel_def announce_peer_def with_active_def emit_def abort_wait_def replace_wait_def
      is_offering_def pair_poll_def)

text \<open>A peer that arrives before \<open>pair_begin\<close> has stored its phase is announced, and the phase
  then stays at the offer although nobody waits any more.\<close>

lemma early_peer_is_lost:
  assumes "cr_state c = HActive a" "ac_phase a = PhBusy" "Arrived k sas \<in> set (cr_waits c)" "distinct (map wait_slot (cr_waits c))"
  shows "pair_poll (snd (pair_begin_offer q k (announce_peer k sas c))) = SnOffering q"
    "k \<notin> wait_slot ` set (cr_waits (snd (pair_begin_offer q k (announce_peer k sas c))))"
proof -
  show "pair_poll (snd (pair_begin_offer q k (announce_peer k sas c))) = SnOffering q"
    using assms(1,2) by (simp add: announce_peer_def pair_begin_offer_def set_phase_def with_active_def replace_wait_def emit_def is_offering_def pair_poll_def)
  have w: "set (remove1 (Arrived k sas) (cr_waits c)) = set (cr_waits c) - {Arrived k sas}" and inj: "inj_on wait_slot (set (cr_waits c))"
    using assms(4) by (simp_all add: distinct_map)
  have "wait_slot v \<noteq> k" if "v \<in> set (remove1 (Arrived k sas) (cr_waits c))" for v
    using inj_onD [OF inj, of v "Arrived k sas"] that assms(3) by (simp add: w) fastforce
  moreover have "cr_waits (snd (pair_begin_offer q k (announce_peer k sas c))) = remove1 (Arrived k sas) (cr_waits c)"
    using assms(1,2) by (simp add: announce_peer_def pair_begin_offer_def set_phase_def with_active_def replace_wait_def emit_def is_offering_def)
  ultimately show "k \<notin> wait_slot ` set (cr_waits (snd (pair_begin_offer q k (announce_peer k sas c))))" by auto
qed

text \<open>A start that was in flight during a reset and fails afterwards puts the record of the old
  pairing back.\<close>

lemma old_record_comes_back:
  assumes "reset_finish ops env sp c = (Inr (), c')" "io_timed_out io"
  shows "pair_poll c' = SnUnpaired" "pair_poll (snd (start_io ops io r c')) = SnPaired (pr_room_id r)"
proof -
  obtain a where a: "cr_state c' = HActive a" "ac_phase a = PhUnpaired"
    using assms(1) by (auto simp: reset_finish_def spawn_active_def split: prod.splits sum.splits if_splits)
  show "pair_poll c' = SnUnpaired" using a by (simp add: pair_poll_def)
  show "pair_poll (snd (start_io ops io r c')) = SnPaired (pr_room_id r)"
    using a assms(2) by (simp add: start_io_def block_on_io_def set_phase_def with_active_def emit_def set_pairing_files_def pair_poll_def
        split: prod.split)
qed

text \<open>A shutdown whose dispatcher does not stop in time leaves the handle in transition for good.\<close>

lemma failed_shutdown_in_transition:
  assumes "states_ok c" "cr_stopping c = Some sp" "\<not> dp_stopped (sp_dispatcher sp)"
  shows "is_ok (fst (shutdown_finish sp c)) = False" "cr_state (snd (shutdown_finish sp c)) = HTransitioning"
    "cr_stopping (snd (shutdown_finish sp c)) = None"
  using assms by (simp_all add: shutdown_finish_def stop_join_def states_ok_def)

text \<open>A connection that was built before a send of the old one was handled repeats its number.\<close>

lemma send_reports_next_seq:
  assumes "send_over_connection ops env content ts c d = Some (Inr q, c', d', os)" shows "q = ds_next_seq (ss_send_state (lc_session c))"
  using assms
  by (auto simp: send_over_connection_def resend_def and_then_eq_Inr Let_def split: sum.splits prod.splits option.splits if_splits)

lemma second_connection_reuses_number:
  assumes "ds_next_seq (ss_send_state (lc_session old)) = n" "ds_next_seq (ss_send_state (lc_session conn)) = n"
    and "ll_bootstrap_clip (lc_link conn) = None"
    and "handle_command ops e1 (CmdSend x t1 k1) (Some old) d = Some (oc, d1, os1)" "reported_seqs os1 \<noteq> []"
    and "handle_command ops e2 (CmdConnect conn k2) oc d1 = Some (oc2, d2, os2)"
    and "handle_command ops e3 (CmdSend y t2 k3) oc2 d2 = Some (oc3, d3, os3)" "reported_seqs os3 \<noteq> []"
  shows "reported_seqs os1 = [n]" "reported_seqs os3 = [n]"
proof -
  have one: "reported_seqs os = [ds_next_seq (ss_send_state (lc_session c))]"
    if "handle_command ops e (CmdSend z t k) (Some c) d = Some (oc', d', os)" "reported_seqs os \<noteq> []" for e z t k c d oc' d' os
  proof -
    from that(1) obtain r c' os' where r: "send_over_connection ops e z t c d = Some (r, c', d', os')" "os = os' @ [OReply k (RpSent r)]"
      by auto
    then have "reported_seqs os' = []" using reported_are_replies [OF replies_send] by blast
    with r that(2) send_reports_next_seq [of ops e z t c d] show ?thesis by (cases r) auto
  qed
  have "oc2 = Some conn" using assms(3,6) by (auto simp: handle_bootstrap_def)
  then show "reported_seqs os1 = [n]" "reported_seqs os3 = [n]" using one [OF assms(4,5)] one [of e3 y t2 k3 conn d2 oc3 d3 os3] assms(1,2,7,8) by simp_all
qed

end
