(* ===== verification/Spec2Isabelle.thy ===== *)
theory Spec2Isabelle
  imports Prelude Durable Externals Protocol Crypto History Pairing Session Session_Runs
    Config Ratelimit Registry Outbox Mailbox_Sink Room Room_Runs Mailbox Mailbox_Runs
    Relay_Pairing Connection Relay
    Pairing_Client Dispatcher Core_Handle
begin

text \<open>
  A verification development for ClipSync, an end-to-end encrypted clipboard between two paired
  devices with an untrusted relay. It models the Rust crates src/crates/core (the endpoint) and
  src/crates/server (the relay).

  \<^bold>\<open>The program.\<close> An endpoint has a long-term identity. Two endpoints pair through a code that
  the relay brokers and a short authentication string that the users compare; each then stores a
  pairing record. With it an endpoint joins the room of the pair on the relay by signing the
  challenge of its connection, and exchanges sealed clips. The relay routes a clip to the other
  member, or keeps the newest one in a mailbox and hands it over as the bootstrap frame of the next
  join. The endpoint checks, records and delivers each clip at most once, across crashes.

  \<^bold>\<open>Shared theories.\<close>
  \<^item> Prelude: machine types, strings and bytes, results, bounded lists, association lists.
  \<^item> Durable: the atomic file replacement that six routines of the sources share, with every step
    at which it may fail.
  \<^item> Externals: the third-party crates (base64, uuid, sha2, ed25519, x25519, the AEAD, serde\_json) as
    a record of functions with their documented laws as named predicates, and a concrete instance of
    the laws for the witnesses. Nothing is assumed about secrecy or collision resistance.

  \<^bold>\<open>The endpoint, src/crates/core/src.\<close>
  \<^item> Protocol (protocol.rs): frames, envelope, validation, bounded codecs, the connection-order
    table. Lemmas: round trips, and the table against the documented one.
  \<^item> Crypto (crypto.rs): fingerprints, room and device ids, the signed join message, session keys,
    sealing, the identity file. Lemmas: crossed keys open each other's messages, the signed and the
    associated data determine their fields, the identity file is never partial.
  \<^item> History (history.rs): the clipboard history with its metadata file and image files. Lemmas: the
    bound, readability and restart of every reachable store; the locale \<open>idempotent_log\<close> is what
    the session's recovery relies on.
  \<^item> Pairing (pairing.rs): the QR payload, both roles, confirmation, the pairing store, the reset.
    Lemmas: the roles agree, the record is stored completely or not at all, a reset leaves one
    generation.
  \<^item> Session (session.rs) and Session\_Runs: durable direction state, sending, the four-step receive
    path with each failure and crash stage. Lemmas over runs with crashes and restarts: numbers are
    never reused, callbacks fire at most once and only after the item is durable, a committed item
    is recovered.
  \<^item> Pairing\_Client (pairing\_client.rs): handshake, offer, claim, join, the live link, reconnecting
    with backoff, over a scripted socket. Lemmas: the frames of a client that goes live follow the
    protocol table, and the bounds of the backoff.
  \<^item> Dispatcher and Core\_Handle (ffi.rs): the boundary to the shells, the bounded command queue and
    its dispatcher, the pairing phases, the calls of the handle split at the state lock, and their
    interleaving \<open>core_step\<close>. Lemmas: the queue is bounded and answered in order, the shown SAS is
    that of the stored channel, shutdown is final, a failing callback is survived, and the
    at-most-once result of the session reaches the shell. The last section of Core\_Handle proves
    corner cases in which a call leaves the handle stuck or misreports.

  \<^bold>\<open>The relay, src/crates/server/src.\<close>
  \<^item> Config (config.rs) and Ratelimit (ratelimit.rs): limits, trusted proxies, the fixed-window
    limiter.
  \<^item> Registry (registry.rs, the exports of lib.rs): the registry trait as a record of functions; the
    locale \<open>registry\<close> is its contract, interpreted for the in-memory and for the persistent
    implementation. Lemmas: the one refines the other, memory and file agree, an activated room
    keeps its members.
  \<^item> Outbox, Room and Room\_Runs (room.rs): the bounded outbox with reservations, the actor of a room,
    the table of rooms. Lemmas: the budgets, what a join and a clip do, one actor per room.
  \<^item> Mailbox\_Sink, Mailbox and Mailbox\_Runs (mailbox.rs): the sink trait with the locale
    \<open>mailbox_laws\<close> for its two implementations; the persistent mailbox with its worker and
    sweeper interleaved at every access to shared state. Lemmas: no clip is forgotten, what is
    published can be read back after a restart, the quota holds, the worker comes to rest.
  \<^item> Relay\_Pairing (pairing.rs): offers and claims; the locale \<open>pairing_laws\<close> is what a connection
    relies on. Lemmas: a code is claimed at most once, a claim pairs both sides.
  \<^item> Connection (connection.rs) and Relay (server.rs): the phases of a connection, the authentication
    of a join, the read loop and the writer, admission, and the interleaving \<open>relay_reach\<close> of all
    connections and actors. Lemmas: every member of a room proved its membership, permits and
    connections add up.
  \<^item> This theory composes the endpoint and the relay: the records two paired devices derive let both
    join.

  \<^bold>\<open>Conventions.\<close> \<open>Result\<close> is a sum with the error on the left, a panic is \<open>None\<close> or \<open>Inl\<close> of the
  state it leaves, as each theory says. Clocks, randomness, file system failures, dial outcomes and
  the choices of a scheduler are arguments of the operation that meets them; runs quantify over all
  of them. Fixed-width integers are words where the code counts with them and may wrap; lengths,
  durations and connection addresses are natural numbers. Maps whose size or order is observed are
  association lists.

  \<^bold>\<open>Bounds and fuel.\<close> No definition uses fuel. Loops over the outside world take the list of what the
  world offers: the reconnect loop takes its dial attempts and is \<open>None\<close> when they run out, which
  stands for a loop that is still trying; the read loop of a connection takes its messages. The
  mailbox worker is proved to come to rest by a measure on what is left to publish. The bounds of
  the model are those of the code (fifty history items, 64 ids and echo hashes, the queue, outbox
  and inbox budgets).

  \<^bold>\<open>Not modelled.\<close> The process set-up in server/src/main.rs and the axum router and listener in
  server.rs, which are calls to libraries and the operating system. The tokio runtime: tasks are
  the steps of an interleaving, cancellation inside a reconnect appears as a turn that does not
  happen, and a future dropped by a timeout keeps the file effects it already had. TLS and the
  websocket library behind a socket. The texts of error messages of other modules that the handle
  passes on, which are arguments. Test-only gates and hooks. The generated bindings, the Swift and
  Kotlin shells, scripts, the example client and the tests: a shell is any sequence of calls with
  any callback results.
\<close>

section \<open>Endpoints and relay together\<close>

text \<open>The codes a client generates are codes the relay accepts.\<close>

lemma generated_code_accepted:
  assumes "length draws = 6" "list_all (\<lambda>n. n < 30) draws"
  shows "valid_code (generate_pairing_code draws)"
  using generated_code_valid(2) [OF assms] assms(1)
  by (auto simp: valid_code_def list_all_iff PAIRING_CODE_ALPHABET_def CODE_ALPHABET_def generate_pairing_code_def)

text \<open>The bundles of the candidate each role derives.\<close>

lemma offerer_candidate:
  assumes "offerer_start debug X i qr = Inr o'" "offerer_receive_peer X o' peer = Inr p"
  shows "pc_local_bundle (pe_candidate p) = public_bundle X i \<and> pc_peer_bundle (pe_candidate p) = peer"
proof -
  have "of_local_bundle o' = public_bundle X i"
    using assms(1) by (auto simp: offerer_start_def and_then_eq_Inr Let_def split: if_splits)
  then show ?thesis using assms(2) [symmetric] by (simp add: offerer_receive_peer_def split: if_splits)
qed

lemma claimer_candidate:
  assumes "claimer_start debug X i qr = Inr cl" "claimer_receive_peer cl server peer = Inr p"
  shows "pc_local_bundle (pe_candidate p) = public_bundle X i \<and> pc_peer_bundle (pe_candidate p) = peer"
proof -
  have "cl_local_bundle cl = public_bundle X i"
    using assms(1) by (auto simp: claimer_start_def and_then_eq_Inr Let_def split: if_splits)
  then show ?thesis using assms(2) [symmetric] by (auto simp: claimer_receive_peer_def split: if_splits)
qed

subsection \<open>A concrete pairing and join\<close>

lemma demo_bundle_public: "demo_bundle b = public_bundle demo_crates (demo_identity b)"
  by (simp add: demo_bundle_def public_bundle_def demo_crates_def demo_identity_def pad_to_def)

definition demo_client_frames :: "frame list" where
  "demo_client_frames = [Join (pr_room_id demo_rejoin_record) (id_device_id demo_crates (demo_identity 1))
     (public_bundle demo_crates (demo_identity 1)) (b64_encode demo_crates (id_sign_message demo_crates (demo_identity 1) demo_message)),
     JoinOk, MailboxEmpty]"

definition demo_client_ops :: core_ops where
  "demo_client_ops = \<lparr>co_debug = False, co_crates = demo_crates, co_frames = ro_frames (demo_pair_ops demo_client_frames),
     co_identity = table_json [], co_record = table_json [], co_show_frame = (\<lambda>_. [])\<rparr>"

definition demo_answers :: socket where
  "demo_answers = \<lparr>sk_in = [InText [1, 1, 1, 1, 2], InText [1, 1, 1, 1, 1, 2]], sk_out = [], sk_sends = []\<rparr>"

lemma demo_client_joins:
  assumes "pr_room_id r = pr_room_id demo_rejoin_record"
  shows "\<exists>link sk. join_live demo_client_ops (demo_identity 1) r demo_challenge demo_answers = (Inr link, sk)"
proof -
  let ?J = "ro_frames (demo_pair_ops demo_client_frames)"
  have enc: "encode_frame demo_crates ?J (Join (pr_room_id demo_rejoin_record) (id_device_id demo_crates (demo_identity 1))
      (public_bundle demo_crates (demo_identity 1)) (b64_encode demo_crates (id_sign_message demo_crates (demo_identity 1) demo_message)))
      = Inr [1, 1, 1, 2, 10]"
    "decode_frame demo_crates ?J [1, 1, 1, 1, 2] = Inr JoinOk" "decode_frame demo_crates ?J [1, 1, 1, 1, 1, 2] = Inr MailboxEmpty"
    using demo_laws
    by (simp_all add: decode_frame_def encode_frame_def encode_json_def ensure_size_def MAX_FRAME_BYTES_def demo_pair_ops_def table_json_def
        demo_client_frames_def valid_join demo_rejoin_record_def Let_def del: validate_frame.simps(1-4))
  then show ?thesis
    using demo_message assms
    by (simp add: join_live_def client_send_frame_def socket_send_def receive_frame_def then_do_def demo_answers_def demo_client_ops_def Let_def)
qed

definition demo_ready :: connection where
  "demo_ready = \<lparr>cn_id = 1, cn_ip = IpV4 1, cn_phase = InReady (Some demo_challenge) (demo_bundle 1), cn_joined = None\<rparr>"

subsection \<open>Properties\<close>

text \<open>C23: two devices that paired can join. When the relay has accepted the claim of a code, the
  offering device has derived its record from the peer bundle the relay passed on, and the claiming
  device from the bundle in the QR code, then the join frame which either device writes for its
  record and the challenge of its connection is accepted by the relay's join path: it enters the
  room of the record under the fingerprint of the record, provided its address has an attempt left
  and the room's inbox has space.\<close>

theorem paired_devices_join:
  assumes laws: "signature_law (ro_crates ops)" "b64_law (ro_crates ops)"
    and same: "co_crates cops = ro_crates ops" "co_frames cops = ro_frames ops"
    and relay: "pairing_run ops cfg st evs" "ro_registry ops = persistent_ops J" "rooms_ok (pg_rooms (rv_registry e))"
      "on_pair_frame ops cfg ip px (PairClaim code (public_bundle (ro_crates ops) b)) st e = Inr (Inr (), st', e')"
      "map_of (ps_offers st) code = Some off" "of_bundle off = public_bundle (ro_crates ops) a"
    and offerer: "offerer_start debug (ro_crates ops) a qr = Inr o'" "offerer_receive_peer (ro_crates ops) o' (public_bundle (ro_crates ops) b) = Inr p"
    and claimer: "claimer_start debug (ro_crates ops) b qr = Inr cl" "claimer_receive_peer cl server (of_bundle off) = Inr q"
    and device: "i = a \<and> r = from_candidate (ro_crates ops) (pe_candidate p) \<or> i = b \<and> r = from_candidate (ro_crates ops) (pe_candidate q)"
    and join: "join_live cops i r nonce sk = (Inr link, sk')"
    and connection: "cn_phase c = InReady (Some nonce) hb" "rv_registry (sv_env s) = rv_registry e'"
      "check_join (cp_now inp) (cn_ip c) (sv_rates s) = (True, rates)"
      "fst (rooms_join (sc_limits (sv_config s)) ops (cp_unix_ms inp) (pr_room_id r)
         (lookup_members (ro_registry ops) (pr_room_id r) (rv_registry (sv_env s))) (pr_local_bundle_fp r)
         (id_device_id (ro_crates ops) i) (cn_id c) (cn_id c) (sv_rooms s))"
  shows "\<exists>f x s'. sk_out sk' = sk_out sk @ [x] \<and> encode_frame (ro_crates ops) (ro_frames ops) f = Inr x
    \<and> step ops P inp f (length x) c s = Inr ((StepJoined (pr_room_id r) (pr_local_bundle_fp r), c\<lparr>cn_phase := InReady None hb\<rparr>), s')"
proof -
  let ?X = "ro_crates ops"
  have r: "pr_room_id r = room_id ?X (public_bundle ?X a) (public_bundle ?X b)" "pr_local_bundle_fp r = id_bundle_fp ?X i" "i = a \<or> i = b"
    using offerer_candidate [OF offerer] claimer_candidate [OF claimer] device relay(6) room_id_sym [of ?X "public_bundle ?X a"]
    by (auto simp: from_candidate_def id_bundle_fp_def)
  have members: "id_bundle_fp ?X i \<in> set (lookup_members (ro_registry ops) (pr_room_id r) (rv_registry (sv_env s)))"
    using claim_registers [OF relay(1-5)] r connection(2) relay(6)
    by (auto simp: id_bundle_fp_def sorted_pair_def members_vec_def min_def max_def split: if_splits)
  obtain rooms where rj: "rooms_join (sc_limits (sv_config s)) ops (cp_unix_ms inp) (pr_room_id r)
         (lookup_members (ro_registry ops) (pr_room_id r) (rv_registry (sv_env s))) (pr_local_bundle_fp r)
         (id_device_id ?X i) (cn_id c) (cn_id c) (sv_rooms s) = (True, rooms)"
    using connection(4) by (metis (full_types) prod.collapse)
  from join obtain message boot where m: "join_sig_msg nonce (pr_room_id r) (id_device_id ?X i) (bundle_bytes (public_bundle ?X i)) = Inr message"
    "exchanged cops sk sk' [Join (pr_room_id r) (id_device_id ?X i) (public_bundle ?X i) (b64_encode ?X (id_sign_message ?X i message))] [JoinOk, boot]"
    unfolding same(1) [symmetric] by (rule join_live_Inr)
  from m(2) obtain x where x: "encode_frame ?X (ro_frames ops) (Join (pr_room_id r) (id_device_id ?X i) (public_bundle ?X i)
      (b64_encode ?X (id_sign_message ?X i message))) = Inr x" "sk_out sk' = sk_out sk @ [x]"
    by (auto simp: exchanged_def same)
  from step_honest_join [OF laws connection(1) m(1) members connection(3) rj [unfolded r(2)]] x r(2) show ?thesis
    by auto
qed

theorem paired_devices_join_witness:
  "\<exists>f x c' s'. \<exists>s :: (unit, persistent_registry, unit) server_state.
     encode_frame demo_crates (ro_frames (demo_pair_ops demo_client_frames)) f = Inr x
   \<and> step (demo_pair_ops demo_client_frames) pairing_unavailable demo_conn_input f (length x) demo_ready s
     = Inr ((StepJoined demo_pair_room (fst demo_pair_members), c'), s')"
proof -
  let ?ops = "demo_pair_ops demo_client_frames" and ?X = demo_crates
  obtain st e where run: "on_pair_frame ?ops pairing_config_default (IpV4 2) (demo_context 2 2)
      (PairClaim demo_code (public_bundle ?X (demo_identity 2))) demo_offered demo_pair_env = Inr (Inr (), st, e)"
    using demo_claim [of demo_client_frames] unfolding demo_bundle_public by blast
  have "is_ok (and_then (offerer_start False ?X (demo_identity 1) demo_qr) (\<lambda>s. offerer_receive_peer ?X s (public_bundle ?X (demo_identity 2))))"
    "is_ok (and_then (claimer_start False ?X (demo_identity 2) demo_qr) (\<lambda>c. claimer_receive_peer c ''wss://r'' (public_bundle ?X (demo_identity 1))))"
    by code_simp+
  then obtain o' p cl q where roles: "offerer_start False ?X (demo_identity 1) demo_qr = Inr o'"
    "offerer_receive_peer ?X o' (public_bundle ?X (demo_identity 2)) = Inr p"
    "claimer_start False ?X (demo_identity 2) demo_qr = Inr cl"
    "claimer_receive_peer cl ''wss://r'' (public_bundle ?X (demo_identity 1)) = Inr q"
    by (auto simp: is_ok_iff and_then_eq_Inr)
  let ?r = "from_candidate ?X (pe_candidate p)"
  have r: "pr_room_id ?r = demo_pair_room" "pr_room_id ?r = pr_room_id demo_rejoin_record" "pr_local_bundle_fp ?r = fst demo_pair_members"
    using offerer_candidate [OF roles(1,2)]
    by (simp_all add: from_candidate_def demo_pair_room_def demo_rejoin_record_def demo_pair_members_def demo_bundle_public)
  obtain link sk where join: "join_live demo_client_ops (demo_identity 1) ?r demo_challenge demo_answers = (Inr link, sk)"
    using demo_client_joins [OF r(2)] by blast
  let ?s = "server_new demo_relay_config () e :: (unit, persistent_registry, unit) server_state"
  have env: "sv_env ?s = e" "sv_config ?s = demo_relay_config" by (simp_all add: server_new_def rooms_new_def)
  obtain rates where cj: "check_join (cp_now demo_conn_input) (cn_ip demo_ready) (sv_rates ?s) = (True, rates)"
    by (simp add: demo_ready_def server_new_def limiter_unfold rate_limiter_new_def limits_default_def)
  have rj: "fst (rooms_join (sc_limits (sv_config ?s)) ?ops (cp_unix_ms demo_conn_input) (pr_room_id ?r) ms fp dev (cn_id demo_ready) (cn_id demo_ready) (sv_rooms ?s))" for ms fp dev
    by (simp add: server_new_def rooms_join_def room_entry_def rooms_spawn_def rooms_new_def upd_slot_def inbox_try_send_def
        limits_default_def Let_def numeral_2_eq_2)
  obtain off where off: "map_of (ps_offers demo_offered) demo_code = Some off" "of_bundle off = public_bundle ?X (demo_identity 1)"
    by (simp add: demo_offered_def demo_bundle_public)
  have "\<exists>f x s'. sk_out sk = sk_out demo_answers @ [x] \<and> encode_frame (ro_crates ?ops) (ro_frames ?ops) f = Inr x
    \<and> step ?ops pairing_unavailable demo_conn_input f (length x) demo_ready ?s
      = Inr ((StepJoined (pr_room_id ?r) (pr_local_bundle_fp ?r), demo_ready\<lparr>cn_phase := InReady None (demo_bundle 1)\<rparr>), s')"
    by (rule paired_devices_join [where e = demo_pair_env and st' = st and e' = e and cops = demo_client_ops and a = "demo_identity 1"
          and b = "demo_identity 2" and i = "demo_identity 1" and nonce = demo_challenge and off = off and rates = rates and evs = "[Offered demo_code]"
          and debug = False and qr = demo_qr and o' = o' and cl = cl and server = "''wss://r''" and q = q and p = p and J = demo_pair_json
          and cfg = pairing_config_default and st = demo_offered and ip = "IpV4 2" and px = "demo_context 2 2" and code = demo_code and link = link])
      (use demo_laws demo_offered_run run roles join cj rj off env in
        \<open>simp_all add: demo_client_ops_def demo_pair_env_def rooms_ok_def demo_ready_def\<close>)
  then obtain f x s' where "encode_frame demo_crates (ro_frames ?ops) f = Inr x"
    "step ?ops pairing_unavailable demo_conn_input f (length x) demo_ready ?s
      = Inr ((StepJoined demo_pair_room (fst demo_pair_members), demo_ready\<lparr>cn_phase := InReady None (demo_bundle 1)\<rparr>), s')"
    unfolding r(1,3) by auto
  then show ?thesis by blast
qed

end
